(* ===== verification/Prelude.thy ===== *)
theory Prelude
  imports Complex_Main "HOL-Library.Char_ord" "HOL-Library.List_Lexorder"
begin

text \<open>
  The vocabulary every component shares: Python strings (a \<open>string\<close> is read as a list of code
  points below 256), the text operations of the standard library the source uses, JSON values,
  the result type of a call that may raise, and the two table disciplines of the SQLite store
  (\<^verbatim>\<open>INSERT OR IGNORE\<close> and \<^verbatim>\<open>INSERT ... ON CONFLICT DO UPDATE\<close>), each with the locale that states
  what its clients may rely on.
\<close>

named_theorems kernel_defs \<open>definitions of the model that proofs unfold together\<close>

section \<open>Text\<close>

type_synonym pystr = string

definition py_space :: "char \<Rightarrow> bool" where
  "py_space c \<longleftrightarrow> (let n = (of_char c :: nat) in (9 \<le> n \<and> n \<le> 13) \<or> (28 \<le> n \<and> n \<le> 32) \<or> n = 133 \<or> n = 160)"

definition lstrip :: "pystr \<Rightarrow> pystr" where
  "lstrip s = dropWhile py_space s"

definition strip :: "pystr \<Rightarrow> pystr" where
  "strip s = rev (lstrip (rev (lstrip s)))"

fun join :: "pystr \<Rightarrow> pystr list \<Rightarrow> pystr" where
  "join sep [] = []"
| "join sep [x] = x"
| "join sep (x # y # zs) = x @ sep @ join sep (y # zs)"

text \<open>\<^verbatim>\<open>s.split(c)\<close> for a one-character separator, and a set-like environment of text variables.\<close>

fun split_char :: "char \<Rightarrow> pystr \<Rightarrow> pystr list" where
  "split_char c [] = [[]]"
| "split_char c (x # xs) = (if x = c then [] # split_char c xs
     else case split_char c xs of [] \<Rightarrow> [[x]] | w # ws \<Rightarrow> (x # w) # ws)"

type_synonym environ = "pystr \<rightharpoonup> pystr"

definition getenv :: "environ \<Rightarrow> pystr \<Rightarrow> pystr \<Rightarrow> pystr" where
  "getenv env name dflt = (case env name of None \<Rightarrow> dflt | Some v \<Rightarrow> v)"

definition startswith :: "pystr \<Rightarrow> pystr \<Rightarrow> bool" where
  "startswith s p \<longleftrightarrow> take (length p) s = p"

definition lower_char :: "char \<Rightarrow> char" where
  "lower_char c = (let n = (of_char c :: nat) in
     if (65 \<le> n \<and> n \<le> 90) \<or> (192 \<le> n \<and> n \<le> 222 \<and> n \<noteq> 215) then char_of (n + 32) else c)"

definition lower :: "pystr \<Rightarrow> pystr" where
  "lower s = map lower_char s"

definition digit :: "nat \<Rightarrow> char" where
  "digit d = char_of (48 + d)"

fun dec_nat :: "nat \<Rightarrow> pystr" where
  "dec_nat n = (if n < 10 then [digit n] else dec_nat (n div 10) @ [digit (n mod 10)])"

declare dec_nat.simps [simp del]

definition dec :: "int \<Rightarrow> pystr" where
  "dec i = (if i < 0 then ''-'' @ dec_nat (nat (- i)) else dec_nat (nat i))"

text \<open>\<^verbatim>\<open>f"{i:+d}"\<close>: the sign is always written.\<close>

definition dec_signed :: "int \<Rightarrow> pystr" where
  "dec_signed i = (if i < 0 then dec i else ''+'' @ dec i)"

lemma dropWhile_head: "dropWhile P xs = y # ys \<Longrightarrow> \<not> P y"
  by (induction xs) (auto split: if_splits)

lemma lstrip_rev_lstrip: "lstrip (rev (lstrip (rev (lstrip s)))) = rev (lstrip (rev (lstrip s)))"
proof (cases "lstrip s")
  case Nil
  show ?thesis unfolding Nil by (simp add: lstrip_def)
next
  case (Cons y ys)
  then have y: "\<not> py_space y"
    unfolding lstrip_def by (rule dropWhile_head)
  then have "dropWhile py_space (rev ys @ [y]) = dropWhile py_space (rev ys) @ [y]"
    by (rule dropWhile_append3)
  then show ?thesis
    unfolding Cons using y by (simp add: lstrip_def)
qed

lemma strip_idem [simp]: "strip (strip s) = strip s"
  unfolding strip_def by (simp add: lstrip_rev_lstrip) (simp add: lstrip_def)

section \<open>Calls that may raise\<close>

definition ok :: "'e + 'a \<Rightarrow> bool" where
  "ok r = (case r of Inl _ \<Rightarrow> False | Inr _ \<Rightarrow> True)"

lemma ok_simps [simp]: "ok (Inr x)" "\<not> ok (Inl e)"
  by (simp_all add: ok_def)

definition and_then :: "'e + 'a \<Rightarrow> ('a \<Rightarrow> 'e + 'b) \<Rightarrow> 'e + 'b" where
  "and_then r f = (case r of Inl e \<Rightarrow> Inl e | Inr x \<Rightarrow> f x)"

lemma and_then_simps [simp]:
  "and_then (Inl e) f = Inl e"
  "and_then (Inr x) f = f x"
  by (simp_all add: and_then_def)

lemma and_then_Inr: "and_then r f = Inr y \<longleftrightarrow> (\<exists>x. r = Inr x \<and> f x = Inr y)"
  by (cases r) auto

text \<open>A call that changes the state and may raise after some of its writes have been committed.\<close>

definition bind_st :: "('s \<Rightarrow> ('e + 'a) \<times> 's) \<Rightarrow> ('a \<Rightarrow> 's \<Rightarrow> ('e + 'b) \<times> 's) \<Rightarrow> 's \<Rightarrow> ('e + 'b) \<times> 's" where
  "bind_st m f s = (case m s of (Inl e, s') \<Rightarrow> (Inl e, s') | (Inr x, s') \<Rightarrow> f x s')"

definition return_st :: "'a \<Rightarrow> 's \<Rightarrow> ('e + 'a) \<times> 's" where
  "return_st x s = (Inr x, s)"

definition raise_st :: "'e \<Rightarrow> 's \<Rightarrow> ('e + 'a) \<times> 's" where
  "raise_st e s = (Inl e, s)"

definition modify_st :: "('s \<Rightarrow> 's) \<Rightarrow> 's \<Rightarrow> ('e + unit) \<times> 's" where
  "modify_st f s = (Inr (), f s)"

lemmas st_defs = bind_st_def return_st_def raise_st_def modify_st_def

text \<open>A state predicate that a computation keeps, whether it returns or raises.\<close>

definition keeps :: "('s \<Rightarrow> bool) \<Rightarrow> ('s \<Rightarrow> ('e + 'a) \<times> 's) \<Rightarrow> bool" where
  "keeps P m \<longleftrightarrow> (\<forall>s. P s \<longrightarrow> P (snd (m s)))"

lemma keeps_bind: "keeps P m \<Longrightarrow> (\<And>x. keeps P (f x)) \<Longrightarrow> keeps P (bind_st m f)"
  unfolding keeps_def bind_st_def by (auto split: prod.splits sum.splits)

lemma keeps_basic: "keeps P (return_st x)" "keeps P (raise_st e)" "(\<And>s. P s \<Longrightarrow> P (f s)) \<Longrightarrow> keeps P (modify_st f)"
  by (simp_all add: keeps_def st_defs)

fun fold_res :: "('a \<Rightarrow> 's \<Rightarrow> 'e + 's) \<Rightarrow> 'a list \<Rightarrow> 's \<Rightarrow> 'e + 's" where
  "fold_res f [] s = Inr s"
| "fold_res f (x # xs) s = and_then (f x s) (fold_res f xs)"

lemma fold_res_append:
  "fold_res f (xs @ ys) s = and_then (fold_res f xs s) (fold_res f ys)"
  by (induction xs arbitrary: s) (auto simp: and_then_def split: sum.splits)

text \<open>
  The exceptions of the kernel, one constructor per \<^verbatim>\<open>raise\<close> site of the source (with the values its
  message carries) and one per exception the SQLite driver raises at a call of the source.
  \<open>Unmodelled\<close> marks an input on which the code does something the row types of the model cannot
  hold (a NULL primary key, a text in a REAL column); no theorem claims anything about it.
\<close>

datatype kernel_error =
    UnknownEntity pystr
  | UnknownFromState pystr pystr
  | UnknownTargetKind pystr
  | TargetPairMismatch
  | OrphanEvent pystr pystr
  | ClaimNotFound pystr
  | ForeignClaim pystr
  | TransitionNotAllowed pystr pystr
  | ConcurrentChange pystr
  | NotPending pystr pystr
  | InvalidClaimState pystr
  | ReservedNamespace pystr
  | InvalidReaffirmKind pystr
  | ForeignKeyError
  | UniqueError
  | IndexError
  | KeyError pystr
  | AttributeError
  | InterfaceError
  | ValueError pystr
  | RuntimeError pystr
  | TypeError
  | OverflowError
  | Unmodelled

section \<open>JSON values\<close>

text \<open>
  What \<^verbatim>\<open>json.loads\<close> returns. A text column that holds JSON is a \<open>jtext\<close>: the value it parses to,
  the empty string, or a text \<^verbatim>\<open>json.loads\<close> rejects. \<^verbatim>\<open>json.dumps(..., sort_keys=True)\<close> writes the keys
  of an object in order.
\<close>

datatype json = JNull | JBool bool | JInt int | JNum rat | JStr pystr | JList "json list" | JObj "(pystr \<times> json) list"

datatype jtext = JText json | JEmpty | JBad

definition dumps_sorted :: "(pystr \<times> json) list \<Rightarrow> jtext" where
  "dumps_sorted kvs = JText (JObj (sort_key fst kvs))"

definition jopt :: "pystr option \<Rightarrow> json" where
  "jopt x = (case x of None \<Rightarrow> JNull | Some s \<Rightarrow> JStr s)"

lemma map_of_sort_key:
  assumes "distinct (map fst kvs)"
  shows "map_of (sort_key fst kvs) = map_of (kvs :: ('k::linorder \<times> 'v) list)"
proof (rule map_of_eqI)
  show "set (map fst (sort_key fst kvs)) = set (map fst kvs)" by simp
  have d: "distinct (map fst (sort_key fst kvs))"
    using assms by (simp add: distinct_map)
  show "\<forall>k \<in> set (map fst (sort_key fst kvs)). map_of (sort_key fst kvs) k = map_of kvs k"
    using assms d by (auto simp: map_of_eq_Some_iff map_of_is_SomeI)
qed

section \<open>Tables\<close>

text \<open>
  \<^verbatim>\<open>INSERT OR IGNORE\<close> into a table with a primary key and one UNIQUE index: a row that collides with
  a stored row on either is dropped without an error. A client that inserts and then selects by
  the UNIQUE key gets the row that is stored.
\<close>

definition insert_or_ignore :: "('r \<Rightarrow> 'p) \<Rightarrow> ('r \<Rightarrow> 'k) \<Rightarrow> 'r \<Rightarrow> 'r list \<Rightarrow> 'r list" where
  "insert_or_ignore pk key r rs =
     (if list_ex (\<lambda>x. pk x = pk r \<or> key x = key r) rs then rs else rs @ [r])"

lemma find_append: "List.find P (xs @ ys) = (case List.find P xs of None \<Rightarrow> List.find P ys | Some x \<Rightarrow> Some x)"
  by (induction xs) auto

lemma find_None: "List.find P xs = None \<longleftrightarrow> (\<forall>x \<in> set xs. \<not> P x)"
  by (induction xs) auto

lemma find_SomeD: "List.find P xs = Some x \<Longrightarrow> x \<in> set xs \<and> P x"
  by (induction xs) (auto split: if_splits)

locale dedup_table =
  fixes pk :: "'r \<Rightarrow> 'p" and key :: "'r \<Rightarrow> 'k" and ins :: "'r \<Rightarrow> 'r list \<Rightarrow> 'r list"
  assumes ins_conflict: "x \<in> set rs \<Longrightarrow> pk x = pk r \<or> key x = key r \<Longrightarrow> ins r rs = rs"
    and ins_fresh: "(\<And>x. x \<in> set rs \<Longrightarrow> pk x \<noteq> pk r \<and> key x \<noteq> key r) \<Longrightarrow> ins r rs = rs @ [r]"
begin

lemma ins_cases:
  obtains (dup) x where "x \<in> set rs" "pk x = pk r \<or> key x = key r" "ins r rs = rs"
  | (new) "\<And>x. x \<in> set rs \<Longrightarrow> pk x \<noteq> pk r \<and> key x \<noteq> key r" "ins r rs = rs @ [r]"
  using ins_conflict ins_fresh by metis

lemma ins_idem: "ins r (ins r rs) = ins r rs"
  by (rule ins_cases [of rs r]) (auto intro: ins_conflict)

lemma ins_keeps: "set rs \<subseteq> set (ins r rs)"
  by (rule ins_cases [of rs r]) auto

lemma ins_bound: "set (ins r rs) \<subseteq> insert r (set rs)"
  by (rule ins_cases [of rs r]) auto

lemma ins_distinct_pk: "distinct (map pk rs) \<Longrightarrow> distinct (map pk (ins r rs))"
  by (rule ins_cases [of rs r]) (auto simp: image_iff, metis)

lemma ins_distinct_key: "distinct (map key rs) \<Longrightarrow> distinct (map key (ins r rs))"
  by (rule ins_cases [of rs r]) (auto simp: image_iff, metis)

text \<open>The re-select after an insert whose primary key is fresh.\<close>

lemma find_ins:
  assumes "pk r \<notin> pk ` set rs"
  shows "List.find (\<lambda>x. key x = key r) (ins r rs) =
    (case List.find (\<lambda>x. key x = key r) rs of None \<Rightarrow> Some r | Some x \<Rightarrow> Some x)"
proof (rule ins_cases [of rs r])
  fix x
  assume x: "x \<in> set rs" "pk x = pk r \<or> key x = key r" and eq: "ins r rs = rs"
  with assms have "key x = key r" by (metis image_eqI)
  with x(1) have "List.find (\<lambda>x. key x = key r) rs \<noteq> None"
    unfolding find_None by blast
  with eq show ?thesis by auto
next
  assume "\<And>x. x \<in> set rs \<Longrightarrow> pk x \<noteq> pk r \<and> key x \<noteq> key r" "ins r rs = rs @ [r]"
  then show ?thesis by (simp add: find_append split: option.splits)
qed

end

interpretation ignore: dedup_table pk key "insert_or_ignore pk key" for pk key
  by unfold_locales (auto simp: insert_or_ignore_def list_ex_iff)

text \<open>
  \<^verbatim>\<open>INSERT ... ON CONFLICT(key) DO UPDATE\<close>: the stored row of the key, if any, is merged with the new
  one in place; otherwise the new row is appended.
\<close>

definition upsert :: "('r \<Rightarrow> 'k) \<Rightarrow> ('r \<Rightarrow> 'r \<Rightarrow> 'r) \<Rightarrow> 'r \<Rightarrow> 'r list \<Rightarrow> 'r list" where
  "upsert key merge r rs =
     (if list_ex (\<lambda>x. key x = key r) rs then map (\<lambda>x. if key x = key r then merge x r else x) rs else rs @ [r])"

locale upsert_table =
  fixes key :: "'r \<Rightarrow> 'k" and merge :: "'r \<Rightarrow> 'r \<Rightarrow> 'r" and ups :: "'r \<Rightarrow> 'r list \<Rightarrow> 'r list"
  assumes merge_key: "key x = key r \<Longrightarrow> key (merge x r) = key r"
    and ups_stored: "x \<in> set rs \<Longrightarrow> key x = key r \<Longrightarrow>
      ups r rs = map (\<lambda>x. if key x = key r then merge x r else x) rs"
    and ups_new: "key r \<notin> key ` set rs \<Longrightarrow> ups r rs = rs @ [r]"
begin

definition get :: "'k \<Rightarrow> 'r list \<Rightarrow> 'r option" where
  "get k rs = List.find (\<lambda>x. key x = k) rs"

lemma get_None: "get k rs = None \<longleftrightarrow> k \<notin> key ` set rs"
  by (auto simp: get_def find_None)

lemma get_map: "(\<And>x. key (f x) = key x) \<Longrightarrow> get k (map f rs) = map_option f (get k rs)"
  by (induction rs) (auto simp: get_def)

lemma ups_map:
  assumes "key r \<in> key ` set rs"
  shows "ups r rs = map (\<lambda>x. if key x = key r then merge x r else x) rs"
proof -
  obtain x where "x \<in> set rs" "key x = key r" using assms by (metis imageE)
  then show ?thesis by (rule ups_stored)
qed

lemma get_ups_same:
  "get (key r) (ups r rs) = Some (case get (key r) rs of None \<Rightarrow> r | Some x \<Rightarrow> merge x r)"
proof (cases "get (key r) rs")
  case None
  then have "ups r rs = rs @ [r]" by (intro ups_new) (simp add: get_None)
  with None show ?thesis by (simp add: get_def find_append)
next
  case (Some x)
  then have "key r \<in> key ` set rs" using get_None [of "key r" rs] by force
  then have "get (key r) (ups r rs) = map_option (\<lambda>x. if key x = key r then merge x r else x) (get (key r) rs)"
    unfolding ups_map [OF \<open>key r \<in> key ` set rs\<close>] by (intro get_map) (simp add: merge_key)
  moreover have "key x = key r" using Some find_SomeD unfolding get_def by fastforce
  ultimately show ?thesis using Some by simp
qed

lemma get_ups_other:
  assumes "k \<noteq> key r"
  shows "get k (ups r rs) = get k rs"
proof (cases "key r \<in> key ` set rs")
  case True
  have "get k (map (\<lambda>x. if key x = key r then merge x r else x) rs) =
    map_option (\<lambda>x. if key x = key r then merge x r else x) (get k rs)"
    by (rule get_map) (simp add: merge_key)
  moreover have "key x = k" if "get k rs = Some x" for x
    using that find_SomeD unfolding get_def by fastforce
  ultimately show ?thesis using assms ups_map [OF True] by (cases "get k rs") auto
next
  case False
  then show ?thesis using assms by (simp add: ups_new get_def find_append split: option.split)
qed

lemma ups_distinct: "distinct (map key rs) \<Longrightarrow> distinct (map key (ups r rs))"
proof (cases "key r \<in> key ` set rs")
  case True
  have "map key (map (\<lambda>x. if key x = key r then merge x r else x) rs) = map key rs"
    by (simp add: merge_key)
  then show "distinct (map key rs) \<Longrightarrow> ?thesis" unfolding ups_map [OF True] by (simp only:)
qed (simp add: ups_new)

end

lemma upsert_laws:
  assumes "\<And>x r. key x = key r \<Longrightarrow> key (merge x r) = key r"
  shows "upsert_table key merge (upsert key merge)"
  using assms by unfold_locales (auto simp: upsert_def list_ex_iff image_iff)

section \<open>Sliding windows\<close>

text \<open>
  Two components keep a deque of time-stamped samples and evict from the left while the oldest
  sample is before the cut-off. \<open>evict_loop\<close> is that loop; its laws are the interface the
  components rely on.
\<close>

fun evict_loop :: "'t::linorder \<Rightarrow> ('t \<times> 'v) list \<Rightarrow> ('t \<times> 'v) list" where
  "evict_loop cutoff [] = []"
| "evict_loop cutoff (x # xs) = (if fst x < cutoff then evict_loop cutoff xs else x # xs)"

locale sliding_window =
  fixes evict :: "'t::linorder \<Rightarrow> ('t \<times> 'v) list \<Rightarrow> ('t \<times> 'v) list"
  assumes evict_suffix: "\<exists>ys. xs = ys @ evict c xs \<and> (\<forall>y \<in> set ys. fst y < c)"
    and evict_head: "evict c xs = y # ys \<Longrightarrow> c \<le> fst y"
begin

lemma evict_subset: "set (evict c xs) \<subseteq> set xs"
  using evict_suffix [of xs c] by (metis Un_upper2 set_append)

lemma evict_length: "length (evict c xs) \<le> length xs"
  using evict_suffix [of xs c] by (metis le_add2 length_append)

lemma evict_sorted: "sorted (map fst xs) \<Longrightarrow> sorted (map fst (evict c xs))"
  using evict_suffix [of xs c] by (metis map_append sorted_append)

text \<open>On a deque in time order the loop keeps exactly the samples of the window.\<close>

lemma evict_window:
  assumes "sorted (map fst xs)"
  shows "evict c xs = filter (\<lambda>x. c \<le> fst x) xs"
proof -
  obtain ys where ys: "xs = ys @ evict c xs" "\<forall>y \<in> set ys. fst y < c"
    using evict_suffix by blast
  have "\<forall>x \<in> set (evict c xs). c \<le> fst x"
  proof (cases "evict c xs")
    case (Cons z zs)
    then have "c \<le> fst z" by (rule evict_head)
    moreover have "sorted (map fst (z # zs))"
      using evict_sorted [OF assms, of c] Cons by simp
    ultimately show ?thesis using Cons by auto
  qed simp
  then have "filter (\<lambda>x. c \<le> fst x) (evict c xs) = evict c xs"
    by (simp add: filter_id_conv)
  moreover have "filter (\<lambda>x. c \<le> fst x) ys = []"
    using ys(2) by (auto simp: filter_empty_conv)
  ultimately show ?thesis
    using arg_cong [OF ys(1), of "filter (\<lambda>x. c \<le> fst x)"] by simp
qed

end

lemma evict_loop_suffix: "\<exists>ys. xs = ys @ evict_loop c xs \<and> (\<forall>y \<in> set ys. fst y < c)"
proof (induction xs)
  case (Cons x xs)
  then obtain ys where ys: "xs = ys @ evict_loop c xs" "\<forall>y \<in> set ys. fst y < c" by blast
  show ?case
  proof (cases "fst x < c")
    case True
    with ys show ?thesis by (intro exI [of _ "x # ys"]) auto
  qed auto
qed simp

lemma evict_loop_head: "evict_loop c xs = y # ys \<Longrightarrow> c \<le> fst y"
  by (induction xs) (auto split: if_splits)

end
