(* ===== verification/Store.thy ===== *)
theory Store
  imports Prelude
begin

text \<open>
  \<^verbatim>\<open>parallax/sqlite_store.py\<close> and \<^verbatim>\<open>parallax/validators.py\<close>: the row types, the canonical tables and
  the only writers of them. A table is the list of its rows in insertion order; the schema is the
  one after the latest migration (\<^verbatim>\<open>UNIQUE(content_hash, user_id)\<close> on memories,
  \<^verbatim>\<open>UNIQUE(content_hash, source_id, user_id)\<close> on claims, foreign keys on). A \<^verbatim>\<open>confidence\<close> is an exact
  rational.
\<close>

record source_row =
  src_id :: pystr
  src_uri :: pystr
  src_kind :: pystr
  src_content_hash :: pystr
  src_user_id :: pystr
  src_ingested_at :: pystr
  src_state :: pystr

record memory_row =
  mem_id :: pystr
  mem_user_id :: pystr
  mem_source_id :: "pystr option"
  mem_vault_path :: pystr
  mem_title :: "pystr option"
  mem_summary :: "pystr option"
  mem_content_hash :: pystr
  mem_state :: pystr
  mem_created_at :: pystr
  mem_updated_at :: pystr

record claim_row =
  clm_id :: pystr
  clm_user_id :: pystr
  clm_subject :: pystr
  clm_predicate :: pystr
  clm_object :: pystr
  clm_source_id :: pystr
  clm_content_hash :: pystr
  clm_confidence :: "rat option"
  clm_state :: pystr
  clm_created_at :: pystr
  clm_updated_at :: pystr

record event_row =
  evt_id :: pystr
  evt_user_id :: pystr
  evt_actor :: pystr
  evt_type :: pystr
  evt_target_kind :: "pystr option"
  evt_target_id :: "pystr option"
  evt_payload_json :: jtext
  evt_approval_tier :: "pystr option"
  evt_created_at :: pystr
  evt_session_id :: "pystr option"

record decision_row =
  dec_id :: pystr
  dec_user_id :: pystr
  dec_target_kind :: pystr
  dec_target_id :: pystr
  dec_action :: pystr
  dec_actor :: pystr
  dec_approval_tier :: "pystr option"
  dec_state :: pystr
  dec_rationale :: "pystr option"
  dec_created_at :: pystr

record index_row =
  idx_name :: pystr
  idx_version :: int
  idx_last_built_at :: pystr
  idx_source_watermark :: "pystr option"
  idx_doc_count :: int
  idx_state :: pystr
  idx_error_text :: "pystr option"

record db =
  sources :: "source_row list"
  memories :: "memory_row list"
  claims :: "claim_row list"
  decisions :: "decision_row list"
  events :: "event_row list"
  index_state :: "index_row list"

definition empty_db :: db where
  "empty_db = \<lparr>sources = [], memories = [], claims = [], decisions = [], events = [], index_state = []\<rparr>"

section \<open>Writers\<close>

definition source_ins :: "source_row \<Rightarrow> source_row list \<Rightarrow> source_row list" where
  "source_ins = insert_or_ignore src_id src_id"

definition memory_key :: "memory_row \<Rightarrow> pystr \<times> pystr" where
  "memory_key m = (mem_content_hash m, mem_user_id m)"

definition memory_ins :: "memory_row \<Rightarrow> memory_row list \<Rightarrow> memory_row list" where
  "memory_ins = insert_or_ignore mem_id memory_key"

definition claim_key :: "claim_row \<Rightarrow> pystr \<times> pystr \<times> pystr" where
  "claim_key c = (clm_content_hash c, clm_source_id c, clm_user_id c)"

definition claim_ins :: "claim_row \<Rightarrow> claim_row list \<Rightarrow> claim_row list" where
  "claim_ins = insert_or_ignore clm_id claim_key"

definition source_exists :: "pystr \<Rightarrow> db \<Rightarrow> bool" where
  "source_exists sid d = list_ex (\<lambda>s. src_id s = sid) (sources d)"

definition insert_source :: "source_row \<Rightarrow> db \<Rightarrow> kernel_error + db" where
  "insert_source s d = Inr (d\<lparr>sources := source_ins s (sources d)\<rparr>)"

text \<open>\<^verbatim>\<open>OR IGNORE\<close> does not cover foreign keys: a row that is not a duplicate and names a missing
  source raises.\<close>

definition insert_memory :: "memory_row \<Rightarrow> db \<Rightarrow> kernel_error + db" where
  "insert_memory m d =
    (let rows = memory_ins m (memories d) in
     if rows = memories d \<or> (case mem_source_id m of None \<Rightarrow> True | Some sid \<Rightarrow> source_exists sid d)
     then Inr (d\<lparr>memories := rows\<rparr>) else Inl ForeignKeyError)"

definition insert_claim :: "claim_row \<Rightarrow> db \<Rightarrow> kernel_error + db" where
  "insert_claim c d =
    (let rows = claim_ins c (claims d) in
     if rows = claims d \<or> source_exists (clm_source_id c) d
     then Inr (d\<lparr>claims := rows\<rparr>) else Inl ForeignKeyError)"

definition insert_event :: "event_row \<Rightarrow> db \<Rightarrow> kernel_error + db" where
  "insert_event e d =
    (if list_ex (\<lambda>x. evt_id x = evt_id e) (events d) then Inl UniqueError
     else Inr (d\<lparr>events := events d @ [e]\<rparr>))"

section \<open>Reference validation\<close>

definition VALID_TARGET_KINDS :: "pystr list" where
  "VALID_TARGET_KINDS = [''memory'', ''claim'', ''source'', ''decision'']"

definition owned_by :: "pystr option \<Rightarrow> pystr \<Rightarrow> bool" where
  "owned_by user_id owner = (case user_id of None \<Rightarrow> True | Some u \<Rightarrow> owner = u)"

definition target_ref_exists :: "db \<Rightarrow> pystr \<Rightarrow> pystr \<Rightarrow> pystr option \<Rightarrow> kernel_error + bool" where
  "target_ref_exists d kind tid user_id =
    (if kind = ''memory'' then Inr (list_ex (\<lambda>m. mem_id m = tid \<and> owned_by user_id (mem_user_id m)) (memories d))
     else if kind = ''claim'' then Inr (list_ex (\<lambda>c. clm_id c = tid \<and> owned_by user_id (clm_user_id c)) (claims d))
     else if kind = ''source'' then Inr (list_ex (\<lambda>s. src_id s = tid \<and> owned_by user_id (src_user_id s)) (sources d))
     else if kind = ''decision'' then Inr (list_ex (\<lambda>x. dec_id x = tid \<and> owned_by user_id (dec_user_id x)) (decisions d))
     else Inl (UnknownTargetKind kind))"

section \<open>Laws of the tables\<close>

interpretation src: dedup_table src_id src_id source_ins
  unfolding source_ins_def by (rule ignore.dedup_table_axioms)

interpretation mem: dedup_table mem_id memory_key memory_ins
  unfolding memory_ins_def by (rule ignore.dedup_table_axioms)

interpretation clm: dedup_table clm_id claim_key claim_ins
  unfolding claim_ins_def by (rule ignore.dedup_table_axioms)

text \<open>Integrity of the canonical tables: keys are unique and every reference has its source.\<close>

definition refs_ok :: "db \<Rightarrow> bool" where
  "refs_ok d \<longleftrightarrow>
     list_all (\<lambda>m. case mem_source_id m of None \<Rightarrow> True | Some s \<Rightarrow> source_exists s d) (memories d) \<and>
     list_all (\<lambda>c. source_exists (clm_source_id c) d) (claims d)"

definition db_ok :: "db \<Rightarrow> bool" where
  "db_ok d \<longleftrightarrow> distinct (map src_id (sources d)) \<and>
     distinct (map mem_id (memories d)) \<and> distinct (map memory_key (memories d)) \<and>
     distinct (map clm_id (claims d)) \<and> distinct (map claim_key (claims d)) \<and>
     distinct (map evt_id (events d)) \<and> refs_ok d"

lemma db_ok_empty: "db_ok empty_db"
  by (simp add: db_ok_def refs_ok_def empty_db_def)

lemma source_exists_set: "source_exists sid d \<longleftrightarrow> sid \<in> src_id ` set (sources d)"
  by (auto simp: source_exists_def list_ex_iff)

lemma source_exists_frame [simp]:
  "source_exists sid (d\<lparr>memories := ms\<rparr>) = source_exists sid d"
  "source_exists sid (d\<lparr>claims := cs\<rparr>) = source_exists sid d"
  "source_exists sid (d\<lparr>events := es\<rparr>) = source_exists sid d"
  by (simp_all add: source_exists_def)

lemma refs_ok_set: "refs_ok d \<longleftrightarrow>
    (\<forall>m \<in> set (memories d). \<forall>s. mem_source_id m = Some s \<longrightarrow> s \<in> src_id ` set (sources d)) \<and>
    (\<forall>c \<in> set (claims d). clm_source_id c \<in> src_id ` set (sources d))"
  by (auto simp: refs_ok_def list_all_iff source_exists_set split: option.splits)

lemma insert_source_eq: "insert_source s d = Inr d' \<longleftrightarrow> d' = d\<lparr>sources := source_ins s (sources d)\<rparr>"
  by (auto simp: insert_source_def)

lemma insert_source_ids: "src_id ` set (sources d) \<subseteq> src_id ` set (source_ins s (sources d))"
  by (intro image_mono src.ins_keeps)

lemma insert_source_ok: "insert_source s d = Inr d' \<Longrightarrow> db_ok d \<Longrightarrow> db_ok d'"
  using insert_source_ids [of d s] src.ins_distinct_pk [of "sources d" s]
  by (auto simp: insert_source_eq db_ok_def refs_ok_set)

lemma insert_memory_cases:
  assumes "insert_memory m d = Inr d'"
  obtains "d' = d" "\<exists>x \<in> set (memories d). mem_id x = mem_id m \<or> memory_key x = memory_key m"
  | "d' = d\<lparr>memories := memories d @ [m]\<rparr>"
    "\<And>x. x \<in> set (memories d) \<Longrightarrow> mem_id x \<noteq> mem_id m \<and> memory_key x \<noteq> memory_key m"
    "\<And>s. mem_source_id m = Some s \<Longrightarrow> source_exists s d"
proof (rule mem.ins_cases [of "memories d" m])
  fix x
  assume x: "x \<in> set (memories d)" "mem_id x = mem_id m \<or> memory_key x = memory_key m"
    and "memory_ins m (memories d) = memories d"
  with assms have "d' = d" by (simp add: insert_memory_def)
  with x show ?thesis using that(1) by blast
next
  assume new: "\<And>x. x \<in> set (memories d) \<Longrightarrow> mem_id x \<noteq> mem_id m \<and> memory_key x \<noteq> memory_key m"
    and eq: "memory_ins m (memories d) = memories d @ [m]"
  from assms have "d' = d\<lparr>memories := memories d @ [m]\<rparr>"
    and fk: "case mem_source_id m of None \<Rightarrow> True | Some sid \<Rightarrow> source_exists sid d"
    by (auto simp: insert_memory_def eq split: if_splits)
  then show ?thesis using new that(2) by (cases "mem_source_id m") auto
qed

lemma insert_claim_cases:
  assumes "insert_claim c d = Inr d'"
  obtains "d' = d" "\<exists>x \<in> set (claims d). clm_id x = clm_id c \<or> claim_key x = claim_key c"
  | "d' = d\<lparr>claims := claims d @ [c]\<rparr>"
    "\<And>x. x \<in> set (claims d) \<Longrightarrow> clm_id x \<noteq> clm_id c \<and> claim_key x \<noteq> claim_key c"
    "source_exists (clm_source_id c) d"
proof (rule clm.ins_cases [of "claims d" c])
  fix x
  assume x: "x \<in> set (claims d)" "clm_id x = clm_id c \<or> claim_key x = claim_key c"
    and "claim_ins c (claims d) = claims d"
  with assms have "d' = d" by (simp add: insert_claim_def)
  with x show ?thesis using that(1) by blast
next
  assume new: "\<And>x. x \<in> set (claims d) \<Longrightarrow> clm_id x \<noteq> clm_id c \<and> claim_key x \<noteq> claim_key c"
    and eq: "claim_ins c (claims d) = claims d @ [c]"
  from assms have "d' = d\<lparr>claims := claims d @ [c]\<rparr>" and "source_exists (clm_source_id c) d"
    by (auto simp: insert_claim_def eq split: if_splits)
  then show ?thesis using new that(2) by auto
qed

lemma insert_memory_ok: "insert_memory m d = Inr d' \<Longrightarrow> db_ok d \<Longrightarrow> db_ok d'"
  by (erule insert_memory_cases) (force simp: db_ok_def refs_ok_set source_exists_set)+

lemma insert_claim_ok: "insert_claim c d = Inr d' \<Longrightarrow> db_ok d \<Longrightarrow> db_ok d'"
  by (erule insert_claim_cases) (force simp: db_ok_def refs_ok_set source_exists_set)+

lemma insert_event_cases:
  assumes "insert_event e d = Inr d'"
  shows "d' = d\<lparr>events := events d @ [e]\<rparr>" "evt_id e \<notin> evt_id ` set (events d)"
  using assms by (auto simp: insert_event_def list_ex_iff split: if_splits)

lemma insert_event_ok: "insert_event e d = Inr d' \<Longrightarrow> db_ok d \<Longrightarrow> db_ok d'"
  using insert_event_cases [of e d d'] by (auto simp: db_ok_def refs_ok_set)

lemma insert_source_exists:
  assumes "insert_source s d = Inr d'"
  shows "source_exists (src_id s) d'"
proof -
  have "src_id s \<in> src_id ` set (source_ins s (sources d))"
  proof (rule src.ins_cases [of "sources d" s])
    fix x
    assume "x \<in> set (sources d)" "src_id x = src_id s \<or> src_id x = src_id s"
      and "source_ins s (sources d) = sources d"
    then show ?thesis by (metis image_eqI)
  qed auto
  with assms show ?thesis by (simp add: insert_source_eq source_exists_set)
qed

lemma insert_source_frame:
  assumes "insert_source s d = Inr d'"
  shows "memories d' = memories d" "claims d' = claims d" "events d' = events d"
    "decisions d' = decisions d" "index_state d' = index_state d"
    "src_id ` set (sources d) \<subseteq> src_id ` set (sources d')"
  using assms insert_source_ids [of d s] by (auto simp: insert_source_eq)

lemma target_ref_claim: "target_ref_exists d ''claim'' tid u =
   Inr (\<exists>c \<in> set (claims d). clm_id c = tid \<and> owned_by u (clm_user_id c))"
  by (auto simp: target_ref_exists_def list_ex_iff)

lemma target_ref_memory: "target_ref_exists d ''memory'' tid u =
   Inr (\<exists>m \<in> set (memories d). mem_id m = tid \<and> owned_by u (mem_user_id m))"
  by (auto simp: target_ref_exists_def list_ex_iff)

end
