(* ===== verification/Transitions.thy ===== *)
theory Transitions
  imports Prelude
begin

text \<open>
  \<^verbatim>\<open>parallax/transitions.py\<close>: the lifecycle tables of the four entities and the check every writer of
  a \<^verbatim>\<open>state\<close> column makes. A dict of frozensets is an association list of lists.
\<close>

type_synonym transition_table = "(pystr \<times> pystr list) list"

definition MEMORY_TRANSITIONS :: transition_table where
  "MEMORY_TRANSITIONS =
    [(''draft'', [''draft'', ''active'', ''archived'']),
     (''active'', [''active'', ''archived'']),
     (''archived'', [])]"

definition CLAIM_TRANSITIONS :: transition_table where
  "CLAIM_TRANSITIONS =
    [(''auto'', [''auto'', ''pending'', ''confirmed'', ''rejected'']),
     (''pending'', [''pending'', ''confirmed'', ''rejected'']),
     (''confirmed'', [''confirmed'', ''rejected'']),
     (''rejected'', [])]"

definition SOURCE_TRANSITIONS :: transition_table where
  "SOURCE_TRANSITIONS =
    [(''ingested'', [''ingested'', ''parsed'', ''archived'']),
     (''parsed'', [''parsed'', ''archived'']),
     (''archived'', [])]"

definition DECISION_TRANSITIONS :: transition_table where
  "DECISION_TRANSITIONS =
    [(''proposed'', [''proposed'', ''approved'', ''revoked'']),
     (''approved'', [''approved'', ''applied'', ''revoked'']),
     (''applied'', [''applied'', ''revoked'']),
     (''revoked'', [])]"

definition MATRIX :: "(pystr \<times> transition_table) list" where
  "MATRIX = [(''memory'', MEMORY_TRANSITIONS), (''claim'', CLAIM_TRANSITIONS),
             (''source'', SOURCE_TRANSITIONS), (''decision'', DECISION_TRANSITIONS)]"

definition is_allowed_transition :: "pystr \<Rightarrow> pystr \<Rightarrow> pystr \<Rightarrow> kernel_error + bool" where
  "is_allowed_transition entity from_state to_state =
    (case map_of MATRIX entity of
       None \<Rightarrow> Inl (UnknownEntity entity)
     | Some matrix \<Rightarrow>
         (case map_of matrix from_state of
            None \<Rightarrow> Inl (UnknownFromState entity from_state)
          | Some nexts \<Rightarrow> Inr (List.member nexts to_state)))"

lemmas transition_tables = MATRIX_def MEMORY_TRANSITIONS_def CLAIM_TRANSITIONS_def
  SOURCE_TRANSITIONS_def DECISION_TRANSITIONS_def

definition entity_states :: "pystr \<Rightarrow> pystr list" where
  "entity_states entity = (case map_of MATRIX entity of None \<Rightarrow> [] | Some t \<Rightarrow> map fst t)"

text \<open>The position of a state in its table: every move that is not a self-loop goes down the table.\<close>

fun index_in :: "'a list \<Rightarrow> 'a \<Rightarrow> nat" where
  "index_in [] x = 0"
| "index_in (y # ys) x = (if x = y then 0 else Suc (index_in ys x))"

definition table_ok :: "transition_table \<Rightarrow> bool" where
  "table_ok t \<longleftrightarrow> list_all (\<lambda>(s, nexts). list_all (\<lambda>n. List.member (map fst t) n \<and>
      (n = s \<or> index_in (map fst t) s < index_in (map fst t) n)) nexts) t"

lemma tables_ok: "list_all (\<lambda>(e, t). table_ok t) MATRIX"
  by code_simp

text \<open>An allowed move of any entity goes to a registered state of that entity and is a
  self-loop or goes strictly down its table, so no lifecycle ever returns to a state it left.\<close>

theorem allowed_transition_progress:
  assumes "is_allowed_transition entity s n = Inr True"
  shows "n \<in> set (entity_states entity) \<and>
    (n = s \<or> index_in (entity_states entity) s < index_in (entity_states entity) n)"
proof -
  from assms obtain t nexts where t: "map_of MATRIX entity = Some t"
    and nx: "map_of t s = Some nexts" and n: "n \<in> set nexts"
    by (auto simp: is_allowed_transition_def split: option.splits)
  from t have "(entity, t) \<in> set MATRIX" by (rule map_of_SomeD)
  then have "table_ok t" using tables_ok by (auto simp: list_all_iff)
  moreover from nx have "(s, nexts) \<in> set t" by (rule map_of_SomeD)
  ultimately show ?thesis
    using n t by (fastforce simp: table_ok_def list_all_iff entity_states_def)
qed

theorem allowed_transition_progress_witness:
  "''confirmed'' \<in> set (entity_states ''claim'') \<and>
   (''confirmed'' = ''pending'' \<or>
    index_in (entity_states ''claim'') ''pending'' < index_in (entity_states ''claim'') ''confirmed'')"
proof -
  have "is_allowed_transition ''claim'' ''pending'' ''confirmed'' = Inr True" by code_simp
  then show ?thesis by (rule allowed_transition_progress)
qed

text \<open>A state without outgoing moves, not even to itself.\<close>

definition terminal :: "pystr \<Rightarrow> pystr \<Rightarrow> bool" where
  "terminal entity s \<longleftrightarrow> List.member (entity_states entity) s \<and>
     list_all (\<lambda>n. is_allowed_transition entity s n = Inr False) (entity_states entity)"

lemma terminal_states:
  "terminal ''memory'' ''archived''" "terminal ''claim'' ''rejected''"
  "terminal ''source'' ''archived''" "terminal ''decision'' ''revoked''"
  by code_simp+

lemma claim_pending_moves:
  "is_allowed_transition ''claim'' ''pending'' n =
   Inr (n = ''pending'' \<or> n = ''confirmed'' \<or> n = ''rejected'')"
  by (simp add: is_allowed_transition_def transition_tables)

lemma claim_allowed_nonempty: "is_allowed_transition ''claim'' s n = Inr True \<Longrightarrow> n \<noteq> []"
  by (auto simp: is_allowed_transition_def transition_tables split: if_splits)

end
