(* ===== verification/Events.thy ===== *)
theory Events
  imports Store Transitions
begin

text \<open>
  \<^verbatim>\<open>parallax/events/__init__.py\<close>: the append-only event log and the one operation that changes a
  claim's state together with its audit row. The clock readings and the ULID a call mints are
  arguments.
\<close>

definition check_target :: "pystr \<Rightarrow> pystr option \<Rightarrow> pystr option \<Rightarrow> db \<Rightarrow> kernel_error + unit" where
  "check_target user_id target_kind target_id d =
    (case (target_kind, target_id) of
       (Some k, Some t) \<Rightarrow>
         if t \<noteq> [] \<and> List.member VALID_TARGET_KINDS k then
           and_then (target_ref_exists d k t (Some user_id))
             (\<lambda>found. if found then Inr () else Inl (OrphanEvent k t))
         else Inr ()
     | _ \<Rightarrow> Inr ())"

definition dumps_payload :: "(pystr \<times> json) list option \<Rightarrow> jtext" where
  "dumps_payload payload = dumps_sorted (case payload of None \<Rightarrow> [] | Some kvs \<Rightarrow> kvs)"

definition record_event ::
  "pystr \<Rightarrow> pystr \<Rightarrow> pystr \<Rightarrow> pystr \<Rightarrow> pystr \<Rightarrow> pystr option \<Rightarrow> pystr option \<Rightarrow> (pystr \<times> json) list option \<Rightarrow>
   pystr option \<Rightarrow> pystr option \<Rightarrow> db \<Rightarrow> kernel_error + pystr \<times> db" where
  "record_event now event_id user_id actor event_type target_kind target_id payload approval_tier session_id d =
    (if (target_kind = None) \<noteq> (target_id = None) then Inl TargetPairMismatch
     else and_then (check_target user_id target_kind target_id d) (\<lambda>_.
       and_then (insert_event
         \<lparr>evt_id = event_id, evt_user_id = user_id, evt_actor = actor, evt_type = event_type,
          evt_target_kind = target_kind, evt_target_id = target_id,
          evt_payload_json = dumps_payload payload, evt_approval_tier = approval_tier,
          evt_created_at = now, evt_session_id = session_id\<rparr> d)
         (\<lambda>d'. Inr (event_id, d'))))"

definition record_memory_reaffirmed :: "pystr \<Rightarrow> pystr \<Rightarrow> pystr \<Rightarrow> pystr \<Rightarrow> pystr \<Rightarrow> db \<Rightarrow> kernel_error + pystr \<times> db" where
  "record_memory_reaffirmed now event_id user_id memory_id actor =
    record_event now event_id user_id actor ''memory.reaffirmed'' (Some ''memory'') (Some memory_id)
      (Some [(''memory_id'', JStr memory_id)]) None None"

definition state_changed_payload :: "pystr \<Rightarrow> pystr \<Rightarrow> pystr option \<Rightarrow> (pystr \<times> json) list" where
  "state_changed_payload from_state to_state updated_at =
    [(''from'', JStr from_state), (''to'', JStr to_state)] @
    (case updated_at of None \<Rightarrow> [] | Some t \<Rightarrow> [(''updated_at'', JStr t)])"

definition record_claim_state_changed ::
  "pystr \<Rightarrow> pystr \<Rightarrow> pystr \<Rightarrow> pystr \<Rightarrow> pystr \<Rightarrow> pystr \<Rightarrow> pystr option \<Rightarrow> pystr \<Rightarrow> db \<Rightarrow> kernel_error + pystr \<times> db" where
  "record_claim_state_changed now event_id user_id claim_id from_state to_state updated_at actor =
    record_event now event_id user_id actor ''claim.state_changed'' (Some ''claim'') (Some claim_id)
      (Some (state_changed_payload from_state to_state updated_at)) None None"

text \<open>\<^verbatim>\<open>sqlite_store.reaffirm\<close>.\<close>

definition VALID_REAFFIRM_KINDS :: "pystr list" where
  "VALID_REAFFIRM_KINDS = [''memory'', ''claim'']"

definition reaffirm :: "pystr \<Rightarrow> pystr \<Rightarrow> pystr \<Rightarrow> pystr \<Rightarrow> pystr \<Rightarrow> pystr \<Rightarrow> db \<Rightarrow> kernel_error + pystr \<times> db" where
  "reaffirm now event_id user_id kind entity_id actor d =
    (if \<not> List.member VALID_REAFFIRM_KINDS kind then Inl (InvalidReaffirmKind kind)
     else if kind = ''memory'' then record_memory_reaffirmed now event_id user_id entity_id actor d
     else record_event now event_id user_id actor ''claim.reaffirmed'' (Some ''claim'') (Some entity_id)
            (Some [(''claim_id'', JStr entity_id)]) None None d)"

text \<open>\<^verbatim>\<open>UPDATE claims SET state = ?, updated_at = ? WHERE ...\<close>, and the cursor's row count.\<close>

definition set_claim_state :: "pystr \<Rightarrow> pystr \<Rightarrow> claim_row \<Rightarrow> claim_row" where
  "set_claim_state to_state updated_at c = c\<lparr>clm_state := to_state, clm_updated_at := updated_at\<rparr>"

definition update_claims :: "(claim_row \<Rightarrow> bool) \<Rightarrow> (claim_row \<Rightarrow> claim_row) \<Rightarrow> db \<Rightarrow> nat \<times> db" where
  "update_claims P f d =
    (length (filter P (claims d)), d\<lparr>claims := map (\<lambda>c. if P c then f c else c) (claims d)\<rparr>)"

text \<open>
  \<open>others\<close> is what other connections commit between the SELECT and the UPDATE (the SELECT does not
  lock); from the UPDATE on, this connection holds the write lock until it commits or rolls back.
\<close>

definition transition_claim_state ::
  "(db \<Rightarrow> db) \<Rightarrow> pystr \<Rightarrow> pystr \<Rightarrow> pystr \<Rightarrow> pystr \<Rightarrow> pystr \<Rightarrow> pystr \<Rightarrow> pystr option \<Rightarrow> db \<Rightarrow>
   (kernel_error + pystr) \<times> db" where
  "transition_claim_state others updated_at now event_id claim_id to_state actor expected_user_id d =
    (case List.find (\<lambda>c. clm_id c = claim_id) (claims d) of
       None \<Rightarrow> (Inl (ClaimNotFound claim_id), d)
     | Some row \<Rightarrow>
         if (case expected_user_id of None \<Rightarrow> False | Some u \<Rightarrow> clm_user_id row \<noteq> u)
         then (Inl (ForeignClaim claim_id), d)
         else (case is_allowed_transition ''claim'' (clm_state row) to_state of
             Inl e \<Rightarrow> (Inl e, d)
           | Inr False \<Rightarrow> (Inl (TransitionNotAllowed (clm_state row) to_state), d)
           | Inr True \<Rightarrow>
               (let d1 = others d;
                    upd = update_claims (\<lambda>c. clm_id c = claim_id \<and> clm_state c = clm_state row)
                            (set_claim_state to_state updated_at) d1
                in if fst upd = 0 then (Inl (ConcurrentChange claim_id), d1)
                   else case record_claim_state_changed now event_id (clm_user_id row) claim_id
                               (clm_state row) to_state (Some updated_at) actor (snd upd) of
                          Inl e \<Rightarrow> (Inl e, d1)
                        | Inr (eid, d2) \<Rightarrow> (Inr eid, d2))))"

section \<open>The log is append-only and refers to rows of its own user\<close>

lemma record_event_cases:
  assumes "record_event now eid u a ty tk tid p tier sess d = Inr (r, d')"
  shows "r = eid" "d' = d\<lparr>events := events d @
      [\<lparr>evt_id = eid, evt_user_id = u, evt_actor = a, evt_type = ty, evt_target_kind = tk, evt_target_id = tid,
        evt_payload_json = dumps_payload p, evt_approval_tier = tier, evt_created_at = now, evt_session_id = sess\<rparr>]\<rparr>"
    "eid \<notin> evt_id ` set (events d)" "check_target u tk tid d = Inr ()" "(tk = None) = (tid = None)"
proof -
  let ?e = "\<lparr>evt_id = eid, evt_user_id = u, evt_actor = a, evt_type = ty, evt_target_kind = tk, evt_target_id = tid,
        evt_payload_json = dumps_payload p, evt_approval_tier = tier, evt_created_at = now, evt_session_id = sess\<rparr>"
  from assms show "(tk = None) = (tid = None)"
    by (auto simp: record_event_def split: if_splits)
  with assms have a: "and_then (check_target u tk tid d) (\<lambda>_. and_then (insert_event ?e d) (\<lambda>d'. Inr (eid, d'))) = Inr (r, d')"
    by (simp add: record_event_def)
  then have 1: "check_target u tk tid d = Inr ()"
    by (cases "check_target u tk tid d") auto
  with a obtain d2 where 2: "insert_event ?e d = Inr d2" and 3: "r = eid" "d' = d2"
    by (cases "insert_event ?e d") auto
  show "r = eid" "check_target u tk tid d = Inr ()" by fact+
  from insert_event_cases [OF 2] 3
  show "d' = d\<lparr>events := events d @ [?e]\<rparr>" "eid \<notin> evt_id ` set (events d)" by auto
qed

lemma record_event_success:
  assumes "(tk = None) = (tid = None)" "check_target u tk tid d = Inr ()" "eid \<notin> evt_id ` set (events d)"
  shows "record_event now eid u a ty tk tid p tier sess d = Inr (eid, d\<lparr>events := events d @
      [\<lparr>evt_id = eid, evt_user_id = u, evt_actor = a, evt_type = ty, evt_target_kind = tk, evt_target_id = tid,
        evt_payload_json = dumps_payload p, evt_approval_tier = tier, evt_created_at = now, evt_session_id = sess\<rparr>]\<rparr>)"
  using assms by (auto simp: record_event_def insert_event_def list_ex_iff)

lemma db_ok_events: "db_ok d \<Longrightarrow> evt_id e \<notin> evt_id ` set (events d) \<Longrightarrow> db_ok (d\<lparr>events := events d @ [e]\<rparr>)"
  by (auto simp: db_ok_def refs_ok_set)

lemma record_event_ok:
  "record_event now eid u a ty tk tid p tier sess d = Inr (r, d') \<Longrightarrow> db_ok d \<Longrightarrow> db_ok d'"
  using record_event_cases [of now eid u a ty tk tid p tier sess d r d'] by (simp add: db_ok_events)

text \<open>An event with a target of a known kind is only ever appended when the target is a
  row of the same user; the call that names another user's row or a missing one raises and leaves
  the log alone.\<close>

theorem record_event_no_orphans:
  assumes "List.member VALID_TARGET_KINDS k" "t \<noteq> []"
  shows "record_event now eid u a ty (Some k) (Some t) p tier sess d =
    (if target_ref_exists d k t (Some u) = Inr True
     then and_then (insert_event
         \<lparr>evt_id = eid, evt_user_id = u, evt_actor = a, evt_type = ty,
          evt_target_kind = Some k, evt_target_id = Some t, evt_payload_json = dumps_payload p,
          evt_approval_tier = tier, evt_created_at = now, evt_session_id = sess\<rparr> d) (\<lambda>d'. Inr (eid, d'))
     else Inl (OrphanEvent k t))"
proof -
  from assms(1) obtain b where "target_ref_exists d k t (Some u) = Inr b"
    by (auto simp: target_ref_exists_def VALID_TARGET_KINDS_def)
  with assms show ?thesis
    by (cases b) (simp_all add: record_event_def check_target_def)
qed

theorem record_event_no_orphans_witness:
  "record_event ''t'' ''e1'' ''bob'' ''system'' ''memory.reaffirmed'' (Some ''memory'') (Some ''m1'') None None None
     empty_db = Inl (OrphanEvent ''memory'' ''m1'')"
proof -
  have "List.member VALID_TARGET_KINDS ''memory''" by code_simp
  then show ?thesis
    using record_event_no_orphans [of "''memory''" "''m1''"]
    by (simp add: target_ref_exists_def empty_db_def)
qed

section \<open>State changes and their audit rows\<close>

lemma update_claims_other_id:
  assumes "distinct (map clm_id (claims d))" "row \<in> set (claims d)" "clm_id row = cid"
  shows "map (\<lambda>c. if clm_id c = cid \<and> clm_state c = clm_state row then f c else c) (claims d) =
    map (\<lambda>c. if clm_id c = cid then f c else c) (claims d)"
  using assms by (auto simp: distinct_map inj_on_def)

lemma map_update_ids:
  assumes "\<And>c. clm_id (f c) = clm_id c" "\<And>c. claim_key (f c) = claim_key c"
    "\<And>c. clm_source_id (f c) = clm_source_id c" "\<And>c. clm_user_id (f c) = clm_user_id c"
  shows "map clm_id (map (\<lambda>c. if P c then f c else c) cs) = map clm_id cs"
    "map claim_key (map (\<lambda>c. if P c then f c else c) cs) = map claim_key cs"
    "map clm_source_id (map (\<lambda>c. if P c then f c else c) cs) = map clm_source_id cs"
    "map clm_user_id (map (\<lambda>c. if P c then f c else c) cs) = map clm_user_id cs"
  using assms by (auto simp: o_def)

lemma set_claim_state_ids [simp]:
  "clm_id (set_claim_state s t c) = clm_id c" "claim_key (set_claim_state s t c) = claim_key c"
  "clm_source_id (set_claim_state s t c) = clm_source_id c" "clm_user_id (set_claim_state s t c) = clm_user_id c"
  by (simp_all add: set_claim_state_def claim_key_def)

lemma refs_ok_claims_map:
  "map clm_source_id cs = map clm_source_id (claims d) \<Longrightarrow> refs_ok d \<Longrightarrow> refs_ok (d\<lparr>claims := cs\<rparr>)"
proof -
  assume m: "map clm_source_id cs = map clm_source_id (claims d)" and r: "refs_ok d"
  from m have "clm_source_id ` set cs = clm_source_id ` set (claims d)"
    by (metis list.set_map)
  with r show ?thesis unfolding refs_ok_set by (simp, metis imageE imageI)
qed

lemma db_ok_update_claims:
  assumes "db_ok d"
  shows "db_ok (snd (update_claims P (set_claim_state s t) d))"
  using assms map_update_ids [of "set_claim_state s t" P "claims d"]
  by (simp add: update_claims_def db_ok_def refs_ok_claims_map del: map_map)

lemma transition_cases:
  assumes "transition_claim_state others upd now eid cid to actor expd d = (r, d')"
  obtains (error) e where "r = Inl e" "d' = d \<or> d' = others d"
  | (moved) row where "r = Inr eid" "row \<in> set (claims d)" "clm_id row = cid"
      "is_allowed_transition ''claim'' (clm_state row) to = Inr True"
      "\<And>u. expd = Some u \<Longrightarrow> clm_user_id row = u"
      "\<exists>c \<in> set (claims (others d)). clm_id c = cid \<and> clm_state c = clm_state row"
      "d' = (snd (update_claims (\<lambda>c. clm_id c = cid \<and> clm_state c = clm_state row) (set_claim_state to upd) (others d)))
        \<lparr>events := events (others d) @ [\<lparr>evt_id = eid, evt_user_id = clm_user_id row, evt_actor = actor,
           evt_type = ''claim.state_changed'', evt_target_kind = Some ''claim'', evt_target_id = Some cid,
           evt_payload_json = dumps_sorted (state_changed_payload (clm_state row) to (Some upd)),
           evt_approval_tier = None, evt_created_at = now, evt_session_id = None\<rparr>]\<rparr>"
      "eid \<notin> evt_id ` set (events (others d))"
proof (cases r)
  case (Inl e)
  with assms have "d' = d \<or> d' = others d"
    by (auto simp: transition_claim_state_def Let_def split: option.splits if_splits sum.splits bool.splits prod.splits)
  with Inl show ?thesis by (rule error)
next
  case (Inr x)
  with assms obtain row d2 where row: "List.find (\<lambda>c. clm_id c = cid) (claims d) = Some row"
    and u: "\<And>u. expd = Some u \<Longrightarrow> clm_user_id row = u"
    and al: "is_allowed_transition ''claim'' (clm_state row) to = Inr True"
    and n: "filter (\<lambda>c. clm_id c = cid \<and> clm_state c = clm_state row) (claims (others d)) \<noteq> []"
    and re: "record_claim_state_changed now eid (clm_user_id row) cid (clm_state row) to (Some upd) actor
       (snd (update_claims (\<lambda>c. clm_id c = cid \<and> clm_state c = clm_state row) (set_claim_state to upd) (others d)))
       = Inr (x, d2)" and d': "d' = d2"
    by (auto simp: transition_claim_state_def Let_def update_claims_def
        split: option.splits if_splits sum.splits bool.splits prod.splits)
  from re have re': "record_event now eid (clm_user_id row) actor ''claim.state_changed'' (Some ''claim'') (Some cid)
      (Some (state_changed_payload (clm_state row) to (Some upd))) None None
      (snd (update_claims (\<lambda>c. clm_id c = cid \<and> clm_state c = clm_state row) (set_claim_state to upd) (others d)))
      = Inr (x, d2)"
    by (simp add: record_claim_state_changed_def)
  note cs = record_event_cases [OF re']
  have "events (snd (update_claims P f dd)) = events dd" for P f dd
    by (simp add: update_claims_def)
  with cs have "x = eid" "eid \<notin> evt_id ` set (events (others d))" by auto
  moreover have "\<exists>c \<in> set (claims (others d)). clm_id c = cid \<and> clm_state c = clm_state row"
    using n by (auto simp: filter_empty_conv)
  ultimately show ?thesis
    using find_SomeD [OF row] u al cs(2) d' Inr by (intro moved [of row]) (auto simp: dumps_payload_def update_claims_def)
qed

text \<open>C2: the row and the log cannot drift. A transition that raises leaves the store as the
  other writers left it; one that returns moved the claim along an allowed edge from the state it
  has in the store at that moment, stamped the row, and appended exactly one event that carries
  the same two states and the same stamp.\<close>

theorem transition_claim_state_atomic:
  assumes "transition_claim_state others upd now eid cid to actor expd d = (r, d')"
    and "distinct (map clm_id (claims (others d)))"
  shows "(\<exists>e. r = Inl e) \<and> (d' = d \<or> d' = others d) \<or>
    (\<exists>from row. r = Inr eid \<and> row \<in> set (claims (others d)) \<and> clm_id row = cid \<and> clm_state row = from \<and>
       is_allowed_transition ''claim'' from to = Inr True \<and>
       claims d' = map (\<lambda>c. if clm_id c = cid then set_claim_state to upd c else c) (claims (others d)) \<and>
       (\<exists>ev. events d' = events (others d) @ [ev] \<and> evt_type ev = ''claim.state_changed'' \<and>
          evt_target_id ev = Some cid \<and>
          evt_payload_json ev = dumps_sorted (state_changed_payload from to (Some upd))))"
  using assms(1)
proof (cases rule: transition_cases)
  case (moved row)
  then obtain c where c: "c \<in> set (claims (others d))" "clm_id c = cid" "clm_state c = clm_state row" by auto
  have "claims d' = map (\<lambda>x. if clm_id x = cid then set_claim_state to upd x else x) (claims (others d))"
    using moved(7) update_claims_other_id [OF assms(2) c(1,2)] c(3) by (simp add: update_claims_def)
  with moved c show ?thesis by fastforce
qed auto

definition demo_claim :: claim_row where
  "demo_claim = \<lparr>clm_id = ''c1'', clm_user_id = ''u'', clm_subject = ''s'', clm_predicate = ''p'', clm_object = ''o'',
     clm_source_id = ''direct:u'', clm_content_hash = ''h'', clm_confidence = None, clm_state = ''pending'',
     clm_created_at = ''t0'', clm_updated_at = ''t0''\<rparr>"

theorem transition_claim_state_atomic_witness:
  "\<exists>d'. transition_claim_state id ''t1'' ''t1'' ''e1'' ''c1'' ''confirmed'' ''system'' (Some ''u'')
      (empty_db\<lparr>claims := [demo_claim]\<rparr>) = (Inr ''e1'', d') \<and>
    claims d' = [demo_claim\<lparr>clm_state := ''confirmed'', clm_updated_at := ''t1''\<rparr>]"
proof -
  let ?d = "empty_db\<lparr>claims := [demo_claim]\<rparr>"
  obtain r d' where t: "transition_claim_state id ''t1'' ''t1'' ''e1'' ''c1'' ''confirmed'' ''system'' (Some ''u'') ?d = (r, d')"
    by fastforce
  have r: "fst (transition_claim_state id ''t1'' ''t1'' ''e1'' ''c1'' ''confirmed'' ''system'' (Some ''u'') ?d) = Inr ''e1''"
    by code_simp
  have "distinct (map clm_id (claims (id ?d)))" by simp
  from transition_claim_state_atomic [OF t this] r t show ?thesis
    by (auto simp: demo_claim_def set_claim_state_def)
qed

lemma transition_ok:
  assumes "transition_claim_state others upd now eid cid to actor expd d = (r, d')" "db_ok d" "db_ok (others d)"
  shows "db_ok d'"
  using assms(1)
proof (cases rule: transition_cases)
  case (moved row)
  let ?d1 = "snd (update_claims (\<lambda>c. clm_id c = cid \<and> clm_state c = clm_state row) (set_claim_state to upd) (others d))"
  have "db_ok ?d1" using assms(3) by (rule db_ok_update_claims)
  moreover have "events ?d1 = events (others d)" by (simp add: update_claims_def)
  ultimately show ?thesis
    unfolding moved(7) using moved(8) db_ok_events [of ?d1] by simp
qed (use assms in auto)

end
