(* ===== verification/Hashing.thy ===== *)
theory Hashing
  imports Prelude
begin

text \<open>
  \<^verbatim>\<open>parallax/hashing.py\<close>: the canonical text of a row's identity and its digest. Unicode NFC and
  SHA-256 are the standard library's; they are the two functions of the record \<open>digests\<close> that every
  operation using a hash takes as an argument.
\<close>

record digests =
  nfc :: "pystr \<Rightarrow> pystr"
  sha256_hex :: "pystr \<Rightarrow> pystr"

definition SEPARATOR :: pystr where
  "SEPARATOR = ''||''"

definition NONE_SENTINEL :: pystr where
  "NONE_SENTINEL = [char_of (0::nat), char_of (0::nat)] @ ''NONE'' @ [char_of (0::nat), char_of (0::nat)]"

definition canon_part :: "digests \<Rightarrow> pystr option \<Rightarrow> pystr" where
  "canon_part h p = (case p of None \<Rightarrow> NONE_SENTINEL | Some s \<Rightarrow> strip (nfc h s))"

definition normalize :: "digests \<Rightarrow> pystr option list \<Rightarrow> pystr" where
  "normalize h parts = join SEPARATOR (map (canon_part h) parts)"

definition content_hash :: "digests \<Rightarrow> pystr option list \<Rightarrow> pystr" where
  "content_hash h parts = sha256_hex h (normalize h parts)"

section \<open>When two part lists have the same canonical text\<close>

definition bar_free :: "pystr \<Rightarrow> bool" where
  "bar_free s \<longleftrightarrow> CHR ''|'' \<notin> set s"

lemma takeWhile_bar: "bar_free x \<Longrightarrow> takeWhile (\<lambda>c. c \<noteq> CHR ''|'') (x @ SEPARATOR @ r) = x"
  by (induction x) (auto simp: bar_free_def SEPARATOR_def)

lemma takeWhile_bar_free: "bar_free x \<Longrightarrow> takeWhile (\<lambda>c. c \<noteq> CHR ''|'') x = x"
  by (induction x) (auto simp: bar_free_def)

lemma sep_not_bar_free: "\<not> bar_free (x @ SEPARATOR @ r)"
  by (simp add: bar_free_def SEPARATOR_def)

lemma bar_free_split:
  assumes "bar_free x" "bar_free y" "x @ SEPARATOR @ r = y @ SEPARATOR @ s"
  shows "x = y \<and> r = s"
proof -
  have "x = y"
    using assms takeWhile_bar [of x r] takeWhile_bar [of y s] by simp
  with assms(3) show ?thesis by simp
qed

lemma join_inj:
  assumes "xs \<noteq> []" "ys \<noteq> []" "list_all bar_free xs" "list_all bar_free ys"
    "join SEPARATOR xs = join SEPARATOR ys"
  shows "xs = ys"
  using assms
proof (induction xs arbitrary: ys)
  case (Cons x xs)
  obtain y zs where ys: "ys = y # zs" using Cons.prems(2) by (cases ys) auto
  show ?case
  proof (cases xs)
    case Nil
    with Cons.prems ys show ?thesis
      using sep_not_bar_free by (cases zs) auto
  next
    case xs: (Cons a as)
    show ?thesis
    proof (cases zs)
      case Nil
      with Cons.prems ys xs have "y = x @ SEPARATOR @ join SEPARATOR xs" and "bar_free y" by auto
      then show ?thesis using sep_not_bar_free [of x "join SEPARATOR xs"] by simp
    next
      case zs: (Cons b bs)
      have "x @ SEPARATOR @ join SEPARATOR xs = y @ SEPARATOR @ join SEPARATOR zs"
        using Cons.prems(5) unfolding ys xs zs by simp
      moreover have "bar_free x" "bar_free y" "list_all bar_free xs" "list_all bar_free zs"
        using Cons.prems(3,4) unfolding ys by auto
      ultimately have eq: "x = y" "join SEPARATOR xs = join SEPARATOR zs"
        using bar_free_split by blast+
      have "xs = zs"
        using Cons.IH [OF _ _ \<open>list_all bar_free xs\<close> \<open>list_all bar_free zs\<close> eq(2)] xs zs by simp
      with eq(1) show ?thesis using ys by simp
    qed
  qed
qed simp

definition clean_part :: "digests \<Rightarrow> pystr option \<Rightarrow> bool" where
  "clean_part h p = (case p of None \<Rightarrow> True
     | Some s \<Rightarrow> bar_free (canon_part h p) \<and> canon_part h p \<noteq> NONE_SENTINEL)"

lemma clean_part_bar_free: "clean_part h p \<Longrightarrow> bar_free (canon_part h p)"
proof (cases p)
  case None
  have "bar_free NONE_SENTINEL" by code_simp
  with None show ?thesis by (simp add: canon_part_def)
qed (simp add: clean_part_def)

lemma canon_part_clean_inj:
  "clean_part h p \<Longrightarrow> clean_part h q \<Longrightarrow> canon_part h p = canon_part h q \<Longrightarrow>
   map_option (\<lambda>s. strip (nfc h s)) p = map_option (\<lambda>s. strip (nfc h s)) q"
  by (auto simp: clean_part_def canon_part_def split: option.splits)

lemma canon_list_inj:
  "list_all (clean_part h) ps \<Longrightarrow> list_all (clean_part h) qs \<Longrightarrow>
   map (canon_part h) ps = map (canon_part h) qs \<Longrightarrow>
   map (map_option (\<lambda>s. strip (nfc h s))) ps = map (map_option (\<lambda>s. strip (nfc h s))) qs"
proof (induction ps arbitrary: qs)
  case (Cons p ps)
  then show ?case
    by (cases qs) (auto dest: canon_part_clean_inj)
qed simp

text \<open>Two part lists with the same canonical text have the same parts up to NFC and
  surrounding whitespace, and agree on which are None, as long as no canonical part contains a
  vertical bar or is the None sentinel itself.\<close>

theorem normalize_separates:
  assumes "ps \<noteq> []" "qs \<noteq> []" "list_all (clean_part h) ps" "list_all (clean_part h) qs"
    "normalize h ps = normalize h qs"
  shows "map (map_option (\<lambda>s. strip (nfc h s))) ps = map (map_option (\<lambda>s. strip (nfc h s))) qs"
proof -
  have "list_all bar_free (map (canon_part h) ps)" "list_all bar_free (map (canon_part h) qs)"
    using assms(3,4) by (auto simp: list_all_iff intro: clean_part_bar_free)
  then have "map (canon_part h) ps = map (canon_part h) qs"
    using assms(1,2,5) join_inj unfolding normalize_def by simp
  with assms(3,4) show ?thesis by (rule canon_list_inj)
qed

theorem normalize_separates_witness:
  "normalize \<lparr>nfc = id, sha256_hex = id\<rparr> [None, Some '' a''] = normalize \<lparr>nfc = id, sha256_hex = id\<rparr> [None, Some ''a '']
   \<and> map (map_option (\<lambda>s. strip (id s))) [None, Some '' a''] = map (map_option (\<lambda>s. strip (id s))) [None, Some ''a '']"
proof -
  let ?h = "\<lparr>nfc = id, sha256_hex = id\<rparr>"
  have n: "normalize ?h [None, Some '' a''] = normalize ?h [None, Some ''a '']" by code_simp
  have c: "list_all (clean_part ?h) [None, Some '' a'']" "list_all (clean_part ?h) [None, Some ''a '']"
    by (code_simp, code_simp)
  show ?thesis
    using normalize_separates [OF _ _ c n] n by simp
qed

text \<open>The separator is not escaped, so text that contains it moves the boundary between parts:
  two memories with different titles and summaries have the same content hash, whatever the digest.\<close>

theorem content_hash_boundary_collision:
  "content_hash (h\<lparr>nfc := id\<rparr>) [Some ''a||b'', Some ''c'', Some ''p''] =
   content_hash (h\<lparr>nfc := id\<rparr>) [Some ''a'', Some ''b||c'', Some ''p'']"
proof -
  have "strip ''a||b'' = ''a||b''" "strip ''b||c'' = ''b||c''" "strip ''a'' = ''a''"
    "strip ''c'' = ''c''" "strip ''p'' = ''p''"
    by code_simp+
  then show ?thesis
    by (simp add: content_hash_def normalize_def canon_part_def SEPARATOR_def)
qed

text \<open>Hashing ignores surrounding whitespace, and None and the empty text differ.\<close>

lemma canon_None_neq_empty: "nfc h [] = [] \<Longrightarrow> canon_part h None \<noteq> canon_part h (Some [])"
  by (simp add: canon_part_def NONE_SENTINEL_def strip_def lstrip_def)

end
