(* ===== verification/Telemetry.thy ===== *)
theory Telemetry
  imports Prelude
begin

text \<open>
  \<^verbatim>\<open>parallax/telemetry.py\<close> and \<^verbatim>\<open>parallax/obs/metrics.py\<close>: the in-process counters, the bounded ring
  buffer of latency samples and its percentiles, and the last recorded error. Log records are
  output only and carry no state. A float is an exact rational.
\<close>

record telemetry =
  COUNTERS :: "pystr \<rightharpoonup> int"
  LATENCIES :: "rat list"
  LATENCY_IDX :: nat
  LAST_ERROR :: "pystr option"

definition LATENCY_CAP :: nat where
  "LATENCY_CAP = 1024"

definition initial_telemetry :: telemetry where
  "initial_telemetry =
    \<lparr>COUNTERS = [''ingested_total'' \<mapsto> 0, ''dedup_hits_total'' \<mapsto> 0, ''errors_total'' \<mapsto> 0],
     LATENCIES = [], LATENCY_IDX = 0, LAST_ERROR = None\<rparr>"

definition inc :: "pystr \<Rightarrow> int \<Rightarrow> telemetry \<Rightarrow> telemetry" where
  "inc name n t = t\<lparr>COUNTERS := (COUNTERS t)(name \<mapsto> (case COUNTERS t name of None \<Rightarrow> 0 | Some c \<Rightarrow> c) + n)\<rparr>"

definition observe_latency_ms :: "rat \<Rightarrow> telemetry \<Rightarrow> telemetry" where
  "observe_latency_ms v t =
    (if length (LATENCIES t) < LATENCY_CAP then t\<lparr>LATENCIES := LATENCIES t @ [v]\<rparr>
     else t\<lparr>LATENCIES := (LATENCIES t)[LATENCY_IDX t := v],
            LATENCY_IDX := (LATENCY_IDX t + 1) mod LATENCY_CAP\<rparr>)"

text \<open>Python's \<^verbatim>\<open>round\<close>: to the nearest integer, a tie to the even one.\<close>

definition py_round :: "rat \<Rightarrow> int" where
  "py_round q = (let f = \<lfloor>q\<rfloor>; d = q - of_int f in
     if d < 1 / 2 then f else if 1 / 2 < d then f + 1 else if even f then f else f + 1)"

definition percentile :: "rat list \<Rightarrow> rat \<Rightarrow> rat" where
  "percentile sorted_vals pct =
    (if sorted_vals = [] then 0
     else let n = int (length sorted_vals);
              k = max 0 (min (n - 1) (py_round (pct / 100 * of_int (n - 1))))
          in sorted_vals ! nat k)"

record telemetry_snapshot =
  snap_counters :: "pystr \<rightharpoonup> int"
  latency_p50_ms :: rat
  latency_p95_ms :: rat
  latency_p99_ms :: rat
  snap_last_error :: "pystr option"

definition snapshot :: "telemetry \<Rightarrow> telemetry_snapshot" where
  "snapshot t = (let samples = sort (LATENCIES t) in
    \<lparr>snap_counters = COUNTERS t, latency_p50_ms = percentile samples 50,
     latency_p95_ms = percentile samples 95, latency_p99_ms = percentile samples 99,
     snap_last_error = LAST_ERROR t\<rparr>)"

definition reset :: "telemetry \<Rightarrow> telemetry" where
  "reset t = t\<lparr>COUNTERS := (\<lambda>k. map_option (\<lambda>_. 0) (COUNTERS t k)), LATENCIES := [],
                LATENCY_IDX := 0, LAST_ERROR := None\<rparr>"

definition emit_ingest_error :: "pystr \<Rightarrow> pystr \<Rightarrow> telemetry \<Rightarrow> telemetry" where
  "emit_ingest_error now msg t =
    inc ''errors_total'' 1 (t\<lparr>LAST_ERROR := Some (strip (now @ '' '' @ msg))\<rparr>)"

text \<open>The named counters of \<^verbatim>\<open>obs.metrics\<close>; \<^verbatim>\<open>get_counter\<close> creates one at zero on first access.\<close>

type_synonym counter_registry = "pystr \<rightharpoonup> int"

definition get_counter :: "pystr \<Rightarrow> counter_registry \<Rightarrow> counter_registry" where
  "get_counter name r = (if r name = None then r(name \<mapsto> 0) else r)"

definition counter_inc :: "pystr \<Rightarrow> int \<Rightarrow> counter_registry \<Rightarrow> counter_registry" where
  "counter_inc name n r = (let r' = get_counter name r in
     r'(name \<mapsto> (case r' name of None \<Rightarrow> 0 | Some v \<Rightarrow> v) + n))"

definition initial_registry :: counter_registry where
  "initial_registry = fold get_counter
     [''ingest_memory_total'', ''ingest_claim_total'', ''dedup_hit_total'', ''retrieve_total''] Map.empty"

section \<open>The ring buffer\<close>

lemma inc_frame [simp]:
  "LATENCIES (inc k n t) = LATENCIES t" "LATENCY_IDX (inc k n t) = LATENCY_IDX t"
  "LAST_ERROR (inc k n t) = LAST_ERROR t"
  by (simp_all add: inc_def)

lemma cap_pos: "0 < LATENCY_CAP"
  by (simp add: LATENCY_CAP_def)

definition ring_ok :: "telemetry \<Rightarrow> bool" where
  "ring_ok t \<longleftrightarrow> length (LATENCIES t) \<le> LATENCY_CAP \<and>
     (if length (LATENCIES t) < LATENCY_CAP then LATENCY_IDX t = 0 else LATENCY_IDX t < LATENCY_CAP)"

text \<open>The samples of the buffer, oldest first.\<close>

definition in_order :: "telemetry \<Rightarrow> rat list" where
  "in_order t = drop (LATENCY_IDX t) (LATENCIES t) @ take (LATENCY_IDX t) (LATENCIES t)"

definition keep_last :: "nat \<Rightarrow> 'a list \<Rightarrow> 'a list" where
  "keep_last n xs = drop (length xs - n) xs"

lemma ring_ok_observe: "ring_ok t \<Longrightarrow> ring_ok (observe_latency_ms v t)"
  using cap_pos by (auto simp: ring_ok_def observe_latency_ms_def)

lemma rotate_update:
  assumes "i < length xs" "n = length xs"
  shows "drop (Suc i mod n) (xs[i := v]) @ take (Suc i mod n) (xs[i := v]) = tl (drop i xs @ take i xs) @ [v]"
proof (cases "Suc i = n")
  case True
  then have "length xs = Suc i" using assms by simp
  then obtain ys z where xs: "xs = ys @ [z]" by (cases xs rule: rev_cases) auto
  with True assms show ?thesis by simp
next
  case False
  with assms have lt: "Suc i < length xs" by simp
  have "drop i xs = xs ! i # drop (Suc i) xs"
    using assms by (simp add: Cons_nth_drop_Suc)
  moreover have "take (Suc i) (xs[i := v]) = take i xs @ [v]"
    using assms by (simp add: take_Suc_conv_app_nth)
  ultimately show ?thesis using lt assms by simp
qed

lemma in_order_observe:
  assumes "ring_ok t"
  shows "in_order (observe_latency_ms v t) = keep_last LATENCY_CAP (in_order t @ [v])"
proof (cases "length (LATENCIES t) < LATENCY_CAP")
  case True
  with assms show ?thesis
    by (simp add: ring_ok_def in_order_def observe_latency_ms_def keep_last_def)
next
  case False
  with assms have len: "length (LATENCIES t) = LATENCY_CAP" and i: "LATENCY_IDX t < LATENCY_CAP"
    by (auto simp: ring_ok_def)
  have "in_order (observe_latency_ms v t) = tl (in_order t) @ [v]"
    using False i len rotate_update [of "LATENCY_IDX t" "LATENCIES t" LATENCY_CAP v]
    by (simp add: in_order_def observe_latency_ms_def)
  moreover have "length (in_order t) = LATENCY_CAP"
    using i len by (simp add: in_order_def)
  moreover from this have "in_order t \<noteq> []" using cap_pos by auto
  ultimately show ?thesis
    by (cases "in_order t") (auto simp: keep_last_def)
qed

lemma keep_last_snoc: "keep_last n (keep_last n xs @ [v]) = keep_last n (xs @ [v])"
proof (cases "n \<le> length xs")
  case True
  then show ?thesis by (simp add: keep_last_def) (metis Suc_diff_le drop_drop plus_1_eq_Suc)
qed (simp add: keep_last_def)

lemma observe_many:
  "ring_ok t \<Longrightarrow> ring_ok (fold observe_latency_ms vs t) \<and>
   in_order (fold observe_latency_ms vs t) = keep_last LATENCY_CAP (in_order t @ vs)"
proof (induction vs rule: rev_induct)
  case Nil
  then have "length (in_order t) \<le> LATENCY_CAP"
    by (auto simp: in_order_def ring_ok_def)
  with Nil show ?case by (simp add: keep_last_def)
next
  case (snoc v vs)
  then show ?case
    by (simp add: ring_ok_observe in_order_observe)
      (metis append_assoc keep_last_snoc)
qed

lemma ring_ok_reset: "ring_ok (reset t)"
  using cap_pos by (simp add: ring_ok_def reset_def)

text \<open>After a reset, the buffer holds exactly the most recent samples, at most 1024 of them,
  in the order they were observed when read from the write index.\<close>

theorem latency_ring_keeps_last:
  "in_order (fold observe_latency_ms vs (reset t)) = keep_last 1024 vs"
  using observe_many [OF ring_ok_reset, of vs t]
  by (simp add: LATENCY_CAP_def) (simp add: in_order_def reset_def)

section \<open>Percentiles\<close>

lemma percentile_mem:
  assumes "xs \<noteq> []"
  shows "percentile xs p \<in> set xs"
proof -
  define k where "k = max 0 (min (int (length xs) - 1) (py_round (p / 100 * of_int (int (length xs) - 1))))"
  have "0 \<le> k" "k < int (length xs)"
    using assms unfolding k_def by (auto simp: min_def max_def)
  then have "xs ! nat k \<in> set xs" by (intro nth_mem) simp
  with assms show ?thesis by (simp add: percentile_def Let_def k_def)
qed

end
