(* ===== verification/Ingest.thy ===== *)
theory Ingest
  imports Events Hashing Telemetry
begin

text \<open>
  \<^verbatim>\<open>parallax/ingest.py\<close>: the UPSERT of memories and claims. The state is the store together with the
  process's telemetry and counters; a call may raise after some of its inserts have been committed,
  so it returns the error or the result and the state it leaves in either case. What a call reads
  from its surroundings (clock, ULIDs, latency, the text of an exception) is the record
  \<open>ingest_env\<close>.
\<close>

record kernel =
  k_db :: db
  k_tel :: telemetry
  k_obs :: counter_registry

record ingest_env =
  src_now :: pystr
  row_now :: pystr
  evt_now :: pystr
  err_now :: pystr
  row_ulid :: pystr
  evt_ulid :: pystr
  env_latency :: rat
  exc_text :: "kernel_error \<Rightarrow> pystr"

type_synonym 'a kernel_op = "kernel \<Rightarrow> (kernel_error + 'a) \<times> kernel"

definition run_db :: "(db \<Rightarrow> kernel_error + db) \<Rightarrow> unit kernel_op" where
  "run_db f k = (case f (k_db k) of Inl e \<Rightarrow> (Inl e, k) | Inr d \<Rightarrow> (Inr (), k\<lparr>k_db := d\<rparr>))"

definition run_event :: "(db \<Rightarrow> kernel_error + pystr \<times> db) \<Rightarrow> pystr kernel_op" where
  "run_event f k = (case f (k_db k) of Inl e \<Rightarrow> (Inl e, k) | Inr (x, d) \<Rightarrow> (Inr x, k\<lparr>k_db := d\<rparr>))"

definition tel :: "(telemetry \<Rightarrow> telemetry) \<Rightarrow> unit kernel_op" where
  "tel f = modify_st (\<lambda>k. k\<lparr>k_tel := f (k_tel k)\<rparr>)"

definition obs :: "pystr \<Rightarrow> unit kernel_op" where
  "obs name = modify_st (\<lambda>k. k\<lparr>k_obs := counter_inc name 1 (k_obs k)\<rparr>)"

section \<open>Sources\<close>

definition synthetic_direct_source_id :: "pystr \<Rightarrow> pystr" where
  "synthetic_direct_source_id user_id = ''direct:'' @ user_id"

definition ensure_direct_source :: "digests \<Rightarrow> pystr \<Rightarrow> pystr \<Rightarrow> pystr kernel_op" where
  "ensure_direct_source h now user_id =
    (let source_id = synthetic_direct_source_id user_id in
     bind_st (run_db (insert_source
       \<lparr>src_id = source_id, src_uri = ''parallax://direct/'' @ user_id, src_kind = ''chat'',
        src_content_hash = content_hash h [Some source_id], src_user_id = user_id,
        src_ingested_at = now, src_state = ''ingested''\<rparr>))
     (\<lambda>_. return_st source_id))"

definition ensure_external_source :: "digests \<Rightarrow> pystr \<Rightarrow> pystr \<Rightarrow> pystr \<Rightarrow> pystr kernel_op" where
  "ensure_external_source h now user_id source_id =
    (if startswith source_id ''direct:'' then
       if source_id \<noteq> synthetic_direct_source_id user_id then raise_st (ReservedNamespace source_id)
       else ensure_direct_source h now user_id
     else
       bind_st (run_db (insert_source
         \<lparr>src_id = source_id, src_uri = ''parallax://external/'' @ source_id, src_kind = ''external'',
          src_content_hash = content_hash h [Some source_id], src_user_id = user_id,
          src_ingested_at = now, src_state = ''ingested''\<rparr>))
       (\<lambda>_. return_st source_id))"

definition ensure_source :: "digests \<Rightarrow> pystr \<Rightarrow> pystr \<Rightarrow> pystr option \<Rightarrow> pystr kernel_op" where
  "ensure_source h now user_id source_id =
    (case source_id of None \<Rightarrow> ensure_direct_source h now user_id
     | Some sid \<Rightarrow> ensure_external_source h now user_id sid)"

section \<open>Memories\<close>

definition memory_payload :: "memory_row \<Rightarrow> (pystr \<times> json) list" where
  "memory_payload m =
    [(''memory_id'', JStr (mem_id m)), (''user_id'', JStr (mem_user_id m)),
     (''source_id'', jopt (mem_source_id m)), (''vault_path'', JStr (mem_vault_path m)),
     (''title'', jopt (mem_title m)), (''summary'', jopt (mem_summary m)),
     (''content_hash'', JStr (mem_content_hash m)), (''state'', JStr (mem_state m)),
     (''created_at'', JStr (mem_created_at m)), (''updated_at'', JStr (mem_updated_at m))]"

definition select_memory :: "pystr \<Rightarrow> pystr \<Rightarrow> pystr kernel_op" where
  "select_memory ch user_id k =
    (case List.find (\<lambda>m. memory_key m = (ch, user_id)) (memories (k_db k)) of
       None \<Rightarrow> (Inl IndexError, k) | Some m \<Rightarrow> (Inr (mem_id m), k))"

definition candidate_memory ::
  "digests \<Rightarrow> ingest_env \<Rightarrow> pystr \<Rightarrow> pystr option \<Rightarrow> pystr option \<Rightarrow> pystr \<Rightarrow> pystr \<Rightarrow> memory_row" where
  "candidate_memory h env user_id title summary vault_path sid =
    \<lparr>mem_id = row_ulid env, mem_user_id = user_id, mem_source_id = Some sid, mem_vault_path = vault_path,
     mem_title = title, mem_summary = summary,
     mem_content_hash = content_hash h [title, summary, Some vault_path], mem_state = ''active'',
     mem_created_at = row_now env, mem_updated_at = row_now env\<rparr>"

definition memory_event :: "ingest_env \<Rightarrow> pystr \<Rightarrow> memory_row \<Rightarrow> pystr \<Rightarrow> pystr kernel_op" where
  "memory_event env user_id candidate persisted_id =
    (if persisted_id \<noteq> mem_id candidate then
       bind_st (obs ''dedup_hit_total'') (\<lambda>_. bind_st (tel (inc ''dedup_hits_total'' 1)) (\<lambda>_.
         run_event (record_memory_reaffirmed (evt_now env) (evt_ulid env) user_id persisted_id ''system'')))
     else
       run_event (record_event (evt_now env) (evt_ulid env) user_id ''system'' ''memory.created''
         (Some ''memory'') (Some persisted_id) (Some (memory_payload candidate)) None None))"

definition memory_body ::
  "digests \<Rightarrow> ingest_env \<Rightarrow> pystr \<Rightarrow> pystr option \<Rightarrow> pystr option \<Rightarrow> pystr \<Rightarrow> pystr option \<Rightarrow> (pystr \<times> bool) kernel_op" where
  "memory_body h env user_id title summary vault_path source_id =
    bind_st (ensure_source h (src_now env) user_id source_id) (\<lambda>sid.
      let candidate = candidate_memory h env user_id title summary vault_path sid in
      bind_st (run_db (insert_memory candidate)) (\<lambda>_.
      bind_st (select_memory (mem_content_hash candidate) user_id) (\<lambda>persisted_id.
      bind_st (obs ''ingest_memory_total'') (\<lambda>_.
      bind_st (tel (inc ''ingested_total'' 1)) (\<lambda>_.
      bind_st (memory_event env user_id candidate persisted_id) (\<lambda>_.
      return_st (persisted_id, persisted_id \<noteq> mem_id candidate)))))))"

text \<open>The \<^verbatim>\<open>except\<close> and \<^verbatim>\<open>finally\<close> clauses of both ingest calls.\<close>

definition guarded :: "ingest_env \<Rightarrow> 'a kernel_op \<Rightarrow> 'a kernel_op" where
  "guarded env body k =
    (let (r, k1) = body k;
         k2 = (case r of Inr _ \<Rightarrow> k1
               | Inl e \<Rightarrow> k1\<lparr>k_tel := emit_ingest_error (err_now env) (exc_text env e) (k_tel k1)\<rparr>)
     in (r, k2\<lparr>k_tel := observe_latency_ms (env_latency env) (k_tel k2)\<rparr>))"

definition ingest_memory_with_status ::
  "digests \<Rightarrow> ingest_env \<Rightarrow> pystr \<Rightarrow> pystr option \<Rightarrow> pystr option \<Rightarrow> pystr \<Rightarrow> pystr option \<Rightarrow> (pystr \<times> bool) kernel_op" where
  "ingest_memory_with_status h env user_id title summary vault_path source_id =
    guarded env (memory_body h env user_id title summary vault_path source_id)"

definition ingest_memory ::
  "digests \<Rightarrow> ingest_env \<Rightarrow> pystr \<Rightarrow> pystr option \<Rightarrow> pystr option \<Rightarrow> pystr \<Rightarrow> pystr option \<Rightarrow> pystr kernel_op" where
  "ingest_memory h env user_id title summary vault_path source_id =
    bind_st (ingest_memory_with_status h env user_id title summary vault_path source_id)
      (\<lambda>(persisted_id, _). return_st persisted_id)"

section \<open>Claims\<close>

definition claim_payload :: "claim_row \<Rightarrow> (pystr \<times> json) list" where
  "claim_payload c =
    [(''claim_id'', JStr (clm_id c)), (''user_id'', JStr (clm_user_id c)),
     (''subject'', JStr (clm_subject c)), (''predicate'', JStr (clm_predicate c)),
     (''object'', JStr (clm_object c)), (''source_id'', JStr (clm_source_id c)),
     (''content_hash'', JStr (clm_content_hash c)),
     (''confidence'', (case clm_confidence c of None \<Rightarrow> JNull | Some q \<Rightarrow> JNum q)),
     (''state'', JStr (clm_state c)), (''created_at'', JStr (clm_created_at c)),
     (''updated_at'', JStr (clm_updated_at c))]"

definition select_claim :: "pystr \<Rightarrow> pystr \<Rightarrow> pystr \<Rightarrow> pystr kernel_op" where
  "select_claim ch sid user_id k =
    (case List.find (\<lambda>c. claim_key c = (ch, sid, user_id)) (claims (k_db k)) of
       None \<Rightarrow> (Inl IndexError, k) | Some c \<Rightarrow> (Inr (clm_id c), k))"

definition candidate_claim ::
  "digests \<Rightarrow> ingest_env \<Rightarrow> pystr \<Rightarrow> pystr \<Rightarrow> pystr \<Rightarrow> pystr \<Rightarrow> rat option \<Rightarrow> pystr \<Rightarrow> pystr \<Rightarrow> claim_row" where
  "candidate_claim h env user_id subject predicate object confidence state sid =
    \<lparr>clm_id = row_ulid env, clm_user_id = user_id, clm_subject = subject, clm_predicate = predicate,
     clm_object = object, clm_source_id = sid,
     clm_content_hash = content_hash h [Some subject, Some predicate, Some object, Some sid, Some user_id],
     clm_confidence = confidence, clm_state = state,
     clm_created_at = row_now env, clm_updated_at = row_now env\<rparr>"

definition claim_event :: "ingest_env \<Rightarrow> pystr \<Rightarrow> claim_row \<Rightarrow> pystr \<Rightarrow> pystr kernel_op" where
  "claim_event env user_id candidate persisted_id =
    (if persisted_id \<noteq> clm_id candidate then
       bind_st (obs ''dedup_hit_total'') (\<lambda>_. bind_st (tel (inc ''dedup_hits_total'' 1)) (\<lambda>_. return_st persisted_id))
     else
       run_event (record_event (evt_now env) (evt_ulid env) user_id ''system'' ''claim.created''
         (Some ''claim'') (Some persisted_id) (Some (claim_payload candidate)) None None))"

definition claim_body ::
  "digests \<Rightarrow> ingest_env \<Rightarrow> pystr \<Rightarrow> pystr \<Rightarrow> pystr \<Rightarrow> pystr \<Rightarrow> pystr option \<Rightarrow> rat option \<Rightarrow> pystr \<Rightarrow>
   (pystr \<times> bool) kernel_op" where
  "claim_body h env user_id subject predicate object source_id confidence state =
    bind_st (ensure_source h (src_now env) user_id source_id) (\<lambda>sid.
      let candidate = candidate_claim h env user_id subject predicate object confidence state sid in
      bind_st (run_db (insert_claim candidate)) (\<lambda>_.
      bind_st (select_claim (clm_content_hash candidate) sid user_id) (\<lambda>persisted_id.
      bind_st (obs ''ingest_claim_total'') (\<lambda>_.
      bind_st (tel (inc ''ingested_total'' 1)) (\<lambda>_.
      bind_st (claim_event env user_id candidate persisted_id) (\<lambda>_.
      return_st (persisted_id, persisted_id \<noteq> clm_id candidate)))))))"

definition ingest_claim_with_status ::
  "digests \<Rightarrow> ingest_env \<Rightarrow> pystr \<Rightarrow> pystr \<Rightarrow> pystr \<Rightarrow> pystr \<Rightarrow> pystr option \<Rightarrow> rat option \<Rightarrow> pystr \<Rightarrow>
   (pystr \<times> bool) kernel_op" where
  "ingest_claim_with_status h env user_id subject predicate object source_id confidence state =
    (if map_of CLAIM_TRANSITIONS state = None then raise_st (InvalidClaimState state)
     else guarded env (claim_body h env user_id subject predicate object source_id confidence state))"

definition ingest_claim ::
  "digests \<Rightarrow> ingest_env \<Rightarrow> pystr \<Rightarrow> pystr \<Rightarrow> pystr \<Rightarrow> pystr \<Rightarrow> pystr option \<Rightarrow> rat option \<Rightarrow> pystr \<Rightarrow> pystr kernel_op" where
  "ingest_claim h env user_id subject predicate object source_id confidence state =
    bind_st (ingest_claim_with_status h env user_id subject predicate object source_id confidence state)
      (\<lambda>(persisted_id, _). return_st persisted_id)"

section \<open>The store invariant\<close>

definition keeps_db :: "(db \<Rightarrow> bool) \<Rightarrow> 'a kernel_op \<Rightarrow> bool" where
  "keeps_db P m \<longleftrightarrow> keeps (\<lambda>k. P (k_db k)) m"

lemma keeps_db_bind: "keeps_db P m \<Longrightarrow> (\<And>x. keeps_db P (f x)) \<Longrightarrow> keeps_db P (bind_st m f)"
  unfolding keeps_db_def by (rule keeps_bind)

lemma keeps_db_basic: "keeps_db P (return_st x)" "keeps_db P (raise_st e)" "keeps_db P (tel g)" "keeps_db P (obs n)"
  "keeps_db P (select_memory a b)" "keeps_db P (select_claim a c b)"
  by (simp_all add: keeps_db_def keeps_def return_st_def raise_st_def tel_def obs_def modify_st_def
      select_memory_def select_claim_def split: option.splits)

lemma keeps_db_run: "(\<And>d d'. f d = Inr d' \<Longrightarrow> P d \<Longrightarrow> P d') \<Longrightarrow> keeps_db P (run_db f)"
  by (auto simp: keeps_db_def keeps_def run_db_def split: sum.splits)

lemma keeps_db_run_event: "(\<And>d x d'. f d = Inr (x, d') \<Longrightarrow> P d \<Longrightarrow> P d') \<Longrightarrow> keeps_db P (run_event f)"
  by (auto simp: keeps_db_def keeps_def run_event_def split: sum.splits)

lemma keeps_db_guarded: "keeps_db P m \<Longrightarrow> keeps_db P (guarded env m)"
  by (auto simp: keeps_db_def keeps_def guarded_def Let_def split: prod.splits sum.splits)

lemma keeps_db_if: "keeps_db P a \<Longrightarrow> keeps_db P b \<Longrightarrow> keeps_db P (if c then a else b)"
  by simp

lemmas keeps_db_rules = keeps_db_bind keeps_db_basic keeps_db_if keeps_db_guarded

lemma keeps_db_ensure: "keeps_db db_ok (ensure_source h now u sid)"
proof -
  have r: "keeps_db db_ok (run_db (insert_source s))" for s
    by (rule keeps_db_run) (rule insert_source_ok)
  then have d: "keeps_db db_ok (ensure_direct_source h now u)" for u
    unfolding ensure_direct_source_def Let_def by (intro keeps_db_rules)
  show ?thesis
    unfolding ensure_source_def ensure_external_source_def
    by (cases sid) (simp_all add: d keeps_db_basic keeps_db_bind r)
qed

lemma keeps_db_ingest_memory: "keeps_db db_ok (ingest_memory_with_status h env u t s v sid)"
proof -
  have "keeps_db db_ok (run_db (insert_memory m))" for m
    by (rule keeps_db_run) (rule insert_memory_ok)
  moreover have "keeps_db db_ok (memory_event env u m x)" for m x
    unfolding memory_event_def record_memory_reaffirmed_def
    by (intro keeps_db_rules keeps_db_run_event) (rule record_event_ok, assumption+)+
  ultimately show ?thesis
    unfolding ingest_memory_with_status_def memory_body_def Let_def
    by (intro keeps_db_rules keeps_db_ensure)
qed

lemma keeps_db_ingest_claim: "keeps_db db_ok (ingest_claim_with_status h env u s p ob sid c st)"
proof -
  have "keeps_db db_ok (run_db (insert_claim m))" for m
    by (rule keeps_db_run) (rule insert_claim_ok)
  moreover have "keeps_db db_ok (claim_event env u m x)" for m x
    unfolding claim_event_def
    by (intro keeps_db_rules keeps_db_run_event) (rule record_event_ok, assumption+)
  ultimately show ?thesis
    unfolding ingest_claim_with_status_def claim_body_def Let_def
    by (intro keeps_db_rules keeps_db_ensure)
qed

end
