(* ===== verification/Ingest_Effects.thy ===== *)
theory Ingest_Effects
  imports Ingest
begin

text \<open>
  What a call of \<^verbatim>\<open>ingest_memory_with_status\<close> or \<^verbatim>\<open>ingest_claim_with_status\<close> does to the store, branch
  by branch, when the ULIDs it mints are fresh; deduplication and the reserved namespace follow.
\<close>

definition resolve_source :: "pystr \<Rightarrow> pystr option \<Rightarrow> kernel_error + pystr" where
  "resolve_source user_id source_id =
    (case source_id of None \<Rightarrow> Inr (synthetic_direct_source_id user_id)
     | Some sid \<Rightarrow> if startswith sid ''direct:'' \<and> sid \<noteq> synthetic_direct_source_id user_id
                   then Inl (ReservedNamespace sid) else Inr sid)"

definition system_event :: "pystr \<Rightarrow> pystr \<Rightarrow> pystr \<Rightarrow> pystr \<Rightarrow> pystr \<Rightarrow> pystr \<Rightarrow> (pystr \<times> json) list \<Rightarrow> event_row" where
  "system_event now eid user_id ty kind tid payload =
    \<lparr>evt_id = eid, evt_user_id = user_id, evt_actor = ''system'', evt_type = ty,
     evt_target_kind = Some kind, evt_target_id = Some tid, evt_payload_json = dumps_sorted payload,
     evt_approval_tier = None, evt_created_at = now, evt_session_id = None\<rparr>"

text \<open>The store after the source of a call has been registered: only \<open>sources\<close> may have grown.\<close>

definition with_source :: "pystr \<Rightarrow> db \<Rightarrow> db \<Rightarrow> bool" where
  "with_source sid d d1 \<longleftrightarrow>
     (\<exists>row. src_id row = sid \<and> d1 = d\<lparr>sources := source_ins row (sources d)\<rparr>)"

lemma with_sourceD:
  assumes "with_source sid d d1"
  shows "memories d1 = memories d" "claims d1 = claims d" "events d1 = events d" "source_exists sid d1"
    "src_id ` set (sources d) \<subseteq> src_id ` set (sources d1)" "db_ok d \<Longrightarrow> db_ok d1"
proof -
  obtain row where r: "src_id row = sid" "insert_source row d = Inr d1"
    using assms by (auto simp: with_source_def insert_source_eq)
  show "memories d1 = memories d" "claims d1 = claims d" "events d1 = events d"
    "src_id ` set (sources d) \<subseteq> src_id ` set (sources d1)" "db_ok d \<Longrightarrow> db_ok d1"
    using insert_source_frame [OF r(2)] insert_source_ok [OF r(2)] by auto
  show "source_exists sid d1" using insert_source_exists [OF r(2)] r(1) by simp
qed

lemma register_source:
  assumes "src_id row = s"
  shows "\<exists>d1. with_source s (k_db k) d1 \<and>
    bind_st (run_db (insert_source row)) (\<lambda>_. return_st s) k = (Inr s, k\<lparr>k_db := d1\<rparr>)"
  using assms by (auto simp: bind_st_def return_st_def run_db_def insert_source_def with_source_def)

lemma ensure_direct_source_effect:
  "\<exists>d1. with_source (synthetic_direct_source_id u) (k_db k) d1 \<and>
     ensure_direct_source h now u k = (Inr (synthetic_direct_source_id u), k\<lparr>k_db := d1\<rparr>)"
  unfolding ensure_direct_source_def Let_def by (rule register_source) simp

lemma ensure_source_effect:
  assumes "resolve_source u sid = Inr s"
  shows "\<exists>d1. with_source s (k_db k) d1 \<and> ensure_source h now u sid k = (Inr s, k\<lparr>k_db := d1\<rparr>)"
proof (cases sid)
  case None
  with assms show ?thesis
    using ensure_direct_source_effect [of u k h now] by (simp add: resolve_source_def ensure_source_def)
next
  case (Some x)
  show ?thesis
  proof (cases "startswith x ''direct:''")
    case True
    with assms Some have "x = synthetic_direct_source_id u" "s = x"
      by (simp_all only: resolve_source_def option.case split: if_splits) simp_all
    with Some True show ?thesis
      using ensure_direct_source_effect [of u k h now]
      by (simp only: ensure_source_def ensure_external_source_def option.case if_True simp_thms if_False)
  next
    case False
    with assms Some have "s = x" by (simp add: resolve_source_def)
    with Some False show ?thesis
      unfolding ensure_source_def ensure_external_source_def
      by (simp only: option.case if_False) (rule register_source, simp)
  qed
qed

lemma ensure_source_error:
  assumes "resolve_source u sid = Inl e"
  shows "ensure_source h now u sid k = (Inl e, k)"
proof (cases sid)
  case (Some x)
  with assms have "startswith x ''direct:''" "x \<noteq> synthetic_direct_source_id u" "e = ReservedNamespace x"
    by (simp_all only: resolve_source_def option.case split: if_splits) simp_all
  with Some show ?thesis
    by (simp only: ensure_source_def ensure_external_source_def option.case if_True simp_thms raise_st_def)
qed (use assms in \<open>simp add: resolve_source_def\<close>)

lemma guarded_fst [simp]: "fst (guarded env m k) = fst (m k)"
  by (simp add: guarded_def Let_def split: prod.splits)

lemma guarded_db [simp]: "k_db (snd (guarded env m k)) = k_db (snd (m k))"
  by (simp add: guarded_def Let_def split: prod.splits sum.splits)

lemma check_target_memory:
  "m \<in> set (memories d) \<Longrightarrow> mem_user_id m = u \<Longrightarrow> check_target u (Some ''memory'') (Some (mem_id m)) d = Inr ()"
  by (auto simp: check_target_def target_ref_memory owned_by_def)

lemma check_target_claim:
  "c \<in> set (claims d) \<Longrightarrow> clm_user_id c = u \<Longrightarrow> check_target u (Some ''claim'') (Some (clm_id c)) d = Inr ()"
  by (auto simp: check_target_def target_ref_claim owned_by_def)

lemma system_event_recorded:
  assumes "check_target u (Some kind) (Some tid) d = Inr ()" "eid \<notin> evt_id ` set (events d)"
  shows "record_event now eid u ''system'' ty (Some kind) (Some tid) (Some p) None None d =
    Inr (eid, d\<lparr>events := events d @ [system_event now eid u ty kind tid p]\<rparr>)"
  using record_event_success [OF _ assms] by (simp add: system_event_def dumps_payload_def)

text \<open>The counters around the event do not touch the store.\<close>

lemma bind_step: "m k = (Inr x, k') \<Longrightarrow> bind_st m f k = f x k'"
  by (simp add: bind_st_def)

lemma select_memory_Some:
  "List.find (\<lambda>m. memory_key m = (ch, u)) (memories (k_db k)) = Some m \<Longrightarrow> select_memory ch u k = (Inr (mem_id m), k)"
  by (simp add: select_memory_def)

lemma select_claim_Some:
  "List.find (\<lambda>c. claim_key c = (ch, s, u)) (claims (k_db k)) = Some c \<Longrightarrow> select_claim ch s u k = (Inr (clm_id c), k)"
  by (simp add: select_claim_def)

lemma tail_effect:
  assumes "k_db K = d2" "\<And>K. k_db K = d2 \<Longrightarrow> \<exists>y K'. ev K = (Inr y, K') \<and> k_db K' = d3"
  shows "fst (bind_st (obs n) (\<lambda>_. bind_st (tel g) (\<lambda>_. bind_st ev (\<lambda>_. return_st z))) K) = Inr z \<and>
    k_db (snd (bind_st (obs n) (\<lambda>_. bind_st (tel g) (\<lambda>_. bind_st ev (\<lambda>_. return_st z))) K)) = d3"
proof -
  let ?K2 = "(K\<lparr>k_obs := counter_inc n 1 (k_obs K)\<rparr>)\<lparr>k_tel := g (k_tel K)\<rparr>"
  obtain y K' where "ev ?K2 = (Inr y, K')" "k_db K' = d3"
    using assms(2) [of ?K2] assms(1) by auto
  then show ?thesis
    by (simp add: bind_st_def obs_def tel_def modify_st_def return_st_def)
qed

lemma dedup_then:
  assumes "\<And>K. k_db K = d2 \<Longrightarrow> \<exists>y K'. ev K = (Inr y, K') \<and> k_db K' = d3" "k_db K = d2"
  shows "\<exists>y K'. bind_st (obs n) (\<lambda>_. bind_st (tel g) (\<lambda>_. ev)) K = (Inr y, K') \<and> k_db K' = d3"
  using assms(1) [of "(K\<lparr>k_obs := counter_inc n 1 (k_obs K)\<rparr>)\<lparr>k_tel := g (k_tel K)\<rparr>"] assms(2)
  by (simp add: bind_st_def obs_def tel_def modify_st_def)

section \<open>Memories\<close>

definition memory_outcome :: "ingest_env \<Rightarrow> pystr \<Rightarrow> memory_row \<Rightarrow> db \<Rightarrow> db \<Rightarrow> (pystr \<times> bool) \<times> db" where
  "memory_outcome env u cand d d1 =
    (case List.find (\<lambda>m. memory_key m = memory_key cand) (memories d) of
       Some m \<Rightarrow> ((mem_id m, True), d1\<lparr>events := events d @
         [system_event (evt_now env) (evt_ulid env) u ''memory.reaffirmed'' ''memory'' (mem_id m)
            [(''memory_id'', JStr (mem_id m))]]\<rparr>)
     | None \<Rightarrow> ((mem_id cand, False), d1\<lparr>memories := memories d @ [cand], events := events d @
         [system_event (evt_now env) (evt_ulid env) u ''memory.created'' ''memory'' (mem_id cand)
            (memory_payload cand)]\<rparr>))"

lemma memory_body_effect:
  assumes src: "resolve_source u sid = Inr s"
    and row: "row_ulid env \<notin> mem_id ` set (memories (k_db k))"
    and evt: "evt_ulid env \<notin> evt_id ` set (events (k_db k))"
  shows "\<exists>d1. with_source s (k_db k) d1 \<and>
    (let out = memory_outcome env u (candidate_memory h env u t su v s) (k_db k) d1 in
     fst (memory_body h env u t su v sid k) = Inr (fst out) \<and>
     k_db (snd (memory_body h env u t su v sid k)) = snd out)"
proof -
  let ?c = "candidate_memory h env u t su v s"
  obtain d1 where w: "with_source s (k_db k) d1"
    and e: "ensure_source h (src_now env) u sid k = (Inr s, k\<lparr>k_db := d1\<rparr>)"
    using ensure_source_effect [OF src] by blast
  note d1 = with_sourceD [OF w]
  have c: "mem_id ?c = row_ulid env" "mem_user_id ?c = u" "mem_source_id ?c = Some s"
    "memory_key ?c = (mem_content_hash ?c, u)"
    by (simp_all add: candidate_memory_def memory_key_def)
  have body: "memory_body h env u t su v sid k =
    bind_st (run_db (insert_memory ?c)) (\<lambda>_. bind_st (select_memory (mem_content_hash ?c) u) (\<lambda>persisted_id.
      bind_st (obs ''ingest_memory_total'') (\<lambda>_. bind_st (tel (inc ''ingested_total'' 1)) (\<lambda>_.
      bind_st (memory_event env u ?c persisted_id) (\<lambda>_.
      return_st (persisted_id, persisted_id \<noteq> mem_id ?c)))))) (k\<lparr>k_db := d1\<rparr>)"
    by (simp add: memory_body_def bind_st_def [of "ensure_source h (src_now env) u sid"] e Let_def)
  show ?thesis
  proof (cases "List.find (\<lambda>m. memory_key m = memory_key ?c) (memories (k_db k))")
    case None
    then have "memory_ins ?c (memories d1) = memories d1 @ [?c]"
      using row c(1) d1(1) by (intro mem.ins_fresh) (auto simp: find_None image_iff)
    then have ins: "insert_memory ?c d1 = Inr (d1\<lparr>memories := memories d1 @ [?c]\<rparr>)"
      using d1(4) c(3) by (simp add: insert_memory_def)
    have sel: "List.find (\<lambda>m. memory_key m = (mem_content_hash ?c, u)) (memories d1 @ [?c]) = Some ?c"
      using None d1(1) c(4) by (simp add: find_append)
    let ?d2 = "d1\<lparr>memories := memories d1 @ [?c]\<rparr>"
    have "check_target u (Some ''memory'') (Some (mem_id ?c)) ?d2 = Inr ()"
      using c(2) by (intro check_target_memory) simp_all
    then have ev: "record_event (evt_now env) (evt_ulid env) u ''system'' ''memory.created'' (Some ''memory'')
        (Some (mem_id ?c)) (Some (memory_payload ?c)) None None ?d2 =
      Inr (evt_ulid env, ?d2\<lparr>events := events ?d2 @ [system_event (evt_now env) (evt_ulid env) u
        ''memory.created'' ''memory'' (mem_id ?c) (memory_payload ?c)]\<rparr>)"
      using evt d1(3) by (intro system_event_recorded) simp_all
    let ?K = "k\<lparr>k_db := ?d2\<rparr>"
    have "run_db (insert_memory ?c) (k\<lparr>k_db := d1\<rparr>) = (Inr (), ?K)"
      by (simp add: run_db_def ins)
    moreover have "select_memory (mem_content_hash ?c) u ?K = (Inr (mem_id ?c), ?K)"
      by (rule select_memory_Some) (simp add: sel)
    ultimately have b: "memory_body h env u t su v sid k =
      bind_st (obs ''ingest_memory_total'') (\<lambda>_. bind_st (tel (inc ''ingested_total'' 1)) (\<lambda>_.
      bind_st (memory_event env u ?c (mem_id ?c)) (\<lambda>_. return_st (mem_id ?c, mem_id ?c \<noteq> mem_id ?c)))) ?K"
      by (simp only: body bind_step)
    have "\<exists>y K'. memory_event env u ?c (mem_id ?c) K = (Inr y, K') \<and>
        k_db K' = snd (memory_outcome env u ?c (k_db k) d1)" if "k_db K = ?d2" for K
      using ev that None d1 by (simp add: memory_event_def memory_outcome_def run_event_def)
    from tail_effect [of ?K ?d2, OF _ this] None w show ?thesis
      unfolding b Let_def by (intro exI [of _ d1]) (simp add: memory_outcome_def)
  next
    case (Some m)
    note m = find_SomeD [OF Some]
    then have "memory_ins ?c (memories d1) = memories d1"
      using d1(1) by (intro mem.ins_conflict [of m]) auto
    then have ins: "insert_memory ?c d1 = Inr d1"
      by (simp add: insert_memory_def)
    have sel: "List.find (\<lambda>m. memory_key m = (mem_content_hash ?c, u)) (memories d1) = Some m"
      using Some d1(1) c(4) by simp
    have ne: "mem_id m \<noteq> mem_id ?c" using m row c(1) by (metis image_eqI)
    have "check_target u (Some ''memory'') (Some (mem_id m)) d1 = Inr ()"
      using m d1(1) c(4) by (intro check_target_memory) (auto simp: memory_key_def)
    then have ev: "record_event (evt_now env) (evt_ulid env) u ''system'' ''memory.reaffirmed'' (Some ''memory'')
        (Some (mem_id m)) (Some [(''memory_id'', JStr (mem_id m))]) None None d1 =
      Inr (evt_ulid env, d1\<lparr>events := events d1 @ [system_event (evt_now env) (evt_ulid env) u
        ''memory.reaffirmed'' ''memory'' (mem_id m) [(''memory_id'', JStr (mem_id m))]]\<rparr>)"
      using evt d1(3) by (intro system_event_recorded) simp_all
    let ?K = "k\<lparr>k_db := d1\<rparr>"
    have "run_db (insert_memory ?c) ?K = (Inr (), ?K)"
      by (simp add: run_db_def ins)
    moreover have "select_memory (mem_content_hash ?c) u ?K = (Inr (mem_id m), ?K)"
      by (rule select_memory_Some) (simp add: sel)
    ultimately have b: "memory_body h env u t su v sid k =
      bind_st (obs ''ingest_memory_total'') (\<lambda>_. bind_st (tel (inc ''ingested_total'' 1)) (\<lambda>_.
      bind_st (memory_event env u ?c (mem_id m)) (\<lambda>_. return_st (mem_id m, mem_id m \<noteq> mem_id ?c)))) ?K"
      by (simp only: body bind_step)
    have R: "\<exists>y K'. run_event (record_memory_reaffirmed (evt_now env) (evt_ulid env) u (mem_id m) ''system'') K = (Inr y, K') \<and>
        k_db K' = snd (memory_outcome env u ?c (k_db k) d1)" if "k_db K = d1" for K
      using ev that Some d1 by (simp add: run_event_def record_memory_reaffirmed_def memory_outcome_def)
    have "\<exists>y K'. memory_event env u ?c (mem_id m) K = (Inr y, K') \<and>
        k_db K' = snd (memory_outcome env u ?c (k_db k) d1)" if "k_db K = d1" for K
      using dedup_then [OF R that] ne by (simp add: memory_event_def)
    from tail_effect [of ?K d1, OF _ this] Some w ne show ?thesis
      unfolding b Let_def by (intro exI [of _ d1]) (simp add: memory_outcome_def)
  qed
qed

section \<open>Claims\<close>

definition claim_outcome :: "ingest_env \<Rightarrow> pystr \<Rightarrow> claim_row \<Rightarrow> db \<Rightarrow> db \<Rightarrow> (pystr \<times> bool) \<times> db" where
  "claim_outcome env u cand d d1 =
    (case List.find (\<lambda>c. claim_key c = claim_key cand) (claims d) of
       Some c \<Rightarrow> ((clm_id c, True), d1)
     | None \<Rightarrow> ((clm_id cand, False), d1\<lparr>claims := claims d @ [cand], events := events d @
         [system_event (evt_now env) (evt_ulid env) u ''claim.created'' ''claim'' (clm_id cand)
            (claim_payload cand)]\<rparr>))"

lemma claim_body_effect:
  assumes src: "resolve_source u sid = Inr s"
    and row: "row_ulid env \<notin> clm_id ` set (claims (k_db k))"
    and evt: "evt_ulid env \<notin> evt_id ` set (events (k_db k))"
  shows "\<exists>d1. with_source s (k_db k) d1 \<and>
    (let out = claim_outcome env u (candidate_claim h env u sb p ob cf st s) (k_db k) d1 in
     fst (claim_body h env u sb p ob sid cf st k) = Inr (fst out) \<and>
     k_db (snd (claim_body h env u sb p ob sid cf st k)) = snd out)"
proof -
  let ?c = "candidate_claim h env u sb p ob cf st s"
  obtain d1 where w: "with_source s (k_db k) d1"
    and e: "ensure_source h (src_now env) u sid k = (Inr s, k\<lparr>k_db := d1\<rparr>)"
    using ensure_source_effect [OF src] by blast
  note d1 = with_sourceD [OF w]
  have c: "clm_id ?c = row_ulid env" "clm_user_id ?c = u" "clm_source_id ?c = s"
    "claim_key ?c = (clm_content_hash ?c, s, u)"
    by (simp_all add: candidate_claim_def claim_key_def)
  have body: "claim_body h env u sb p ob sid cf st k =
    bind_st (run_db (insert_claim ?c)) (\<lambda>_. bind_st (select_claim (clm_content_hash ?c) s u) (\<lambda>persisted_id.
      bind_st (obs ''ingest_claim_total'') (\<lambda>_. bind_st (tel (inc ''ingested_total'' 1)) (\<lambda>_.
      bind_st (claim_event env u ?c persisted_id) (\<lambda>_.
      return_st (persisted_id, persisted_id \<noteq> clm_id ?c)))))) (k\<lparr>k_db := d1\<rparr>)"
    by (simp add: claim_body_def bind_st_def [of "ensure_source h (src_now env) u sid"] e Let_def)
  show ?thesis
  proof (cases "List.find (\<lambda>m. claim_key m = claim_key ?c) (claims (k_db k))")
    case None
    then have "claim_ins ?c (claims d1) = claims d1 @ [?c]"
      using row c(1) d1(2) by (intro clm.ins_fresh) (auto simp: find_None image_iff)
    then have ins: "insert_claim ?c d1 = Inr (d1\<lparr>claims := claims d1 @ [?c]\<rparr>)"
      using d1(4) c(3) by (simp add: insert_claim_def)
    have sel: "List.find (\<lambda>m. claim_key m = (clm_content_hash ?c, s, u)) (claims d1 @ [?c]) = Some ?c"
      using None d1(2) c(4) by (simp add: find_append)
    let ?d2 = "d1\<lparr>claims := claims d1 @ [?c]\<rparr>"
    have "check_target u (Some ''claim'') (Some (clm_id ?c)) ?d2 = Inr ()"
      using c(2) by (intro check_target_claim) simp_all
    then have ev: "record_event (evt_now env) (evt_ulid env) u ''system'' ''claim.created'' (Some ''claim'')
        (Some (clm_id ?c)) (Some (claim_payload ?c)) None None ?d2 =
      Inr (evt_ulid env, ?d2\<lparr>events := events ?d2 @ [system_event (evt_now env) (evt_ulid env) u
        ''claim.created'' ''claim'' (clm_id ?c) (claim_payload ?c)]\<rparr>)"
      using evt d1(3) by (intro system_event_recorded) simp_all
    let ?K = "k\<lparr>k_db := ?d2\<rparr>"
    have "run_db (insert_claim ?c) (k\<lparr>k_db := d1\<rparr>) = (Inr (), ?K)"
      by (simp add: run_db_def ins)
    moreover have "select_claim (clm_content_hash ?c) s u ?K = (Inr (clm_id ?c), ?K)"
      by (rule select_claim_Some) (simp add: sel)
    ultimately have b: "claim_body h env u sb p ob sid cf st k =
      bind_st (obs ''ingest_claim_total'') (\<lambda>_. bind_st (tel (inc ''ingested_total'' 1)) (\<lambda>_.
      bind_st (claim_event env u ?c (clm_id ?c)) (\<lambda>_. return_st (clm_id ?c, clm_id ?c \<noteq> clm_id ?c)))) ?K"
      by (simp only: body bind_step)
    have "\<exists>y K'. claim_event env u ?c (clm_id ?c) K = (Inr y, K') \<and>
        k_db K' = snd (claim_outcome env u ?c (k_db k) d1)" if "k_db K = ?d2" for K
      using ev that None d1 by (simp add: claim_event_def claim_outcome_def run_event_def)
    from tail_effect [of ?K ?d2, OF _ this] None w show ?thesis
      unfolding b Let_def by (intro exI [of _ d1]) (simp add: claim_outcome_def)
  next
    case (Some m)
    note m = find_SomeD [OF Some]
    then have "claim_ins ?c (claims d1) = claims d1"
      using d1(2) by (intro clm.ins_conflict [of m]) auto
    then have ins: "insert_claim ?c d1 = Inr d1"
      by (simp add: insert_claim_def)
    have sel: "List.find (\<lambda>m. claim_key m = (clm_content_hash ?c, s, u)) (claims d1) = Some m"
      using Some d1(2) c(4) by simp
    have ne: "clm_id m \<noteq> clm_id ?c" using m row c(1) by (metis image_eqI)
    let ?K = "k\<lparr>k_db := d1\<rparr>"
    have "run_db (insert_claim ?c) ?K = (Inr (), ?K)"
      by (simp add: run_db_def ins)
    moreover have "select_claim (clm_content_hash ?c) s u ?K = (Inr (clm_id m), ?K)"
      by (rule select_claim_Some) (simp add: sel)
    ultimately have b: "claim_body h env u sb p ob sid cf st k =
      bind_st (obs ''ingest_claim_total'') (\<lambda>_. bind_st (tel (inc ''ingested_total'' 1)) (\<lambda>_.
      bind_st (claim_event env u ?c (clm_id m)) (\<lambda>_. return_st (clm_id m, clm_id m \<noteq> clm_id ?c)))) ?K"
      by (simp only: body bind_step)
    have R: "\<exists>y K'. return_st (clm_id m) K = (Inr y, K') \<and> k_db K' = d1" if "k_db K = d1" for K
      using that by (simp add: return_st_def)
    have "\<exists>y K'. claim_event env u ?c (clm_id m) K = (Inr y, K') \<and>
        k_db K' = snd (claim_outcome env u ?c (k_db k) d1)" if "k_db K = d1" for K
      using dedup_then [OF R that] Some ne
      by (simp add: claim_event_def claim_outcome_def)
    from tail_effect [of ?K d1, OF _ this] Some w ne show ?thesis
      unfolding b Let_def by (intro exI [of _ d1]) (simp add: claim_outcome_def)
  qed
qed

text \<open>A claim whose key is not stored is appended with its event.\<close>

lemma claim_ingested_new:
  assumes "resolve_source u sid = Inr s" "row_ulid env \<notin> clm_id ` set (claims (k_db k))" "evt_ulid env \<notin> evt_id ` set (events (k_db k))"
    "claim_key (candidate_claim h env u sb p ob cf st s) \<notin> claim_key ` set (claims (k_db k))" "map_of CLAIM_TRANSITIONS st \<noteq> None"
  shows "\<exists>k'. ingest_claim_with_status h env u sb p ob sid cf st k = (Inr (row_ulid env, False), k') \<and>
    claims (k_db k') = claims (k_db k) @ [candidate_claim h env u sb p ob cf st s] \<and> length (events (k_db k')) = Suc (length (events (k_db k)))"
proof -
  let ?c = "candidate_claim h env u sb p ob cf st s" and ?b = "claim_body h env u sb p ob sid cf st"
  obtain d1 where b: "fst (?b k) = Inr (fst (claim_outcome env u ?c (k_db k) d1))" "k_db (snd (?b k)) = snd (claim_outcome env u ?c (k_db k) d1)"
    using claim_body_effect [OF assms(1-3), of h sb p ob cf st] unfolding Let_def by blast
  have "List.find (\<lambda>c. claim_key c = claim_key ?c) (claims (k_db k)) = None"
    unfolding find_None using assms(4) by (metis image_eqI)
  then have out: "fst (claim_outcome env u ?c (k_db k) d1) = (clm_id ?c, False)" "claims (snd (claim_outcome env u ?c (k_db k) d1)) = claims (k_db k) @ [?c]"
    "length (events (snd (claim_outcome env u ?c (k_db k) d1))) = Suc (length (events (k_db k)))"
    by (simp_all add: claim_outcome_def)
  obtain x k1 where g: "guarded env ?b k = (x, k1)" by (rule prod.exhaust)
  have x: "x = Inr (clm_id ?c, False)" "claims (k_db k1) = claims (k_db k) @ [?c]" "length (events (k_db k1)) = Suc (length (events (k_db k)))"
    using guarded_fst [of env ?b k] guarded_db [of env ?b k] b out unfolding g by simp_all
  have "clm_id ?c = row_ulid env" by (simp add: candidate_claim_def)
  moreover have "(map_of CLAIM_TRANSITIONS st = None) = False" using assms(5) by simp
  ultimately show ?thesis unfolding ingest_claim_with_status_def by (simp only: if_False) (simp add: g x)
qed

section \<open>Deduplication\<close>

lemma memory_ingested:
  assumes "resolve_source u sid = Inr s" "row_ulid env \<notin> mem_id ` set (memories (k_db k))"
    "evt_ulid env \<notin> evt_id ` set (events (k_db k))"
    and eq: "ingest_memory_with_status h env u t su v sid k = (r, k')"
  shows "\<exists>m. List.find (\<lambda>m. memory_key m = (content_hash h [t, su, Some v], u)) (memories (k_db k')) = Some m \<and>
    r = Inr (mem_id m, \<exists>x \<in> set (memories (k_db k)). memory_key x = (content_hash h [t, su, Some v], u)) \<and>
    memories (k_db k') = (if \<exists>x \<in> set (memories (k_db k)). memory_key x = (content_hash h [t, su, Some v], u)
      then memories (k_db k) else memories (k_db k) @ [m])"
proof -
  let ?c = "candidate_memory h env u t su v s"
  have key: "memory_key ?c = (content_hash h [t, su, Some v], u)"
    by (simp add: candidate_memory_def memory_key_def)
  obtain d1 where w: "with_source s (k_db k) d1"
    and out: "r = Inr (fst (memory_outcome env u ?c (k_db k) d1))" "k_db k' = snd (memory_outcome env u ?c (k_db k) d1)"
    using memory_body_effect [OF assms(1-3), of h t su v] eq
    unfolding ingest_memory_with_status_def Let_def
    by (metis fst_conv guarded_db guarded_fst snd_conv)
  note d1 = with_sourceD [OF w]
  show ?thesis
  proof (cases "List.find (\<lambda>m. memory_key m = memory_key ?c) (memories (k_db k))")
    case None
    then have "\<not> (\<exists>x \<in> set (memories (k_db k)). memory_key x = memory_key ?c)" by (auto simp: find_None)
    with None out key show ?thesis by (simp add: memory_outcome_def find_append)
  next
    case (Some m)
    with find_SomeD [OF Some] have "\<exists>x \<in> set (memories (k_db k)). memory_key x = memory_key ?c" by auto
    with Some out key d1 show ?thesis by (simp add: memory_outcome_def)
  qed
qed

text \<open>C4: ingesting the same memory again, from any source and with any fresh ids, changes no memory
  row: it returns the id the first call returned, with the dedup flag set.\<close>

theorem ingest_memory_idempotent:
  assumes "ingest_memory_with_status h env u t su v sid k = (r, k')"
    and "ingest_memory_with_status h env' u t' su' v' sid' k' = (r', k'')"
    and "content_hash h [t', su', Some v'] = content_hash h [t, su, Some v]"
    and "ok (resolve_source u sid)" "ok (resolve_source u sid')"
    and "row_ulid env \<notin> mem_id ` set (memories (k_db k))" "evt_ulid env \<notin> evt_id ` set (events (k_db k))"
    and "row_ulid env' \<notin> mem_id ` set (memories (k_db k'))" "evt_ulid env' \<notin> evt_id ` set (events (k_db k'))"
  shows "\<exists>i dup. r = Inr (i, dup) \<and> r' = Inr (i, True) \<and> memories (k_db k'') = memories (k_db k')"
proof -
  obtain s s' where s: "resolve_source u sid = Inr s" "resolve_source u sid' = Inr s'"
    using assms(4,5) by (auto simp: ok_def split: sum.splits)
  obtain m dup where m: "List.find (\<lambda>m. memory_key m = (content_hash h [t, su, Some v], u)) (memories (k_db k')) = Some m"
    "r = Inr (mem_id m, dup)"
    using memory_ingested [OF s(1) assms(6,7,1)] by blast
  have "\<exists>x \<in> set (memories (k_db k')). memory_key x = (content_hash h [t', su', Some v'], u)"
    using find_SomeD [OF m(1)] assms(3) by auto
  with memory_ingested [OF s(2) assms(8,9,2)] m assms(3) show ?thesis by auto
qed

definition demo_env :: "pystr \<Rightarrow> ingest_env" where
  "demo_env n = \<lparr>src_now = n, row_now = n, evt_now = n, err_now = n, row_ulid = ''r'' @ n, evt_ulid = ''e'' @ n,
     env_latency = 1, exc_text = (\<lambda>_. '''')\<rparr>"

definition demo_kernel :: kernel where
  "demo_kernel = \<lparr>k_db = empty_db, k_tel = initial_telemetry, k_obs = initial_registry\<rparr>"

definition demo_digests :: digests where
  "demo_digests = \<lparr>nfc = id, sha256_hex = id\<rparr>"

definition demo_once :: "(kernel_error + pystr \<times> bool) \<times> kernel" where
  "demo_once = ingest_memory_with_status demo_digests (demo_env ''1'') ''u'' (Some ''T'') None ''v.md'' None demo_kernel"

definition demo_twice :: "(kernel_error + pystr \<times> bool) \<times> kernel" where
  "demo_twice = ingest_memory_with_status demo_digests (demo_env ''2'') ''u'' (Some '' T '') None ''v.md'' (Some ''web'') (snd demo_once)"

theorem ingest_memory_idempotent_witness:
  "fst demo_once = Inr (''r1'', False) \<and> fst demo_twice = Inr (''r1'', True) \<and>
   memories (k_db (snd demo_twice)) = memories (k_db (snd demo_once))"
proof -
  have r: "fst demo_once = Inr (''r1'', False)" by code_simp
  have h: "content_hash demo_digests [Some '' T '', None, Some ''v.md''] = content_hash demo_digests [Some ''T'', None, Some ''v.md'']"
    by code_simp
  have s: "ok (resolve_source ''u'' None)" "ok (resolve_source ''u'' (Some ''web''))" by (code_simp, code_simp)
  have f1: "row_ulid (demo_env ''1'') \<notin> mem_id ` set (memories (k_db demo_kernel))"
    "evt_ulid (demo_env ''1'') \<notin> evt_id ` set (events (k_db demo_kernel))"
    by (simp_all add: demo_kernel_def empty_db_def)
  have "map mem_id (memories (k_db (snd demo_once))) = [''r1'']" "map evt_id (events (k_db (snd demo_once))) = [''e1'']"
    by (code_simp, code_simp)
  then have "mem_id ` set (memories (k_db (snd demo_once))) = {''r1''}" "evt_id ` set (events (k_db (snd demo_once))) = {''e1''}"
    by (metis list.set(1) list.set(2) list.set_map)+
  then have f2: "row_ulid (demo_env ''2'') \<notin> mem_id ` set (memories (k_db (snd demo_once)))"
    "evt_ulid (demo_env ''2'') \<notin> evt_id ` set (events (k_db (snd demo_once)))"
    by (simp_all add: demo_env_def)
  obtain r1 k1 r2 k2 where e: "demo_once = (r1, k1)" "demo_twice = (r2, k2)" by fastforce
  show ?thesis
    using ingest_memory_idempotent [of demo_digests "demo_env ''1''" "''u''" "Some ''T''" None "''v.md''" None demo_kernel r1 k1
        "demo_env ''2''" "Some '' T ''" None "''v.md''" "Some ''web''" r2 k2] h s f1 f2 e r
    by (auto simp: demo_once_def demo_twice_def)
qed

text \<open>A caller cannot touch another user's synthetic source: the call raises, no row of any table
  changes, and only the error is recorded.\<close>

theorem reserved_namespace_rejected:
  assumes "startswith sid ''direct:''" "sid \<noteq> synthetic_direct_source_id u"
  shows "fst (ingest_memory_with_status h env u t su v (Some sid) k) = Inl (ReservedNamespace sid) \<and>
    k_db (snd (ingest_memory_with_status h env u t su v (Some sid) k)) = k_db k"
proof -
  have "ensure_source h (src_now env) u (Some sid) k = (Inl (ReservedNamespace sid), k)"
    using assms by (intro ensure_source_error) (simp add: resolve_source_def)
  then show ?thesis
    by (simp add: ingest_memory_with_status_def memory_body_def bind_st_def)
qed

theorem reserved_namespace_rejected_witness:
  "fst (ingest_memory_with_status demo_digests (demo_env ''1'') ''mallory'' None None ''v.md'' (Some ''direct:alice'') demo_kernel)
   = Inl (ReservedNamespace ''direct:alice'')"
proof -
  have "startswith ''direct:alice'' ''direct:''" "''direct:alice'' \<noteq> synthetic_direct_source_id ''mallory''"
    by (code_simp, code_simp)
  then show ?thesis using reserved_namespace_rejected by blast
qed



end
