(* ===== verification/Replay.thy ===== *)
theory Replay
  imports Ingest_Effects "HOL-Library.Product_Lexorder"
begin

text \<open>
  \<^verbatim>\<open>parallax/replay.py\<close>: rebuilding \<open>memories\<close> and \<open>claims\<close> from the event log, and the back-fill of
  creation events for rows written before the log carried them.
\<close>

definition MEMORY_FIELDS :: "pystr list" where
  "MEMORY_FIELDS = [''memory_id'', ''user_id'', ''source_id'', ''vault_path'', ''title'', ''summary'',
     ''content_hash'', ''state'', ''created_at'', ''updated_at'']"

definition CLAIM_FIELDS :: "pystr list" where
  "CLAIM_FIELDS = [''claim_id'', ''user_id'', ''subject'', ''predicate'', ''object'', ''source_id'',
     ''content_hash'', ''confidence'', ''state'', ''created_at'', ''updated_at'']"

record ReplaySummary =
  memories_rebuilt :: nat
  claims_rebuilt :: nat
  claim_state_updates :: nat
  memory_state_updates :: nat
  events_consumed :: nat
  events_skipped :: nat
  skipped_event_types :: "pystr list"

record BackfillSummary =
  memory_creations_added :: nat
  claim_creations_added :: nat

section \<open>Binding JSON values to columns\<close>

text \<open>How the SQLite driver stores a value in a TEXT or REAL column.\<close>

fun bind_text :: "json \<Rightarrow> kernel_error + pystr option" where
  "bind_text JNull = Inr None"
| "bind_text (JStr s) = Inr (Some s)"
| "bind_text (JInt i) = Inr (Some (dec i))"
| "bind_text (JBool b) = Inr (Some (if b then ''1'' else ''0''))"
| "bind_text (JNum q) = Inl Unmodelled"
| "bind_text (JList xs) = Inl InterfaceError"
| "bind_text (JObj kvs) = Inl InterfaceError"

fun bind_real :: "json \<Rightarrow> kernel_error + rat option" where
  "bind_real JNull = Inr None"
| "bind_real (JStr s) = Inl Unmodelled"
| "bind_real (JInt i) = Inr (Some (of_int i))"
| "bind_real (JBool b) = Inr (Some (if b then 1 else 0))"
| "bind_real (JNum q) = Inr (Some q)"
| "bind_real (JList xs) = Inl InterfaceError"
| "bind_real (JObj kvs) = Inl InterfaceError"

fun py_truthy :: "json \<Rightarrow> bool" where
  "py_truthy JNull = False"
| "py_truthy (JStr s) = (s \<noteq> [])"
| "py_truthy (JInt i) = (i \<noteq> 0)"
| "py_truthy (JBool b) = b"
| "py_truthy (JNum q) = (q \<noteq> 0)"
| "py_truthy (JList xs) = (xs \<noteq> [])"
| "py_truthy (JObj kvs) = (kvs \<noteq> [])"

type_synonym payload = "pystr \<rightharpoonup> json"

definition text_field :: "payload \<Rightarrow> pystr \<Rightarrow> kernel_error + pystr option" where
  "text_field p f = (case p f of None \<Rightarrow> Inl (KeyError f) | Some j \<Rightarrow> bind_text j)"

definition real_field :: "payload \<Rightarrow> pystr \<Rightarrow> kernel_error + rat option" where
  "real_field p f = (case p f of None \<Rightarrow> Inl (KeyError f) | Some j \<Rightarrow> bind_real j)"

definition has_fields :: "payload \<Rightarrow> pystr list \<Rightarrow> bool" where
  "has_fields p fs \<longleftrightarrow> list_all (\<lambda>f. p f \<noteq> None) fs"

text \<open>A NULL in a NOT NULL column makes \<^verbatim>\<open>OR IGNORE\<close> skip the row (\<open>None\<close>).\<close>

definition not_null :: "'a option \<Rightarrow> ('a \<Rightarrow> kernel_error + 'b option) \<Rightarrow> kernel_error + 'b option" where
  "not_null x f = (case x of None \<Rightarrow> Inr None | Some v \<Rightarrow> f v)"

definition primary_key :: "'a option \<Rightarrow> ('a \<Rightarrow> kernel_error + 'b) \<Rightarrow> kernel_error + 'b" where
  "primary_key x f = (case x of None \<Rightarrow> Inl Unmodelled | Some v \<Rightarrow> f v)"

definition memory_of_payload :: "payload \<Rightarrow> kernel_error + memory_row option" where
  "memory_of_payload p =
    and_then (text_field p ''memory_id'') (\<lambda>i. and_then (text_field p ''user_id'') (\<lambda>u.
    and_then (text_field p ''source_id'') (\<lambda>s. and_then (text_field p ''vault_path'') (\<lambda>v.
    and_then (text_field p ''title'') (\<lambda>t. and_then (text_field p ''summary'') (\<lambda>su.
    and_then (text_field p ''content_hash'') (\<lambda>h. and_then (text_field p ''state'') (\<lambda>st.
    and_then (text_field p ''created_at'') (\<lambda>c. and_then (text_field p ''updated_at'') (\<lambda>up.
    primary_key i (\<lambda>i. not_null u (\<lambda>u. not_null v (\<lambda>v. not_null h (\<lambda>h. not_null st (\<lambda>st.
    not_null c (\<lambda>c. not_null up (\<lambda>up. Inr (Some
      \<lparr>mem_id = i, mem_user_id = u, mem_source_id = s, mem_vault_path = v, mem_title = t, mem_summary = su,
       mem_content_hash = h, mem_state = st, mem_created_at = c, mem_updated_at = up\<rparr>))))))))))))))))))"

definition claim_of_payload :: "payload \<Rightarrow> kernel_error + claim_row option" where
  "claim_of_payload p =
    and_then (text_field p ''claim_id'') (\<lambda>i. and_then (text_field p ''user_id'') (\<lambda>u.
    and_then (text_field p ''subject'') (\<lambda>sb. and_then (text_field p ''predicate'') (\<lambda>pr.
    and_then (text_field p ''object'') (\<lambda>ob. and_then (text_field p ''source_id'') (\<lambda>s.
    and_then (text_field p ''content_hash'') (\<lambda>h. and_then (real_field p ''confidence'') (\<lambda>cf.
    and_then (text_field p ''state'') (\<lambda>st. and_then (text_field p ''created_at'') (\<lambda>c.
    and_then (text_field p ''updated_at'') (\<lambda>up.
    primary_key i (\<lambda>i. not_null u (\<lambda>u. not_null sb (\<lambda>sb. not_null pr (\<lambda>pr. not_null ob (\<lambda>ob.
    not_null s (\<lambda>s. not_null h (\<lambda>h. not_null st (\<lambda>st. not_null c (\<lambda>c. not_null up (\<lambda>up. Inr (Some
      \<lparr>clm_id = i, clm_user_id = u, clm_subject = sb, clm_predicate = pr, clm_object = ob, clm_source_id = s,
       clm_content_hash = h, clm_confidence = cf, clm_state = st, clm_created_at = c,
       clm_updated_at = up\<rparr>))))))))))))))))))))))"

section \<open>Applying one event\<close>

text \<open>Each returns whether the event was applied and the target it leaves.\<close>

definition apply_memory_created :: "payload \<Rightarrow> db \<Rightarrow> kernel_error + bool \<times> db" where
  "apply_memory_created p t =
    (if \<not> has_fields p MEMORY_FIELDS then Inr (False, t)
     else and_then (memory_of_payload p) (\<lambda>row.
       case row of None \<Rightarrow> Inr (True, t)
       | Some m \<Rightarrow> and_then (insert_memory m t) (\<lambda>t'. Inr (True, t'))))"

definition apply_claim_created :: "payload \<Rightarrow> db \<Rightarrow> kernel_error + bool \<times> db" where
  "apply_claim_created p t =
    (if \<not> has_fields p CLAIM_FIELDS then Inr (False, t)
     else and_then (claim_of_payload p) (\<lambda>row.
       case row of None \<Rightarrow> Inr (True, t)
       | Some c \<Rightarrow> and_then (insert_claim c t) (\<lambda>t'. Inr (True, t'))))"

definition field_or_null :: "payload \<Rightarrow> pystr \<Rightarrow> json" where
  "field_or_null p f = (case p f of None \<Rightarrow> JNull | Some j \<Rightarrow> j)"

definition apply_claim_state_changed :: "pystr option \<Rightarrow> payload \<Rightarrow> db \<Rightarrow> kernel_error + bool \<times> db" where
  "apply_claim_state_changed target_id p t =
    (let to_state = field_or_null p ''to''; updated_at = field_or_null p ''updated_at'' in
     case target_id of None \<Rightarrow> Inr (False, t)
     | Some tid \<Rightarrow>
       if \<not> py_truthy to_state \<or> tid = [] then Inr (False, t)
       else and_then (bind_text to_state) (\<lambda>to. and_then (bind_text updated_at) (\<lambda>upd.
         primary_key to (\<lambda>to. Inr (True, snd (update_claims (\<lambda>c. clm_id c = tid)
           (\<lambda>c. case upd of Some a \<Rightarrow> c\<lparr>clm_state := to, clm_updated_at := a\<rparr>
                         | None \<Rightarrow> c\<lparr>clm_state := to\<rparr>) t))))))"

definition update_memories :: "(memory_row \<Rightarrow> bool) \<Rightarrow> (memory_row \<Rightarrow> memory_row) \<Rightarrow> db \<Rightarrow> db" where
  "update_memories P f d = d\<lparr>memories := map (\<lambda>m. if P m then f m else m) (memories d)\<rparr>"

definition apply_memory_state_changed :: "pystr option \<Rightarrow> payload \<Rightarrow> db \<Rightarrow> kernel_error + bool \<times> db" where
  "apply_memory_state_changed target_id p t =
    (let to_state = field_or_null p ''to''; updated_at = field_or_null p ''updated_at'' in
     case target_id of None \<Rightarrow> Inr (False, t)
     | Some tid \<Rightarrow>
       if \<not> py_truthy to_state \<or> tid = [] then Inr (False, t)
       else and_then (bind_text to_state) (\<lambda>to. and_then (bind_text updated_at) (\<lambda>upd.
         primary_key to (\<lambda>to. Inr (True, update_memories (\<lambda>m. mem_id m = tid)
           (\<lambda>m. case upd of Some a \<Rightarrow> m\<lparr>mem_state := to, mem_updated_at := a\<rparr>
                         | None \<Rightarrow> m\<lparr>mem_state := to\<rparr>) t)))))"

section \<open>The replay loop\<close>

text \<open>\<^verbatim>\<open>json.loads\<close> of the payload column; an empty or malformed text reads as an empty object, and a
  value that is not an object has no fields the model can give.\<close>

definition load_payload :: "jtext \<Rightarrow> payload option" where
  "load_payload j = (case j of JText (JObj kvs) \<Rightarrow> Some (map_of kvs) | JText _ \<Rightarrow> None
     | JEmpty \<Rightarrow> Some Map.empty | JBad \<Rightarrow> Some Map.empty)"

definition add_skipped :: "pystr \<Rightarrow> ReplaySummary \<Rightarrow> ReplaySummary" where
  "add_skipped ty s = s\<lparr>events_skipped := events_skipped s + 1,
     skipped_event_types := List.insert ty (skipped_event_types s)\<rparr>"

definition tally :: "pystr \<Rightarrow> (ReplaySummary \<Rightarrow> ReplaySummary) \<Rightarrow> bool \<times> db \<Rightarrow> ReplaySummary \<Rightarrow>
    kernel_error + db \<times> ReplaySummary" where
  "tally ty count r s = Inr (snd r, if fst r then count s else add_skipped ty s)"

definition replay_step :: "event_row \<Rightarrow> db \<times> ReplaySummary \<Rightarrow> kernel_error + db \<times> ReplaySummary" where
  "replay_step e ts =
    (let t = fst ts; s = (snd ts)\<lparr>events_consumed := events_consumed (snd ts) + 1\<rparr>; ty = evt_type e in
     if List.member [''memory.created'', ''claim.created'', ''claim.state_changed'', ''memory.state_changed''] ty then
       case load_payload (evt_payload_json e) of
         None \<Rightarrow> Inl Unmodelled
       | Some p \<Rightarrow>
         if ty = ''memory.created'' then and_then (apply_memory_created p t)
           (\<lambda>r. tally ty (\<lambda>s. s\<lparr>memories_rebuilt := memories_rebuilt s + 1\<rparr>) r s)
         else if ty = ''claim.created'' then and_then (apply_claim_created p t)
           (\<lambda>r. tally ty (\<lambda>s. s\<lparr>claims_rebuilt := claims_rebuilt s + 1\<rparr>) r s)
         else if ty = ''claim.state_changed'' then and_then (apply_claim_state_changed (evt_target_id e) p t)
           (\<lambda>r. tally ty (\<lambda>s. s\<lparr>claim_state_updates := claim_state_updates s + 1\<rparr>) r s)
         else and_then (apply_memory_state_changed (evt_target_id e) p t)
           (\<lambda>r. tally ty (\<lambda>s. s\<lparr>memory_state_updates := memory_state_updates s + 1\<rparr>) r s)
     else if ty = ''memory.reaffirmed'' \<or> ty = ''claim.reaffirmed'' then Inr (t, s)
     else Inr (t, add_skipped ty s))"

definition zero_summary :: ReplaySummary where
  "zero_summary = \<lparr>memories_rebuilt = 0, claims_rebuilt = 0, claim_state_updates = 0,
     memory_state_updates = 0, events_consumed = 0, events_skipped = 0, skipped_event_types = []\<rparr>"

definition evt_order :: "event_row \<Rightarrow> pystr \<times> pystr" where
  "evt_order e = (evt_created_at e, evt_id e)"

text \<open>\<open>d\<close> is the database read, \<open>target\<close> the one written (\<open>d\<close> itself in place).\<close>

definition replay_events :: "db \<Rightarrow> db \<Rightarrow> kernel_error + db \<times> ReplaySummary" where
  "replay_events d target =
    and_then (fold_res replay_step (sort_key evt_order (events d)) (target, zero_summary))
      (\<lambda>(t, s). Inr (t, s\<lparr>skipped_event_types := sort (skipped_event_types s)\<rparr>))"

section \<open>Back-fill of creation events\<close>

definition has_created :: "db \<Rightarrow> pystr \<Rightarrow> pystr \<Rightarrow> pystr \<Rightarrow> bool" where
  "has_created d ty kind tid \<longleftrightarrow>
     list_ex (\<lambda>e. evt_type e = ty \<and> evt_target_kind e = Some kind \<and> evt_target_id e = Some tid) (events d)"

definition memories_missing_created :: "db \<Rightarrow> memory_row list" where
  "memories_missing_created d =
     filter (\<lambda>m. \<not> has_created d ''memory.created'' ''memory'' (mem_id m)) (memories d)"

definition claims_missing_created :: "db \<Rightarrow> claim_row list" where
  "claims_missing_created d =
     filter (\<lambda>c. \<not> has_created d ''claim.created'' ''claim'' (clm_id c)) (claims d)"

definition backfill_event :: "pystr \<Rightarrow> pystr \<Rightarrow> pystr \<Rightarrow> pystr \<Rightarrow> pystr \<Rightarrow> pystr \<Rightarrow> (pystr \<times> json) list \<Rightarrow> event_row" where
  "backfill_event eid user_id ty kind tid created_at payload =
    \<lparr>evt_id = eid, evt_user_id = user_id, evt_actor = ''system:backfill'', evt_type = ty,
     evt_target_kind = Some kind, evt_target_id = Some tid, evt_payload_json = dumps_sorted payload,
     evt_approval_tier = None, evt_created_at = created_at, evt_session_id = None\<rparr>"

text \<open>\<open>ulid\<close> gives the ULIDs the call mints, in order. The transaction is rolled back when an insert
  raises, so an error leaves the store unchanged.\<close>

definition backfill_creation_events :: "(nat \<Rightarrow> pystr) \<Rightarrow> db \<Rightarrow> kernel_error + BackfillSummary \<times> db" where
  "backfill_creation_events ulid d =
    (let ms = memories_missing_created d; cs = claims_missing_created d;
         mevs = map (\<lambda>(i, m). backfill_event (ulid i) (mem_user_id m) ''memory.created'' ''memory'' (mem_id m)
                  (mem_created_at m) (memory_payload m)) (enumerate 0 ms);
         cevs = map (\<lambda>(i, c). backfill_event (ulid i) (clm_user_id c) ''claim.created'' ''claim'' (clm_id c)
                  (clm_created_at c) (claim_payload c)) (enumerate (length ms) cs)
     in and_then (fold_res insert_event (mevs @ cevs) d)
          (\<lambda>d'. Inr (\<lparr>memory_creations_added = length ms, claim_creations_added = length cs\<rparr>, d')))"

end
