(* ===== verification/Replay_Rebuild.thy ===== *)
theory Replay_Rebuild
  imports Replay
begin

text \<open>
  The log is sufficient: replaying the events that a history of ingests, transitions and other
  recorded events has left rebuilds the two canonical tables row for row.
\<close>

section \<open>Payloads bind back to the row they were written from\<close>

lemma memory_payload_map:
  "map_of (sort_key fst (memory_payload m)) = map_of (memory_payload m)"
  by (rule map_of_sort_key) (simp add: memory_payload_def)

lemma claim_payload_map:
  "map_of (sort_key fst (claim_payload c)) = map_of (claim_payload c)"
  by (rule map_of_sort_key) (simp add: claim_payload_def)

lemma bind_text_jopt [simp]: "bind_text (jopt x) = Inr x"
  by (cases x) (simp_all add: jopt_def)

lemma memory_payload_roundtrip:
  "has_fields (map_of (memory_payload m)) MEMORY_FIELDS"
  "memory_of_payload (map_of (memory_payload m)) = Inr (Some m)"
  by (simp_all add: has_fields_def MEMORY_FIELDS_def memory_payload_def memory_of_payload_def text_field_def
      primary_key_def not_null_def)

lemma claim_payload_roundtrip:
  "has_fields (map_of (claim_payload c)) CLAIM_FIELDS"
  "claim_of_payload (map_of (claim_payload c)) = Inr (Some c)"
  by (cases "clm_confidence c"; simp add: has_fields_def CLAIM_FIELDS_def claim_payload_def claim_of_payload_def
      text_field_def real_field_def primary_key_def not_null_def)+

lemma state_changed_map:
  "map_of (sort_key fst (state_changed_payload from to (Some upd))) = map_of (state_changed_payload from to (Some upd))"
  by (rule map_of_sort_key) (simp add: state_changed_payload_def)

section \<open>One event\<close>

lemma db_update_same:
  "claims t = cs \<Longrightarrow> t\<lparr>memories := ms, claims := cs\<rparr> = t\<lparr>memories := ms\<rparr>"
  "memories t = ms \<Longrightarrow> t\<lparr>memories := ms, claims := cs\<rparr> = t\<lparr>claims := cs\<rparr>"
  "memories t = ms \<Longrightarrow> claims t = cs \<Longrightarrow> t\<lparr>memories := ms, claims := cs\<rparr> = t"
  by auto

definition replays_to :: "event_row \<Rightarrow> db \<Rightarrow> db \<Rightarrow> bool" where
  "replays_to e t t' \<longleftrightarrow> (\<forall>s. \<exists>s'. replay_step e (t, s) = Inr (t', s'))"

lemma replay_memory_created:
  assumes "evt_type e = ''memory.created''" "evt_payload_json e = dumps_sorted (memory_payload m)"
    and "\<And>x. x \<in> set (memories t) \<Longrightarrow> mem_id x \<noteq> mem_id m \<and> memory_key x \<noteq> memory_key m"
    and "\<And>s. mem_source_id m = Some s \<Longrightarrow> source_exists s t"
  shows "replays_to e t (t\<lparr>memories := memories t @ [m]\<rparr>)"
proof -
  have "memory_ins m (memories t) = memories t @ [m]"
    using assms(3) by (rule mem.ins_fresh)
  then have "insert_memory m t = Inr (t\<lparr>memories := memories t @ [m]\<rparr>)"
    using assms(4) by (simp add: insert_memory_def split: option.split)
  then have "apply_memory_created (map_of (memory_payload m)) t = Inr (True, t\<lparr>memories := memories t @ [m]\<rparr>)"
    by (simp add: apply_memory_created_def memory_payload_roundtrip)
  then show ?thesis
    using assms(1,2)
    by (simp add: replays_to_def replay_step_def load_payload_def dumps_sorted_def memory_payload_map tally_def Let_def)
qed

lemma replay_claim_created:
  assumes "evt_type e = ''claim.created''" "evt_payload_json e = dumps_sorted (claim_payload c)"
    and "\<And>x. x \<in> set (claims t) \<Longrightarrow> clm_id x \<noteq> clm_id c \<and> claim_key x \<noteq> claim_key c"
    and "source_exists (clm_source_id c) t"
  shows "replays_to e t (t\<lparr>claims := claims t @ [c]\<rparr>)"
proof -
  have "claim_ins c (claims t) = claims t @ [c]"
    using assms(3) by (rule clm.ins_fresh)
  then have "insert_claim c t = Inr (t\<lparr>claims := claims t @ [c]\<rparr>)"
    using assms(4) by (simp add: insert_claim_def)
  then have "apply_claim_created (map_of (claim_payload c)) t = Inr (True, t\<lparr>claims := claims t @ [c]\<rparr>)"
    by (simp add: apply_claim_created_def claim_payload_roundtrip)
  then show ?thesis
    using assms(1,2)
    by (simp add: replays_to_def replay_step_def load_payload_def dumps_sorted_def claim_payload_map tally_def Let_def)
qed

lemma replay_claim_state_changed:
  assumes "evt_type e = ''claim.state_changed''" "evt_target_id e = Some cid" "cid \<noteq> []" "to \<noteq> []"
    and "evt_payload_json e = dumps_sorted (state_changed_payload from to (Some upd))"
  shows "replays_to e t (t\<lparr>claims := map (\<lambda>c. if clm_id c = cid then set_claim_state to upd c else c) (claims t)\<rparr>)"
proof -
  have "apply_claim_state_changed (Some cid) (map_of (state_changed_payload from to (Some upd))) t =
    Inr (True, t\<lparr>claims := map (\<lambda>c. if clm_id c = cid then set_claim_state to upd c else c) (claims t)\<rparr>)"
    using assms(3,4)
    by (simp add: apply_claim_state_changed_def state_changed_payload_def field_or_null_def primary_key_def
        update_claims_def set_claim_state_def)
  then show ?thesis
    using assms(1,2,5)
    by (simp add: replays_to_def replay_step_def load_payload_def dumps_sorted_def state_changed_map tally_def Let_def)
qed

definition REPLAYED_TYPES :: "pystr list" where
  "REPLAYED_TYPES = [''memory.created'', ''claim.created'', ''claim.state_changed'', ''memory.state_changed'']"

lemma replay_other:
  assumes "\<not> List.member REPLAYED_TYPES (evt_type e)"
  shows "replays_to e t t"
  using assms by (simp add: replays_to_def replay_step_def REPLAYED_TYPES_def Let_def del: List.member_iff)

section \<open>The whole log\<close>

definition seeded :: "db \<Rightarrow> db \<Rightarrow> bool" where
  "seeded d t \<longleftrightarrow> memories t = [] \<and> claims t = [] \<and> src_id ` set (sources d) \<subseteq> src_id ` set (sources t)"

definition replays :: "db \<Rightarrow> bool" where
  "replays d \<longleftrightarrow> (\<forall>t s. seeded d t \<longrightarrow>
     (\<exists>s'. fold_res replay_step (events d) (t, s) = Inr (t\<lparr>memories := memories d, claims := claims d\<rparr>, s')))"

lemma replays_empty: "events d = [] \<Longrightarrow> memories d = [] \<Longrightarrow> claims d = [] \<Longrightarrow> replays d"
  by (simp add: replays_def seeded_def)

lemma seeded_mono: "seeded d' t \<Longrightarrow> src_id ` set (sources d) \<subseteq> src_id ` set (sources d') \<Longrightarrow> seeded d t"
  by (auto simp: seeded_def)

lemma replays_same:
  assumes "replays d" "events d' = events d" "memories d' = memories d" "claims d' = claims d"
    "src_id ` set (sources d) \<subseteq> src_id ` set (sources d')"
  shows "replays d'"
  using assms seeded_mono unfolding replays_def by metis

lemma replays_extend:
  assumes "replays d" "events d' = events d @ [e]" "src_id ` set (sources d) \<subseteq> src_id ` set (sources d')"
    and "\<And>t. memories t = memories d \<Longrightarrow> claims t = claims d \<Longrightarrow>
       src_id ` set (sources d') \<subseteq> src_id ` set (sources t) \<Longrightarrow>
       replays_to e t (t\<lparr>memories := memories d', claims := claims d'\<rparr>)"
  shows "replays d'"
  unfolding replays_def
proof (intro allI impI)
  fix t s
  assume t: "seeded d' t"
  then obtain s1 where 1: "fold_res replay_step (events d) (t, s) = Inr (t\<lparr>memories := memories d, claims := claims d\<rparr>, s1)"
    using assms(1) seeded_mono [OF t assms(3)] unfolding replays_def by blast
  let ?t = "t\<lparr>memories := memories d, claims := claims d\<rparr>"
  have "replays_to e ?t (?t\<lparr>memories := memories d', claims := claims d'\<rparr>)"
    using t by (intro assms(4)) (simp_all add: seeded_def)
  then obtain s2 where "replay_step e (?t, s1) = Inr (t\<lparr>memories := memories d', claims := claims d'\<rparr>, s2)"
    by (auto simp: replays_to_def)
  then show "\<exists>s'. fold_res replay_step (events d') (t, s) = Inr (t\<lparr>memories := memories d', claims := claims d'\<rparr>, s')"
    using 1 by (simp add: assms(2) fold_res_append)
qed

lemma replays_skip:
  assumes "replays d" "events d' = events d @ [e]" "memories d' = memories d" "claims d' = claims d"
    "src_id ` set (sources d) \<subseteq> src_id ` set (sources d')" "\<And>t. replays_to e t t"
  shows "replays d'"
proof (rule replays_extend [OF assms(1,2,5)])
  fix t :: db
  assume "memories t = memories d" "claims t = claims d"
  with assms(3,4) have "t\<lparr>memories := memories d', claims := claims d'\<rparr> = t"
    by (intro db_update_same(3)) simp_all
  then show "replays_to e t (t\<lparr>memories := memories d', claims := claims d'\<rparr>)"
    using assms(6) by (rule ssubst)
qed

section \<open>Histories\<close>

text \<open>A history is any sequence of the kernel's writers; a call that raises is part of it.\<close>

datatype log_op =
    IngestMemory ingest_env pystr "pystr option" "pystr option" pystr "pystr option"
  | IngestClaim ingest_env pystr pystr pystr pystr "pystr option" "rat option" pystr
  | Transition pystr pystr pystr pystr pystr pystr "pystr option"
  | Record pystr pystr pystr pystr pystr "pystr option" "pystr option" "(pystr \<times> json) list option"
      "pystr option" "pystr option"

fun step_op :: "digests \<Rightarrow> log_op \<Rightarrow> kernel \<Rightarrow> kernel" where
  "step_op h (IngestMemory env u t su v sid) k = snd (ingest_memory_with_status h env u t su v sid k)"
| "step_op h (IngestClaim env u sb p ob sid cf st) k = snd (ingest_claim_with_status h env u sb p ob sid cf st k)"
| "step_op h (Transition upd now eid cid to actor expd) k =
     k\<lparr>k_db := snd (transition_claim_state id upd now eid cid to actor expd (k_db k))\<rparr>"
| "step_op h (Record now eid u actor ty tk tid p tier sess) k =
     snd (run_event (record_event now eid u actor ty tk tid p tier sess) k)"

fun op_fresh :: "log_op \<Rightarrow> db \<Rightarrow> bool" where
  "op_fresh (IngestMemory env u t su v sid) d \<longleftrightarrow>
     row_ulid env \<notin> mem_id ` set (memories d) \<and> evt_ulid env \<notin> evt_id ` set (events d)"
| "op_fresh (IngestClaim env u sb p ob sid cf st) d \<longleftrightarrow>
     row_ulid env \<noteq> [] \<and> row_ulid env \<notin> clm_id ` set (claims d) \<and> evt_ulid env \<notin> evt_id ` set (events d)"
| "op_fresh (Transition upd now eid cid to actor expd) d \<longleftrightarrow> True"
| "op_fresh (Record now eid u actor ty tk tid p tier sess) d \<longleftrightarrow> \<not> List.member REPLAYED_TYPES ty"

fun run_ops :: "digests \<Rightarrow> log_op list \<Rightarrow> kernel \<Rightarrow> kernel" where
  "run_ops h [] k = k"
| "run_ops h (x # xs) k = run_ops h xs (step_op h x k)"

fun ops_fresh :: "digests \<Rightarrow> log_op list \<Rightarrow> kernel \<Rightarrow> bool" where
  "ops_fresh h [] k \<longleftrightarrow> True"
| "ops_fresh h (x # xs) k \<longleftrightarrow> op_fresh x (k_db k) \<and> ops_fresh h xs (step_op h x k)"

definition log_ok :: "db \<Rightarrow> bool" where
  "log_ok d \<longleftrightarrow> db_ok d \<and> [] \<notin> clm_id ` set (claims d) \<and> replays d"

lemma log_ok_empty: "log_ok empty_db"
  using replays_empty [of empty_db] db_ok_empty by (simp add: log_ok_def empty_db_def)

lemma log_ok_same:
  "log_ok d \<Longrightarrow> db_ok d' \<Longrightarrow> events d' = events d \<Longrightarrow> memories d' = memories d \<Longrightarrow> claims d' = claims d \<Longrightarrow>
    src_id ` set (sources d) \<subseteq> src_id ` set (sources d') \<Longrightarrow> log_ok d'"
  using replays_same [of d d'] by (simp add: log_ok_def)

lemma source_exists_mono: "src_id ` set (sources d) \<subseteq> src_id ` set (sources t) \<Longrightarrow> source_exists s d \<Longrightarrow> source_exists s t"
  by (auto simp: source_exists_set)

lemma log_ok_ingest_memory:
  assumes "log_ok (k_db k)" "op_fresh (IngestMemory env u t su v sid) (k_db k)"
  shows "log_ok (k_db (snd (ingest_memory_with_status h env u t su v sid k)))" (is "log_ok ?d'")
proof (cases "resolve_source u sid")
  case (Inl e)
  then show ?thesis
    using assms(1) ensure_source_error [OF Inl, of h "src_now env" k]
    by (simp add: ingest_memory_with_status_def memory_body_def bind_st_def)
next
  case (Inr s)
  let ?c = "candidate_memory h env u t su v s"
  obtain d1 where w: "with_source s (k_db k) d1" and d': "?d' = snd (memory_outcome env u ?c (k_db k) d1)"
    using memory_body_effect [OF Inr, of env k h t su v] assms(2)
    by (auto simp: ingest_memory_with_status_def Let_def)
  note d1 = with_sourceD [OF w]
  have ok: "db_ok ?d'"
    using assms(1) keeps_db_ingest_memory [of h env u t su v sid] by (simp add: log_ok_def keeps_db_def keeps_def)
  show ?thesis
  proof (cases "List.find (\<lambda>m. memory_key m = memory_key ?c) (memories (k_db k))")
    case None
    have c: "mem_id ?c = row_ulid env" "mem_source_id ?c = Some s"
      by (simp_all add: candidate_memory_def)
    have new: "mem_id x \<noteq> mem_id ?c \<and> memory_key x \<noteq> memory_key ?c" if "x \<in> set (memories (k_db k))" for x
      using that None assms(2) c(1) unfolding find_None by (metis image_eqI op_fresh.simps(1))
    have d'': "memories ?d' = memories (k_db k) @ [?c]" "claims ?d' = claims (k_db k)" "sources ?d' = sources d1"
      "events ?d' = events (k_db k) @ [system_event (evt_now env) (evt_ulid env) u ''memory.created'' ''memory''
        (mem_id ?c) (memory_payload ?c)]"
      using None d1 by (simp_all add: d' memory_outcome_def)
    have "replays_to (system_event (evt_now env) (evt_ulid env) u ''memory.created'' ''memory'' (mem_id ?c) (memory_payload ?c))
        t (t\<lparr>memories := memories ?d', claims := claims ?d'\<rparr>)"
      if "memories t = memories (k_db k)" "claims t = claims (k_db k)"
        "src_id ` set (sources ?d') \<subseteq> src_id ` set (sources t)" for t
      using replay_memory_created [of _ ?c t] new that d'' c d1(4) source_exists_mono [of d1 t s]
      by (simp add: system_event_def db_update_same(1))
    note step = this
    from assms(1) have "replays (k_db k)" by (simp add: log_ok_def)
    then have "replays ?d'"
      by (rule replays_extend [OF _ d''(4)]) (use d''(3) d1(5) in simp, rule step)
    with assms(1) ok d''(2) show ?thesis by (simp add: log_ok_def)
  next
    case (Some m)
    have d'': "memories ?d' = memories (k_db k)" "claims ?d' = claims (k_db k)" "sources ?d' = sources d1"
      "events ?d' = events (k_db k) @ [system_event (evt_now env) (evt_ulid env) u ''memory.reaffirmed'' ''memory''
        (mem_id m) [(''memory_id'', JStr (mem_id m))]]"
      using Some d1 by (simp_all add: d' memory_outcome_def)
    have "replays_to (system_event now eid u ''memory.reaffirmed'' kind i p) t t" for now eid u kind i p t
      by (rule replay_other) (simp add: system_event_def REPLAYED_TYPES_def)
    from assms(1) have "replays (k_db k)" by (simp add: log_ok_def)
    then have "replays ?d'"
      by (rule replays_skip [OF _ d''(4,1,2)]) (use d''(3) d1(5) in simp, fact)
    with assms(1) ok d''(2) show ?thesis by (simp add: log_ok_def)
  qed
qed

lemma log_ok_ingest_claim:
  assumes "log_ok (k_db k)" "op_fresh (IngestClaim env u sb p ob sid cf st) (k_db k)"
  shows "log_ok (k_db (snd (ingest_claim_with_status h env u sb p ob sid cf st k)))" (is "log_ok ?d'")
proof (cases "map_of CLAIM_TRANSITIONS st = None \<or> (\<exists>e. resolve_source u sid = Inl e)")
  case True
  then have "?d' = k_db k"
    using ensure_source_error [of u sid _ h "src_now env" k]
    by (auto simp: ingest_claim_with_status_def claim_body_def bind_st_def raise_st_def)
  with assms(1) show ?thesis by simp
next
  case False
  then obtain s where s: "resolve_source u sid = Inr s" by (metis sum.exhaust)
  let ?c = "candidate_claim h env u sb p ob cf st s"
  obtain d1 where w: "with_source s (k_db k) d1" and d': "?d' = snd (claim_outcome env u ?c (k_db k) d1)"
    using claim_body_effect [OF s, of env k h sb p ob cf st] assms(2) False
    by (auto simp: ingest_claim_with_status_def Let_def)
  note d1 = with_sourceD [OF w]
  have ok: "db_ok ?d'"
    using assms(1) keeps_db_ingest_claim [of h env u sb p ob sid cf st] by (simp add: log_ok_def keeps_db_def keeps_def)
  show ?thesis
  proof (cases "List.find (\<lambda>m. claim_key m = claim_key ?c) (claims (k_db k))")
    case None
    have c: "clm_id ?c = row_ulid env" "clm_source_id ?c = s"
      by (simp_all add: candidate_claim_def)
    have new: "clm_id x \<noteq> clm_id ?c \<and> claim_key x \<noteq> claim_key ?c" if "x \<in> set (claims (k_db k))" for x
      using that None assms(2) c(1) unfolding find_None by (metis image_eqI op_fresh.simps(2))
    have d'': "memories ?d' = memories (k_db k)" "claims ?d' = claims (k_db k) @ [?c]" "sources ?d' = sources d1"
      "events ?d' = events (k_db k) @ [system_event (evt_now env) (evt_ulid env) u ''claim.created'' ''claim''
        (clm_id ?c) (claim_payload ?c)]"
      using None d1 by (simp_all add: d' claim_outcome_def)
    have "replays_to (system_event (evt_now env) (evt_ulid env) u ''claim.created'' ''claim'' (clm_id ?c) (claim_payload ?c))
        t (t\<lparr>memories := memories ?d', claims := claims ?d'\<rparr>)"
      if "memories t = memories (k_db k)" "claims t = claims (k_db k)"
        "src_id ` set (sources ?d') \<subseteq> src_id ` set (sources t)" for t
      using replay_claim_created [of _ ?c t] new that d'' c d1(4) source_exists_mono [of d1 t s]
      by (simp add: system_event_def db_update_same(2))
    note step = this
    from assms(1) have "replays (k_db k)" by (simp add: log_ok_def)
    then have "replays ?d'"
      by (rule replays_extend [OF _ d''(4)]) (use d''(3) d1(5) in simp, rule step)
    moreover have "[] \<notin> clm_id ` set (claims ?d')"
      using assms unfolding d''(2) by (auto simp: log_ok_def c(1))
    ultimately show ?thesis using ok unfolding log_ok_def by blast
  next
    case (Some m)
    then have eq: "?d' = d1" by (simp add: d' claim_outcome_def)
    have "db_ok (k_db k)" using assms(1) by (simp add: log_ok_def)
    then show ?thesis
      unfolding eq using d1 by (intro log_ok_same [OF assms(1)]) simp_all
  qed
qed

lemma log_ok_transition:
  assumes "log_ok d"
  shows "log_ok (snd (transition_claim_state id upd now eid cid to actor expd d))" (is "log_ok ?d'")
proof -
  obtain r d' where t: "transition_claim_state id upd now eid cid to actor expd d = (r, d')" by fastforce
  have ok: "db_ok d'" using transition_ok [OF t] assms by (simp add: log_ok_def)
  from t show ?thesis
  proof (cases rule: transition_cases)
    case (error e)
    with t assms show ?thesis by auto
  next
    case (moved row)
    have di: "distinct (map clm_id (claims d))" and ne: "cid \<noteq> []"
      using assms moved(2,3) by (auto simp: log_ok_def db_ok_def image_iff)
    let ?f = "\<lambda>c. if clm_id c = cid then set_claim_state to upd c else c"
    have d'': "memories d' = memories d" "claims d' = map ?f (claims d)" "sources d' = sources d"
      using moved(7) update_claims_other_id [OF di moved(2,3), of "set_claim_state to upd"]
      by (simp_all add: update_claims_def)
    obtain ev where ev: "events d' = events d @ [ev]" "evt_type ev = ''claim.state_changed''" "evt_target_id ev = Some cid"
      "evt_payload_json ev = dumps_sorted (state_changed_payload (clm_state row) to (Some upd))"
      using moved(7) by auto
    have "replays d'"
    proof (rule replays_extend [OF _ ev(1)])
      fix t :: db
      assume "memories t = memories d" "claims t = claims d"
      then show "replays_to ev t (t\<lparr>memories := memories d', claims := claims d'\<rparr>)"
        using replay_claim_state_changed [OF ev(2,3) ne claim_allowed_nonempty [OF moved(4)] ev(4), of t]
        by (simp add: d'' db_update_same(2))
    qed (use assms d'' in \<open>simp_all add: log_ok_def\<close>)
    moreover have "map clm_id (claims d') = map clm_id (claims d)"
      unfolding d''(2) by (rule map_update_ids) simp_all
    then have "clm_id ` set (claims d') = clm_id ` set (claims d)"
      by (metis list.set_map)
    ultimately show ?thesis using t ok assms by (simp add: log_ok_def)
  qed
qed

lemma log_ok_record:
  assumes "log_ok (k_db k)" "\<not> List.member REPLAYED_TYPES ty"
  shows "log_ok (k_db (snd (run_event (record_event now eid u a ty tk tid p tier sess) k)))"
proof (cases "record_event now eid u a ty tk tid p tier sess (k_db k)")
  case (Inr x)
  obtain r d' where x: "x = (r, d')" by fastforce
  note cs = record_event_cases [OF Inr [unfolded x]]
  have "db_ok d'" using record_event_ok [OF Inr [unfolded x]] assms(1) by (simp add: log_ok_def)
  moreover have "replays d'"
    using assms cs(2)
    by (intro replays_skip [of "k_db k" d', OF _ arg_cong [OF cs(2), of events, simplified]])
       (simp_all add: log_ok_def replay_other del: List.member_iff)
  ultimately show ?thesis using assms(1) cs(2) Inr x by (simp add: run_event_def log_ok_def)
qed (use assms in \<open>simp add: run_event_def\<close>)

lemma log_ok_step: "log_ok (k_db k) \<Longrightarrow> op_fresh x (k_db k) \<Longrightarrow> log_ok (k_db (step_op h x k))"
  by (cases x) (simp_all del: op_fresh.simps(1,2) add: log_ok_ingest_memory log_ok_ingest_claim log_ok_transition log_ok_record)

lemma log_ok_run: "log_ok (k_db k) \<Longrightarrow> ops_fresh h xs k \<Longrightarrow> log_ok (k_db (run_ops h xs k))"
  by (induction xs arbitrary: k) (auto intro: log_ok_step)

section \<open>Rebuilding the tables\<close>

lemma sort_key_sorted: "sorted (map f xs) \<Longrightarrow> sort_key f xs = xs"
  by (induction xs) (auto simp: insort_is_Cons)

text \<open>C1: the event log is sufficient. After any history of ingests, transitions (the ones that raise
  included) and other recorded events from the empty store, replaying the log into a store that
  has the sources and nothing else rebuilds \<open>memories\<close> and \<open>claims\<close> exactly, row for row and in
  order, whenever the log's \<open>(created_at, event_id)\<close> order is the order it was written in.\<close>

theorem replay_rebuilds:
  assumes "ops_fresh h ops \<lparr>k_db = empty_db, k_tel = tel0, k_obs = obs0\<rparr>"
    and "k_db (run_ops h ops \<lparr>k_db = empty_db, k_tel = tel0, k_obs = obs0\<rparr>) = d"
    and "sorted (map evt_order (events d))"
    and "memories t = []" "claims t = []" "src_id ` set (sources d) \<subseteq> src_id ` set (sources t)"
  shows "\<exists>s. replay_events d t = Inr (t\<lparr>memories := memories d, claims := claims d\<rparr>, s)"
proof -
  have "replays d"
    using log_ok_run [OF _ assms(1)] log_ok_empty assms(2) by (simp add: log_ok_def)
  moreover have "seeded d t"
    using assms(4-6) by (simp add: seeded_def)
  ultimately obtain s where "fold_res replay_step (events d) (t, zero_summary) =
      Inr (t\<lparr>memories := memories d, claims := claims d\<rparr>, s)"
    unfolding replays_def by blast
  then show ?thesis
    by (simp add: replay_events_def sort_key_sorted [OF assms(3)])
qed

definition demo_ingest :: log_op where
  "demo_ingest = IngestClaim (demo_env ''1'') ''u'' ''s'' ''p'' ''o'' (Some ''web'') (Some (1/2)) ''pending''"

definition demo_history :: "log_op list" where
  "demo_history =
    [demo_ingest, Transition ''2'' ''2'' ''e2'' ''r1'' ''confirmed'' ''system'' (Some ''u''),
     Transition ''3'' ''3'' ''e3'' ''r1'' ''auto'' ''system'' None]"

definition demo_ingested :: db where
  "demo_ingested = (let c = \<lparr>clm_id = ''r1'', clm_user_id = ''u'', clm_subject = ''s'', clm_predicate = ''p'',
       clm_object = ''o'', clm_source_id = ''web'', clm_content_hash = ''s||p||o||web||u'', clm_confidence = Some (1/2),
       clm_state = ''pending'', clm_created_at = ''1'', clm_updated_at = ''1''\<rparr> in
     empty_db\<lparr>sources := [\<lparr>src_id = ''web'', src_uri = ''parallax://external/web'', src_kind = ''external'',
         src_content_hash = ''web'', src_user_id = ''u'', src_ingested_at = ''1'', src_state = ''ingested''\<rparr>],
       claims := [c],
       events := [system_event ''1'' ''e1'' ''u'' ''claim.created'' ''claim'' ''r1'' (claim_payload c)]\<rparr>)"

definition demo_final :: db where
  "demo_final = snd (transition_claim_state id ''2'' ''2'' ''e2'' ''r1'' ''confirmed'' ''system'' (Some ''u'') demo_ingested)"

lemma demo_ingest_effect: "k_db (step_op demo_digests demo_ingest demo_kernel) = demo_ingested"
  by code_simp

lemma demo_history_final: "k_db (run_ops demo_digests demo_history demo_kernel) = demo_final"
proof -
  have "snd (transition_claim_state id ''3'' ''3'' ''e3'' ''r1'' ''auto'' ''system'' None demo_final) = demo_final"
    by code_simp
  then show ?thesis
    by (simp add: demo_history_def demo_ingest_effect demo_final_def)
qed

theorem replay_rebuilds_witness:
  "\<exists>s. replay_events demo_final (demo_final\<lparr>memories := [], claims := []\<rparr>) = Inr (demo_final, s) \<and>
    map clm_state (claims demo_final) = [''confirmed'']"
proof -
  have "op_fresh demo_ingest (k_db demo_kernel)"
    by (simp add: demo_ingest_def demo_env_def demo_kernel_def empty_db_def)
  then have f: "ops_fresh demo_digests demo_history demo_kernel"
    by (simp add: demo_history_def)
  have s: "sorted (map evt_order (events demo_final))" by code_simp
  have "map clm_state (claims demo_final) = [''confirmed'']" by code_simp
  moreover have "\<exists>s. replay_events demo_final (demo_final\<lparr>memories := [], claims := []\<rparr>) =
      Inr ((demo_final\<lparr>memories := [], claims := []\<rparr>)\<lparr>memories := memories demo_final, claims := claims demo_final\<rparr>, s)"
    by (rule replay_rebuilds [OF f [unfolded demo_kernel_def] demo_history_final [unfolded demo_kernel_def] s]) simp_all
  ultimately show ?thesis by simp
qed

section \<open>Back-fill\<close>

lemma insert_events_append:
  "fold_res insert_event es d = Inr d' \<Longrightarrow> d' = d\<lparr>events := events d @ es\<rparr>"
proof (induction es arbitrary: d)
  case (Cons e es)
  then obtain d1 where d1: "insert_event e d = Inr d1" "fold_res insert_event es d1 = Inr d'"
    by (auto simp: and_then_Inr)
  with Cons.IH [OF d1(2)] insert_event_cases(1) [OF d1(1)] show ?case by simp
qed simp

lemma created_after:
  assumes "\<And>x. x \<in> set xs \<Longrightarrow> \<not> has_created d ty kind (f x) \<Longrightarrow>
      \<exists>e \<in> set es. evt_type e = ty \<and> evt_target_kind e = Some kind \<and> evt_target_id e = Some (f x)"
  shows "filter (\<lambda>x. \<not> has_created (d\<lparr>events := events d @ es\<rparr>) ty kind (f x)) xs = []"
  using assms by (auto simp: filter_empty_conv has_created_def list_ex_iff)

lemma in_enum: "x \<in> set xs \<Longrightarrow> \<exists>i. (i, x) \<in> set (enumerate n xs)"
  by (metis imageE map_snd_enumerate set_map surjective_pairing)

lemma backfill_effect:
  assumes "backfill_creation_events ulid d = Inr (s, d')"
  shows "memories d' = memories d" "claims d' = claims d"
    "memories_missing_created d' = []" "claims_missing_created d' = []"
proof -
  let ?ms = "memories_missing_created d" and ?cs = "claims_missing_created d"
  let ?mev = "\<lambda>(i, m). backfill_event (ulid i) (mem_user_id m) ''memory.created'' ''memory'' (mem_id m)
      (mem_created_at m) (memory_payload m)"
  let ?cev = "\<lambda>(i, c). backfill_event (ulid i) (clm_user_id c) ''claim.created'' ''claim'' (clm_id c)
      (clm_created_at c) (claim_payload c)"
  let ?es = "map ?mev (enumerate 0 ?ms) @ map ?cev (enumerate (length ?ms) ?cs)"
  from assms have d': "d' = d\<lparr>events := events d @ ?es\<rparr>"
    by (auto simp: backfill_creation_events_def Let_def and_then_Inr dest: insert_events_append)
  then show "memories d' = memories d" "claims d' = claims d" by simp_all
  have m: "\<exists>e \<in> set ?es. evt_type e = ''memory.created'' \<and> evt_target_kind e = Some ''memory'' \<and> evt_target_id e = Some (mem_id x)"
    if x: "x \<in> set (memories d)" "\<not> has_created d ''memory.created'' ''memory'' (mem_id x)" for x
  proof -
    have "x \<in> set ?ms" using x by (simp add: memories_missing_created_def)
    from in_enum [OF this, of 0] obtain i where "(i, x) \<in> set (enumerate 0 ?ms)" ..
    then have "?mev (i, x) \<in> set ?es" unfolding set_append set_map by (intro UnI1 imageI)
    then show ?thesis by (rule bexI [rotated]) (simp add: backfill_event_def)
  qed
  have c: "\<exists>e \<in> set ?es. evt_type e = ''claim.created'' \<and> evt_target_kind e = Some ''claim'' \<and> evt_target_id e = Some (clm_id x)"
    if x: "x \<in> set (claims d)" "\<not> has_created d ''claim.created'' ''claim'' (clm_id x)" for x
  proof -
    have "x \<in> set ?cs" using x by (simp add: claims_missing_created_def)
    from in_enum [OF this, of "length ?ms"] obtain i where "(i, x) \<in> set (enumerate (length ?ms) ?cs)" ..
    then have "?cev (i, x) \<in> set ?es" unfolding set_append set_map by (intro UnI2 imageI)
    then show ?thesis by (rule bexI [rotated]) (simp add: backfill_event_def)
  qed
  have "filter (\<lambda>x. \<not> has_created d' ''memory.created'' ''memory'' (mem_id x)) (memories d) = []"
    unfolding d' by (rule created_after) (rule m)
  with \<open>memories d' = memories d\<close> show "memories_missing_created d' = []"
    by (simp only: memories_missing_created_def)
  have "filter (\<lambda>x. \<not> has_created d' ''claim.created'' ''claim'' (clm_id x)) (claims d) = []"
    unfolding d' by (rule created_after) (rule c)
  with \<open>claims d' = claims d\<close> show "claims_missing_created d' = []"
    by (simp only: claims_missing_created_def)
qed

text \<open>C9: the back-fill is complete and idempotent: it changes no row, every row has a creation event
  afterwards, and a second call with any ULIDs adds nothing.\<close>

theorem backfill_idempotent:
  assumes "backfill_creation_events ulid d = Inr (s, d')"
  shows "memories d' = memories d \<and> claims d' = claims d \<and>
    backfill_creation_events ulid' d' = Inr (\<lparr>memory_creations_added = 0, claim_creations_added = 0\<rparr>, d')"
  using backfill_effect [OF assms] by (simp add: backfill_creation_events_def Let_def)

theorem backfill_idempotent_witness:
  "\<exists>s d'. backfill_creation_events (\<lambda>i. ''b'' @ dec (int i)) (empty_db\<lparr>claims := [demo_claim]\<rparr>) = Inr (s, d') \<and>
    claim_creations_added s = 1 \<and> length (events d') = 1 \<and>
    backfill_creation_events (\<lambda>i. ''x'') d' = Inr (\<lparr>memory_creations_added = 0, claim_creations_added = 0\<rparr>, d')"
proof -
  let ?r = "backfill_creation_events (\<lambda>i. ''b'' @ dec (int i)) (empty_db\<lparr>claims := [demo_claim]\<rparr>)"
  have "ok ?r" "claim_creations_added (fst (projr ?r)) = 1" "length (events (snd (projr ?r))) = 1"
    by code_simp+
  moreover from this(1) obtain s d' where "?r = Inr (s, d')" by (auto simp: ok_def split: sum.splits)
  ultimately show ?thesis using backfill_idempotent by auto
qed

end
