(* ===== verification/Breaker.thy ===== *)
theory Breaker
  imports Prelude
begin

text \<open>
  \<^verbatim>\<open>parallax/router/circuit_breaker.py\<close>: the rolling-window breaker of the dual-read path. A monotonic
  clock reading is a rational, a wall-clock reading a text; each method runs under the breaker's
  lock, so it is one step. The Prometheus counter belongs to the process and survives a reset.
\<close>

definition WINDOW_SECONDS :: rat where
  "WINDOW_SECONDS = 300"

definition MIN_OBSERVATIONS :: nat where
  "MIN_OBSERVATIONS = 50"

definition TRIP_THRESHOLD :: rat where
  "TRIP_THRESHOLD = 1 / 100"

record BreakerState =
  tripped :: bool
  tripped_at :: "pystr option"
  observations :: "(rat \<times> bool) list"
  tripped_total :: nat

definition initial_breaker :: BreakerState where
  "initial_breaker = \<lparr>tripped = False, tripped_at = None, observations = [], tripped_total = 0\<rparr>"

definition evict_old :: "rat \<Rightarrow> BreakerState \<Rightarrow> BreakerState" where
  "evict_old now_ts b = b\<lparr>observations := evict_loop (now_ts - WINDOW_SECONDS) (observations b)\<rparr>"

definition unreachable_count :: "(rat \<times> bool) list \<Rightarrow> nat" where
  "unreachable_count xs = length (filter snd xs)"

definition record_unreachable_observation :: "rat \<Rightarrow> pystr \<Rightarrow> bool \<Rightarrow> BreakerState \<Rightarrow> BreakerState" where
  "record_unreachable_observation now_ts utc observed_unreachable b =
    (let b1 = evict_old now_ts (b\<lparr>observations := observations b @ [(now_ts, observed_unreachable)]\<rparr>) in
     if tripped b1 then b1
     else let total = length (observations b1) in
       if total < MIN_OBSERVATIONS then b1
       else if TRIP_THRESHOLD < of_nat (unreachable_count (observations b1)) / of_nat total
         then b1\<lparr>tripped := True, tripped_at := Some utc, tripped_total := tripped_total b1 + 1\<rparr>
       else b1)"

definition is_tripped :: "BreakerState \<Rightarrow> bool" where
  "is_tripped b = tripped b"

definition breaker_reset :: "BreakerState \<Rightarrow> BreakerState" where
  "breaker_reset b = b\<lparr>tripped := False, tripped_at := None, observations := []\<rparr>"

definition current_unreachable_rate :: "rat \<Rightarrow> BreakerState \<Rightarrow> rat option \<times> BreakerState" where
  "current_unreachable_rate now_ts b =
    (let b1 = evict_old now_ts b; total = length (observations b1) in
     (if total < MIN_OBSERVATIONS then None
      else Some (of_nat (unreachable_count (observations b1)) / of_nat total), b1))"

definition observation_count :: "rat \<Rightarrow> BreakerState \<Rightarrow> nat \<times> BreakerState" where
  "observation_count now_ts b = (let b1 = evict_old now_ts b in (length (observations b1), b1))"

interpretation obs_window: sliding_window "evict_loop :: rat \<Rightarrow> (rat \<times> bool) list \<Rightarrow> (rat \<times> bool) list"
  by unfold_locales (rule evict_loop_suffix, rule evict_loop_head)

section \<open>Runs between two resets\<close>

text \<open>Any sequence of observations and reads by any threads, in the order they took the lock.\<close>

datatype breaker_op = Observe rat pystr bool | ReadRate rat | ReadCount rat

fun op_time :: "breaker_op \<Rightarrow> rat" where
  "op_time (Observe t utc u) = t"
| "op_time (ReadRate t) = t"
| "op_time (ReadCount t) = t"

fun run_breaker :: "breaker_op \<Rightarrow> BreakerState \<Rightarrow> BreakerState" where
  "run_breaker (Observe t utc u) b = record_unreachable_observation t utc u b"
| "run_breaker (ReadRate t) b = snd (current_unreachable_rate t b)"
| "run_breaker (ReadCount t) b = snd (observation_count t b)"

fun observed :: "breaker_op list \<Rightarrow> (rat \<times> bool) list" where
  "observed [] = []"
| "observed (Observe t utc u # ops) = (t, u) # observed ops"
| "observed (ReadRate t # ops) = observed ops"
| "observed (ReadCount t # ops) = observed ops"

definition in_window :: "rat \<Rightarrow> (rat \<times> bool) list \<Rightarrow> (rat \<times> bool) list" where
  "in_window now xs = filter (\<lambda>x. now - 300 \<le> fst x) xs"

text \<open>What the breaker promises to react to: at the last sample of \<open>xs\<close>, at least 50 samples of the last
  five minutes, more than one in a hundred of them unreachable.\<close>

definition unhealthy :: "(rat \<times> bool) list \<Rightarrow> bool" where
  "unhealthy xs \<longleftrightarrow> xs \<noteq> [] \<and>
     (let w = in_window (fst (last xs)) xs in 50 \<le> length w \<and> length w < 100 * length (filter snd w))"

definition ever_unhealthy :: "(rat \<times> bool) list \<Rightarrow> bool" where
  "ever_unhealthy xs \<longleftrightarrow> (\<exists>n \<le> length xs. unhealthy (take n xs))"

lemma observed_append: "observed (xs @ ys) = observed xs @ observed ys"
  by (induction xs rule: observed.induct) auto

lemma observed_sorted: "sorted (map op_time ops) \<Longrightarrow> sorted (map fst (observed ops))"
  and observed_times: "fst ` set (observed ops) \<subseteq> op_time ` set ops"
proof -
  show sub: "fst ` set (observed ops) \<subseteq> op_time ` set ops" for ops
    by (induction ops rule: observed.induct) auto
  show "sorted (map op_time ops) \<Longrightarrow> sorted (map fst (observed ops))"
    using sub by (induction ops rule: observed.induct) force+
qed

lemma rate_exceeds: "0 < n \<Longrightarrow> TRIP_THRESHOLD < of_nat c / of_nat n \<longleftrightarrow> n < 100 * c"
proof -
  assume n: "0 < n"
  have "TRIP_THRESHOLD < of_nat c / of_nat n \<longleftrightarrow> (of_nat n :: rat) < of_nat (100 * c)"
    using n by (simp add: TRIP_THRESHOLD_def field_simps)
  then show ?thesis by (simp only: of_nat_less_iff)
qed

lemma evict_in_window:
  assumes "sorted (map fst xs)" "\<And>x. x \<in> set xs \<Longrightarrow> fst x \<le> c" "c \<le> t"
  shows "evict_loop (t - 300) (in_window c xs) = in_window t xs"
proof -
  have "sorted (map fst (in_window c xs))"
    using assms(1) by (simp add: in_window_def sorted_filter)
  from obs_window.evict_window [OF this, of "t - 300"] assms(3) show ?thesis
    by (auto simp: in_window_def intro: filter_cong)
qed

text \<open>The clock of a run: the time of its last operation.\<close>

definition run_inv :: "BreakerState \<Rightarrow> breaker_op list \<Rightarrow> BreakerState \<Rightarrow> bool" where
  "run_inv b0 ops b \<longleftrightarrow>
     observations b = (if ops = [] then [] else in_window (op_time (last ops)) (observed ops)) \<and>
     (tripped b \<longleftrightarrow> ever_unhealthy (observed ops)) \<and>
     tripped_total b = tripped_total b0 + (if tripped b then 1 else 0)"

lemma ever_unhealthy_snoc: "ever_unhealthy (xs @ [x]) \<longleftrightarrow> ever_unhealthy xs \<or> unhealthy (xs @ [x])"
proof -
  have "(\<exists>n \<le> Suc (length xs). P n) \<longleftrightarrow> (\<exists>n \<le> length xs. P n) \<or> P (Suc (length xs))" for P
    by (auto simp: le_Suc_eq)
  then show ?thesis by (auto simp: ever_unhealthy_def cong: conj_cong)
qed

lemma evicted_run:
  assumes inv: "run_inv b0 ops b" and so: "sorted (map op_time (ops @ [x]))"
  shows "evict_loop (op_time x - 300) (observations b) = in_window (op_time x) (observed ops)"
proof (cases "ops = []")
  case False
  have le: "op_time y \<le> op_time (last ops)" if "y \<in> set ops" for y
    using so that False sorted_append [of "map op_time (butlast ops)" "[op_time (last ops)]"]
    by (cases ops rule: rev_cases) (auto simp: sorted_append)
  have "fst y \<le> op_time (last ops)" if "y \<in> set (observed ops)" for y
    using that observed_times [of ops] le by fastforce
  then show ?thesis
    using inv so False observed_sorted [of ops]
    by (simp add: run_inv_def sorted_append) (rule evict_in_window, simp_all)
qed (use inv in \<open>simp add: run_inv_def in_window_def\<close>)

lemma evict_loop_snoc: "c \<le> fst x \<Longrightarrow> evict_loop c (xs @ [x]) = evict_loop c xs @ [x]"
  by (induction xs) auto

lemma run_inv_read:
  assumes "run_inv b0 ops b" "sorted (map op_time (ops @ [x]))" "observed [x] = []"
  shows "run_inv b0 (ops @ [x]) (evict_old (op_time x) b)"
  using assms evicted_run [OF assms(1,2)]
  by (simp add: run_inv_def evict_old_def WINDOW_SECONDS_def observed_append)

lemma run_inv_observe:
  assumes inv: "run_inv b0 ops b" and so: "sorted (map op_time (ops @ [Observe t utc u]))"
  shows "run_inv b0 (ops @ [Observe t utc u]) (record_unreachable_observation t utc u b)"
proof -
  let ?xs = "observed ops @ [(t, u)]" and ?b' = "record_unreachable_observation t utc u b"
  let ?w = "in_window t ?xs"
  have w: "evict_loop (t - WINDOW_SECONDS) (observations b @ [(t, u)]) = ?w"
    using evicted_run [OF inv so] by (simp add: WINDOW_SECONDS_def evict_loop_snoc in_window_def)
  have obs: "observations ?b' = ?w"
    using w by (simp add: record_unreachable_observation_def evict_old_def Let_def)
  have new: "unhealthy ?xs \<longleftrightarrow> 50 \<le> length ?w \<and> length ?w < 100 * length (filter snd ?w)"
    by (simp add: unhealthy_def Let_def)
  have trip: "TRIP_THRESHOLD < of_nat (unreachable_count ?w) / of_nat (length ?w) \<longleftrightarrow> length ?w < 100 * length (filter snd ?w)"
    if "50 \<le> length ?w"
    using that unfolding unreachable_count_def by (intro rate_exceeds) linarith
  have "tripped ?b' \<longleftrightarrow> tripped b \<or> unhealthy ?xs"
    "tripped_total ?b' = tripped_total b + (if \<not> tripped b \<and> unhealthy ?xs then 1 else 0)"
    using w new trip
    by (auto simp: record_unreachable_observation_def evict_old_def Let_def MIN_OBSERVATIONS_def not_less)
  with inv obs show ?thesis
    by (auto simp: run_inv_def observed_append ever_unhealthy_snoc)
qed

lemma run_inv_step:
  assumes "run_inv b0 ops b" "sorted (map op_time (ops @ [x]))"
  shows "run_inv b0 (ops @ [x]) (run_breaker x b)"
  using assms run_inv_read [OF assms] run_inv_observe
  by (cases x) (auto simp: current_unreachable_rate_def observation_count_def Let_def)

lemma run_inv_run:
  "sorted (map op_time ops) \<Longrightarrow> run_inv b ops (fold run_breaker ops (breaker_reset b))"
proof (induction ops rule: rev_induct)
  case Nil
  then show ?case by (simp add: run_inv_def breaker_reset_def ever_unhealthy_def unhealthy_def)
next
  case (snoc x ops)
  then have "run_inv b ops (fold run_breaker ops (breaker_reset b))"
    by (simp add: sorted_append)
  from run_inv_step [OF this snoc.prems] show ?case by simp
qed

text \<open>C8: between two resets, for any interleaving of observations and reads on a clock that does not
  go back, the breaker is open exactly when some observation so far saw an unhealthy window, it
  never closes by itself, and the trip counter has been incremented exactly once if it is open and
  not at all otherwise.\<close>

theorem breaker_trips_exactly:
  assumes "sorted (map op_time ops)"
  shows "let b' = fold run_breaker ops (breaker_reset b) in
    (is_tripped b' \<longleftrightarrow> ever_unhealthy (observed ops)) \<and>
    tripped_total b' = tripped_total b + (if is_tripped b' then 1 else 0)"
  using run_inv_run [OF assms, of b] by (simp add: run_inv_def is_tripped_def Let_def)

definition demo_ops :: "breaker_op list" where
  "demo_ops = replicate 49 (Observe 0 ''a'' False) @ [Observe 1 ''b'' True, ReadRate 60, Observe 900 ''c'' False]"

lemma observed_replicate: "observed (replicate n (Observe t utc u)) = replicate n (t, u)"
  by (induction n) auto

theorem breaker_trips_exactly_witness:
  "is_tripped (fold run_breaker demo_ops (breaker_reset initial_breaker))"
proof -
  have s: "sorted (map op_time demo_ops)"
    by (simp add: demo_ops_def sorted_append)
  have "take 50 (observed demo_ops) = replicate 49 (0, False) @ [(1, True)]" "50 \<le> length (observed demo_ops)"
    by (simp_all add: demo_ops_def observed_append observed_replicate)
  moreover have "unhealthy (replicate 49 (0, False) @ [(1, True)])"
    by (simp add: unhealthy_def in_window_def filter_replicate)
  ultimately have "ever_unhealthy (observed demo_ops)"
    unfolding ever_unhealthy_def by metis
  with breaker_trips_exactly [OF s, of initial_breaker] show ?thesis
    unfolding Let_def by blast
qed

end
