(* ===== verification/Triggers.thy ===== *)
theory Triggers
  imports Prelude
begin

text \<open>
  \<^verbatim>\<open>parallax/canary/triggers.py\<close>: the four rollback triggers and the sample-size gate. Each keeps its
  own window; \<^verbatim>\<open>evaluate\<close> evicts, so it returns the verdict and the trigger it leaves. Time stamps,
  latencies and rates are rationals.
\<close>

datatype TriggerVerdict = PASS | BREACH | INSUFFICIENT_DATA

record TriggerEvaluation =
  trigger_id :: pystr
  verdict :: TriggerVerdict
  metric_value :: rat
  threshold :: rat
  window_seconds :: "rat option"
  observations :: nat

definition T1_THRESHOLD :: rat where "T1_THRESHOLD = 5 / 1000"
definition T2_THRESHOLD :: rat where "T2_THRESHOLD = 5 / 1000"
definition T3_THRESHOLD_MS :: rat where "T3_THRESHOLD_MS = 100"
definition T4_THRESHOLD :: int where "T4_THRESHOLD = 0"
definition T5_MIN_HITS :: nat where "T5_MIN_HITS = 50"
definition WINDOW_T1_SECONDS :: rat where "WINDOW_T1_SECONDS = 300"
definition WINDOW_T2_SECONDS :: rat where "WINDOW_T2_SECONDS = 180"
definition WINDOW_T3_SECONDS :: rat where "WINDOW_T3_SECONDS = 300"
definition WINDOW_T5_SECONDS :: rat where "WINDOW_T5_SECONDS = 300"

type_synonym window = "(rat \<times> rat) list"

definition window_add :: "rat \<Rightarrow> rat \<Rightarrow> window \<Rightarrow> window" where
  "window_add ts v w = w @ [(ts, v)]"

definition window_evict :: "rat \<Rightarrow> rat \<Rightarrow> window \<Rightarrow> window" where
  "window_evict seconds now w = evict_loop (now - seconds) w"

definition window_values :: "rat \<Rightarrow> rat \<Rightarrow> window \<Rightarrow> rat list \<times> window" where
  "window_values seconds now w = (let w' = window_evict seconds now w in (map snd w', w'))"

definition window_count :: "rat \<Rightarrow> rat \<Rightarrow> window \<Rightarrow> nat \<times> window" where
  "window_count seconds now w = (let w' = window_evict seconds now w in (length w', w'))"

interpretation trigger_window: sliding_window "evict_loop :: rat \<Rightarrow> window \<Rightarrow> window"
  by unfold_locales (rule evict_loop_suffix, rule evict_loop_head)

section \<open>T1 and T2: rates\<close>

definition flag :: "bool \<Rightarrow> rat" where
  "flag b = (if b then 1 else 0)"

definition t1_record :: "rat \<Rightarrow> bool \<Rightarrow> window \<Rightarrow> window" where
  "t1_record ts is_error w = window_add ts (flag is_error) w"

definition t1_evaluate :: "rat \<Rightarrow> window \<Rightarrow> TriggerEvaluation \<times> window" where
  "t1_evaluate now w =
    (let (values, w') = window_values WINDOW_T1_SECONDS now w; n = length values;
         rate = (if n = 0 then 0 else sum_list values / of_nat n)
     in (\<lparr>trigger_id = ''T1-error-rate'', verdict = (if 0 < n \<and> T1_THRESHOLD \<le> rate then BREACH else PASS),
          metric_value = rate, threshold = T1_THRESHOLD, window_seconds = Some WINDOW_T1_SECONDS,
          observations = n\<rparr>, w'))"

definition t2_record :: "rat \<Rightarrow> bool \<Rightarrow> window \<Rightarrow> window" where
  "t2_record ts is_mismatch w = window_add ts (flag is_mismatch) w"

definition t2_evaluate :: "rat \<Rightarrow> window \<Rightarrow> TriggerEvaluation \<times> window" where
  "t2_evaluate now w =
    (let (values, w') = window_values WINDOW_T2_SECONDS now w; n = length values;
         rate = (if n = 0 then 0 else sum_list values / of_nat n)
     in (\<lparr>trigger_id = ''T2-discrepancy-rate'', verdict = (if 0 < n \<and> T2_THRESHOLD \<le> rate then BREACH else PASS),
          metric_value = rate, threshold = T2_THRESHOLD, window_seconds = Some WINDOW_T2_SECONDS,
          observations = n\<rparr>, w'))"

section \<open>T3: nearest-rank p99\<close>

definition t3_record :: "rat \<Rightarrow> rat \<Rightarrow> window \<Rightarrow> window" where
  "t3_record ts latency_ms w = window_add ts latency_ms w"

definition p99_index :: "nat \<Rightarrow> nat" where
  "p99_index n = nat (max 0 (min (int n - 1) (\<lceil>99 / 100 * of_nat n :: rat\<rceil> - 1)))"

definition t3_evaluate :: "rat \<Rightarrow> window \<Rightarrow> TriggerEvaluation \<times> window" where
  "t3_evaluate now w =
    (let (values, w') = window_values WINDOW_T3_SECONDS now w; n = length values
     in if n = 0 then
          (\<lparr>trigger_id = ''T3-p99-latency'', verdict = PASS, metric_value = 0, threshold = T3_THRESHOLD_MS,
            window_seconds = Some WINDOW_T3_SECONDS, observations = 0\<rparr>, w')
        else let p99 = sort values ! p99_index n in
          (\<lparr>trigger_id = ''T3-p99-latency'', verdict = (if T3_THRESHOLD_MS \<le> p99 then BREACH else PASS),
            metric_value = p99, threshold = T3_THRESHOLD_MS, window_seconds = Some WINDOW_T3_SECONDS,
            observations = n\<rparr>, w'))"

section \<open>T4: data loss\<close>

definition t4_record :: "int \<Rightarrow> int \<Rightarrow> kernel_error + int" where
  "t4_record count c = (if count < 0 then Inl (ValueError ''data_loss count must be non-negative'') else Inr (c + count))"

definition t4_evaluate :: "int \<Rightarrow> TriggerEvaluation" where
  "t4_evaluate c =
    \<lparr>trigger_id = ''T4-data-loss'', verdict = (if T4_THRESHOLD < c then BREACH else PASS),
     metric_value = of_int c, threshold = of_int T4_THRESHOLD, window_seconds = None, observations = nat c\<rparr>"

section \<open>T5: the gate\<close>

definition t5_record :: "rat \<Rightarrow> window \<Rightarrow> window" where
  "t5_record ts w = window_add ts 1 w"

definition t5_hits :: "rat \<Rightarrow> window \<Rightarrow> nat \<times> window" where
  "t5_hits now w = window_count WINDOW_T5_SECONDS now w"

definition t5_is_active :: "rat \<Rightarrow> window \<Rightarrow> bool \<times> window" where
  "t5_is_active now w = (let (n, w') = t5_hits now w in (n < T5_MIN_HITS, w'))"

definition t5_evaluate :: "rat \<Rightarrow> window \<Rightarrow> TriggerEvaluation \<times> window" where
  "t5_evaluate now w = (let (n, w') = t5_hits now w in
    (\<lparr>trigger_id = ''T5-min-hits-gate'', verdict = (if n < T5_MIN_HITS then INSUFFICIENT_DATA else PASS),
      metric_value = of_nat n, threshold = of_nat T5_MIN_HITS, window_seconds = Some WINDOW_T5_SECONDS,
      observations = n\<rparr>, w'))"

section \<open>What each trigger decides\<close>

lemma evict_values:
  "sorted (map fst w) \<Longrightarrow> window_evict s now w = filter (\<lambda>x. now - s \<le> fst x) w"
  unfolding window_evict_def by (rule trigger_window.evict_window)

lemma flags_sum: "sum_list (map (\<lambda>x. flag (f x)) xs) = of_nat (length (filter f xs))"
  by (induction xs) (auto simp: flag_def)

definition recent :: "rat \<Rightarrow> rat \<Rightarrow> (rat \<times> 'a) list \<Rightarrow> (rat \<times> 'a) list" where
  "recent s now xs = filter (\<lambda>x. now - s \<le> fst x) xs"

definition flag_window :: "(rat \<times> bool) list \<Rightarrow> window" where
  "flag_window xs = map (\<lambda>(t, b). (t, flag b)) xs"

lemma recent_flag_window: "recent s now (flag_window xs) = flag_window (recent s now xs)"
  by (simp add: flag_window_def recent_def filter_map comp_def case_prod_unfold)

lemma flag_window_sum: "sum_list (map snd (flag_window xs)) = of_nat (length (filter snd xs))"
  using flags_sum [of snd xs] by (simp add: flag_window_def comp_def case_prod_unfold)

lemma rate_breach:
  "0 < length w \<and> 5 / 1000 \<le> (if length w = 0 then 0 else of_nat c / of_nat (length w) :: rat) \<longleftrightarrow>
     w \<noteq> [] \<and> length w \<le> 200 * c"
proof (cases "w = []")
  case False
  then have "5 / 1000 \<le> (of_nat c / of_nat (length w) :: rat) \<longleftrightarrow> (of_nat (length w) :: rat) \<le> of_nat (200 * c)"
    by (simp add: field_simps)
  also have "... \<longleftrightarrow> length w \<le> 200 * c" by (rule of_nat_le_iff)
  finally show ?thesis using False by simp
qed simp

lemma flag_window_length [simp]: "length (flag_window xs) = length xs" "flag_window xs = [] \<longleftrightarrow> xs = []"
  by (simp_all add: flag_window_def)

definition rate_alarm :: "(rat \<times> bool) list \<Rightarrow> bool" where
  "rate_alarm w \<longleftrightarrow> w \<noteq> [] \<and> length w \<le> 200 * length (filter snd w)"

lemma t1_verdict:
  assumes "window_evict 300 now w = flag_window xs"
  shows "verdict (fst (t1_evaluate now w)) = (if rate_alarm xs then BREACH else PASS)"
  unfolding rate_alarm_def rate_breach [symmetric]
  by (simp only: t1_evaluate_def window_values_def Let_def assms WINDOW_T1_SECONDS_def
      T1_THRESHOLD_def prod.case fst_conv length_map flag_window_sum flag_window_length TriggerEvaluation.simps)

lemma t2_verdict:
  assumes "window_evict 180 now w = flag_window xs"
  shows "verdict (fst (t2_evaluate now w)) = (if rate_alarm xs then BREACH else PASS)"
  unfolding rate_alarm_def rate_breach [symmetric]
  by (simp only: t2_evaluate_def window_values_def Let_def assms WINDOW_T2_SECONDS_def
      T2_THRESHOLD_def prod.case fst_conv length_map flag_window_sum flag_window_length TriggerEvaluation.simps)

text \<open>Nearest rank on a sorted list: the sample at rank \<open>k\<close> reaches a bound when few samples are below it.\<close>

lemma sorted_nth_ge:
  assumes "sorted (xs :: 'a::linorder list)" "k < length xs"
  shows "b \<le> xs ! k \<longleftrightarrow> length xs - k \<le> length (filter (\<lambda>v. b \<le> v) xs)"
proof
  assume b: "b \<le> xs ! k"
  have "\<forall>v \<in> set (drop k xs). b \<le> v"
  proof
    fix v
    assume "v \<in> set (drop k xs)"
    then obtain i where "i < length xs - k" "v = xs ! (k + i)" by (auto simp: in_set_conv_nth)
    then show "b \<le> v" using assms b sorted_nth_mono [of xs k "k + i"] by (auto intro: order_trans)
  qed
  then have "length (filter (\<lambda>v. b \<le> v) (drop k xs)) = length xs - k" by simp
  moreover have "length (filter (\<lambda>v. b \<le> v) xs) = length (filter (\<lambda>v. b \<le> v) (take k xs)) + length (filter (\<lambda>v. b \<le> v) (drop k xs))"
    by (metis append_take_drop_id filter_append length_append)
  ultimately show "length xs - k \<le> length (filter (\<lambda>v. b \<le> v) xs)" by simp
next
  assume len: "length xs - k \<le> length (filter (\<lambda>v. b \<le> v) xs)"
  show "b \<le> xs ! k"
  proof (rule ccontr)
    assume nb: "\<not> b \<le> xs ! k"
    have "\<forall>v \<in> set (take (Suc k) xs). \<not> b \<le> v"
    proof
      fix v
      assume "v \<in> set (take (Suc k) xs)"
      then obtain i where "i \<le> k" "v = xs ! i" using assms(2) by (auto simp: in_set_conv_nth less_Suc_eq_le)
      then show "\<not> b \<le> v" using assms nb sorted_nth_mono [of xs i k] by simp
    qed
    then have "filter (\<lambda>v. b \<le> v) (take (Suc k) xs) = []" by (simp add: filter_empty_conv)
    then have "filter (\<lambda>v. b \<le> v) xs = filter (\<lambda>v. b \<le> v) (drop (Suc k) xs)"
      by (metis append_Nil append_take_drop_id filter_append)
    then have "length (filter (\<lambda>v. b \<le> v) xs) \<le> length (drop (Suc k) xs)"
      using length_filter_le by metis
    then show False using len assms(2) by simp
  qed
qed

lemma p99_index_div: "0 < n \<Longrightarrow> n - p99_index n = n div 100 + 1 \<and> p99_index n < n"
proof -
  assume n: "0 < n"
  have "99 / 100 * of_nat n = (of_int (99 * int n) / of_int 100 :: rat)" by simp
  then have c: "\<lceil>99 / 100 * of_nat n :: rat\<rceil> = int n - int n div 100"
    by (simp only: ceiling_divide_eq_div)
  show ?thesis unfolding p99_index_def c using n by (auto simp: min_def max_def zdiv_int)
qed

definition slow :: "(rat \<times> rat) list \<Rightarrow> bool" where
  "slow w \<longleftrightarrow> length w div 100 < length (filter (\<lambda>x. 100 \<le> snd x) w)"

lemma t3_verdict:
  assumes "window_evict 300 now w = xs"
  shows "verdict (fst (t3_evaluate now w)) = (if slow xs then BREACH else PASS)"
proof (cases "xs = []")
  case True
  with assms show ?thesis
    by (simp add: t3_evaluate_def window_values_def WINDOW_T3_SECONDS_def Let_def slow_def)
next
  case False
  let ?vs = "map snd xs"
  have "length (filter (\<lambda>v. 100 \<le> v) (sort ?vs)) = length (filter (\<lambda>v. 100 \<le> v) ?vs)"
    by (simp add: filter_sort)
  moreover have "length (filter (\<lambda>v. 100 \<le> v) ?vs) = length (filter (\<lambda>x. 100 \<le> snd x) xs)"
    by (simp add: filter_map comp_def)
  ultimately have "100 \<le> sort ?vs ! p99_index (length xs) \<longleftrightarrow> slow xs"
    using sorted_nth_ge [of "sort ?vs" "p99_index (length xs)" 100] p99_index_div [of "length xs"] False
    by (auto simp: slow_def)
  with assms False show ?thesis
    by (simp add: t3_evaluate_def window_values_def WINDOW_T3_SECONDS_def T3_THRESHOLD_MS_def Let_def)
qed

lemma t5_verdict:
  "verdict (fst (t5_evaluate now w)) = (if length (window_evict 300 now w) < 50 then INSUFFICIENT_DATA else PASS)"
  by (simp add: t5_evaluate_def t5_hits_def window_count_def WINDOW_T5_SECONDS_def T5_MIN_HITS_def Let_def)

end
