(* ===== verification/Audit_Log.thy ===== *)
theory Audit_Log
  imports Prelude
begin

text \<open>
  The three stores of the canary, all fire-and-forget upserts into one SQLite file:
  \<^verbatim>\<open>canary/audit_log.py\<close>, \<^verbatim>\<open>canary/outcomes.py\<close> and \<^verbatim>\<open>canary/rollback_state.py\<close>. The argument \<open>io\<close> of an
  operation says whether the statement it executes succeeds; a failure is swallowed by the code.
  \<open>now\<close> is the clock of SQLite (a column default) or of the process.
\<close>

section \<open>audit_log\<close>

record AuditRecord =
  event_id :: pystr
  request_at_iso :: pystr
  response_status :: int
  latency_ms :: "rat option"
  idempotency_hit :: bool
  created_at :: pystr
  ack_by :: "pystr option"
  ack_at :: "pystr option"

record audit_row = AuditRecord +
  response_body :: "pystr option"

definition coalesce :: "'a option \<Rightarrow> 'a option \<Rightarrow> 'a option" where
  "coalesce a b = (case a of None \<Rightarrow> b | Some _ \<Rightarrow> a)"

definition merge_audit :: "audit_row \<Rightarrow> audit_row \<Rightarrow> audit_row" where
  "merge_audit old new = old\<lparr>request_at_iso := request_at_iso new, response_status := response_status new,
     latency_ms := latency_ms new, idempotency_hit := idempotency_hit new,
     response_body := coalesce (response_body new) (response_body old),
     ack_by := coalesce (ack_by new) (ack_by old), ack_at := coalesce (ack_at new) (ack_at old)\<rparr>"

definition audit_record :: "bool \<Rightarrow> pystr \<Rightarrow> AuditRecord \<Rightarrow> pystr option \<Rightarrow> audit_row list \<Rightarrow> bool \<times> audit_row list" where
  "audit_record io now r body rows =
    (if io then (True, upsert event_id merge_audit
       \<lparr>event_id = event_id r, request_at_iso = request_at_iso r, response_status = response_status r,
        latency_ms = latency_ms r, idempotency_hit = idempotency_hit r, created_at = now,
        ack_by = ack_by r, ack_at = ack_at r, response_body = body\<rparr> rows)
     else (False, rows))"

definition audit_row_of :: "pystr \<Rightarrow> audit_row list \<Rightarrow> audit_row option" where
  "audit_row_of eid rows = List.find (\<lambda>r. event_id r = eid) rows"

definition audit_lookup :: "bool \<Rightarrow> pystr \<Rightarrow> audit_row list \<Rightarrow> AuditRecord option" where
  "audit_lookup io eid rows =
    (if io then map_option (\<lambda>r. \<lparr>event_id = event_id r, request_at_iso = request_at_iso r,
        response_status = response_status r, latency_ms = latency_ms r, idempotency_hit = idempotency_hit r,
        created_at = created_at r, ack_by = ack_by r, ack_at = ack_at r\<rparr>) (audit_row_of eid rows)
     else None)"

definition lookup_response :: "bool \<Rightarrow> pystr \<Rightarrow> audit_row list \<Rightarrow> pystr option" where
  "lookup_response io eid rows =
    (if io then (case audit_row_of eid rows of None \<Rightarrow> None | Some r \<Rightarrow> response_body r) else None)"

definition merge_ack :: "audit_row \<Rightarrow> audit_row \<Rightarrow> audit_row" where
  "merge_ack old new = old\<lparr>ack_by := ack_by new, ack_at := ack_at new\<rparr>"

text \<open>Python's \<^verbatim>\<open>x or y\<close> on an optional text.\<close>

definition or_text :: "pystr option \<Rightarrow> pystr \<Rightarrow> pystr" where
  "or_text x y = (case x of None \<Rightarrow> y | Some s \<Rightarrow> if s = [] then y else s)"

definition record_ack :: "bool \<Rightarrow> pystr \<Rightarrow> pystr \<Rightarrow> pystr \<Rightarrow> pystr option \<Rightarrow> audit_row list \<Rightarrow> bool \<times> audit_row list" where
  "record_ack io now eid who at_time rows =
    (if who = [] then (False, rows)
     else let ts = or_text at_time now in
       if io then (True, upsert event_id merge_ack
         \<lparr>event_id = eid, request_at_iso = ts, response_status = 0, latency_ms = None, idempotency_hit = False,
          created_at = now, ack_by = Some who, ack_at = Some ts, response_body = None\<rparr> rows)
       else (False, rows))"

definition make_record :: "pystr \<Rightarrow> pystr \<Rightarrow> int \<Rightarrow> rat option \<Rightarrow> bool \<Rightarrow> pystr option \<Rightarrow> AuditRecord" where
  "make_record now eid status lat hit requested_at =
    \<lparr>event_id = eid, request_at_iso = or_text requested_at now, response_status = status, latency_ms = lat,
     idempotency_hit = hit, created_at = [], ack_by = None, ack_at = None\<rparr>"

section \<open>canary_outcomes\<close>

definition KNOWN_STAGES :: "pystr list" where
  "KNOWN_STAGES = [''m4_1pct'', ''m4_10pct'', ''m4_50pct'', ''m4_100pct'']"

definition KNOWN_OUTCOMES :: "pystr list" where
  "KNOWN_OUTCOMES = [''ok'', ''discrepancy'', ''data_loss'']"

record OutcomeRecord =
  out_event_id :: pystr
  stage :: pystr
  outcome :: pystr
  recorded_at :: pystr

text \<open>Without a time stamp the update keeps the stored one.\<close>

definition merge_outcome :: "bool \<Rightarrow> OutcomeRecord \<Rightarrow> OutcomeRecord \<Rightarrow> OutcomeRecord" where
  "merge_outcome timed old new = (let r = old\<lparr>stage := stage new, outcome := outcome new\<rparr> in
     if timed then r\<lparr>recorded_at := recorded_at new\<rparr> else r)"

definition outcome_record ::
  "bool \<Rightarrow> pystr \<Rightarrow> pystr \<Rightarrow> pystr \<Rightarrow> pystr \<Rightarrow> pystr option \<Rightarrow> OutcomeRecord list \<Rightarrow> kernel_error + bool \<times> OutcomeRecord list" where
  "outcome_record io now eid st oc at_time rows =
    (if \<not> List.member KNOWN_STAGES st then Inl (ValueError ''Unknown canary stage'')
     else if \<not> List.member KNOWN_OUTCOMES oc then Inl (ValueError ''Unknown canary outcome'')
     else if io then Inr (True, upsert out_event_id (merge_outcome (at_time \<noteq> None))
       \<lparr>out_event_id = eid, stage = st, outcome = oc,
        recorded_at = (case at_time of None \<Rightarrow> now | Some t \<Rightarrow> t)\<rparr> rows)
     else Inr (False, rows))"

definition outcome_lookup :: "bool \<Rightarrow> pystr \<Rightarrow> OutcomeRecord list \<Rightarrow> OutcomeRecord option" where
  "outcome_lookup io eid rows = (if io then List.find (\<lambda>r. out_event_id r = eid) rows else None)"

definition iter_stage :: "pystr \<Rightarrow> OutcomeRecord list \<Rightarrow> kernel_error + OutcomeRecord list" where
  "iter_stage st rows =
    (if \<not> List.member KNOWN_STAGES st then Inl (ValueError ''Unknown canary stage'')
     else Inr (sort_key recorded_at (filter (\<lambda>r. stage r = st) rows)))"

section \<open>canary_rollback_state\<close>

record state_row =
  row_state :: pystr
  row_tripped_by :: "pystr option"

definition STATE_VALUES :: "(pystr \<times> int) list" where
  "STATE_VALUES = [(''running'', 0), (''tripped'', 1), (''awaiting_ack'', 2)]"

text \<open>The store after a failed open has no connection (\<open>None\<close>); otherwise it holds the single row, if any.\<close>

type_synonym state_store = "state_row option option"

definition state_record :: "bool \<Rightarrow> pystr \<Rightarrow> pystr option \<Rightarrow> state_store \<Rightarrow> kernel_error + bool \<times> state_store" where
  "state_record io st who store =
    (case store of None \<Rightarrow> Inr (False, None)
     | Some _ \<Rightarrow>
       if map_of STATE_VALUES st = None then Inl (ValueError ''Unknown canary rollback state'')
       else if io then Inr (True, Some (Some \<lparr>row_state = st, row_tripped_by = who\<rparr>))
       else Inr (False, store))"

section \<open>Laws of the stores\<close>

lemma merge_keys [simp]:
  "event_id (merge_audit old new) = event_id old" "event_id (merge_ack old new) = event_id old"
  "out_event_id (merge_outcome timed old1 new1) = out_event_id old1"
  by (simp_all add: merge_audit_def merge_ack_def merge_outcome_def Let_def)

interpretation audit: upsert_table event_id merge_audit "upsert event_id merge_audit"
  by (rule upsert_laws) simp

interpretation ack: upsert_table event_id merge_ack "upsert event_id merge_ack"
  by (rule upsert_laws) simp

interpretation outcomes: upsert_table out_event_id "merge_outcome timed" "upsert out_event_id (merge_outcome timed)"
  for timed
  by (rule upsert_laws) simp

text \<open>Neither a repeated record nor an acknowledgement takes the cached response away, moves the
  creation time, or touches another row.\<close>

lemma audit_record_row:
  "audit_row_of eid (snd (audit_record io now r body rows)) =
    (if io \<and> eid = event_id r then Some (case audit_row_of eid rows of
        None \<Rightarrow> \<lparr>event_id = event_id r, request_at_iso = request_at_iso r, response_status = response_status r,
          latency_ms = latency_ms r, idempotency_hit = idempotency_hit r, created_at = now,
          ack_by = ack_by r, ack_at = ack_at r, response_body = body\<rparr>
      | Some old \<Rightarrow> merge_audit old \<lparr>event_id = event_id r, request_at_iso = request_at_iso r,
          response_status = response_status r, latency_ms = latency_ms r, idempotency_hit = idempotency_hit r,
          created_at = now, ack_by = ack_by r, ack_at = ack_at r, response_body = body\<rparr>)
     else audit_row_of eid rows)"
  using audit.get_ups_same [of "\<lparr>event_id = event_id r, request_at_iso = request_at_iso r, response_status = response_status r,
          latency_ms = latency_ms r, idempotency_hit = idempotency_hit r, created_at = now,
          ack_by = ack_by r, ack_at = ack_at r, response_body = body\<rparr>" rows]
    audit.get_ups_other [of eid "\<lparr>event_id = event_id r, request_at_iso = request_at_iso r, response_status = response_status r,
          latency_ms = latency_ms r, idempotency_hit = idempotency_hit r, created_at = now,
          ack_by = ack_by r, ack_at = ack_at r, response_body = body\<rparr>" rows]
  by (auto simp: audit_record_def audit_row_of_def audit.get_def)

end
