(* ===== verification/Event_Id.thy ===== *)
theory Event_Id
  imports Prelude "HOL-Library.Word"
begin

text \<open>
  \<^verbatim>\<open>parallax/canary/event_id.py\<close>: minting and recognising UUID version 7, with what the source uses of
  Python's \<^verbatim>\<open>uuid.UUID\<close>: the text it parses, its integer and bytes, and the text it prints. A byte is
  an \<open>8 word\<close>, the integer a natural number below \<open>2 ^ 128\<close>.
\<close>

unbundle bit_operations_syntax

section \<open>Minting\<close>

type_synonym byte = "8 word"

definition ts_bytes :: "nat \<Rightarrow> byte list" where
  "ts_bytes ms = map (\<lambda>i. word_of_nat (ms div 256 ^ (5 - i))) [0..<6]"

definition ver_rand_a :: "byte list \<Rightarrow> 16 word" where
  "ver_rand_a rand = (push_bit 12 7 OR (push_bit 8 (ucast ((rand ! 0) AND 15)) OR ucast (rand ! 1)))"

definition uuid7 :: "int \<Rightarrow> byte list \<Rightarrow> kernel_error + byte list" where
  "uuid7 ms rand =
    (if ms < 0 \<or> 2 ^ 48 \<le> ms then Inl (ValueError ''unix_ts_ms out of UUID v7 range'')
     else if length rand \<noteq> 10 then Inl (ValueError ''_rand must be exactly 10 bytes'')
     else Inr (ts_bytes (nat ms) @
       [ucast (drop_bit 8 (ver_rand_a rand)), ucast (ver_rand_a rand), ((rand ! 2) AND 63) OR 128] @
       drop 3 rand))"

section \<open>The UUID class\<close>

definition uuid_int :: "byte list \<Rightarrow> nat" where
  "uuid_int bs = foldl (\<lambda>a b. a * 256 + unat b) 0 bs"

definition uuid_byte :: "nat \<Rightarrow> nat \<Rightarrow> byte" where
  "uuid_byte n i = word_of_nat (n div 256 ^ (15 - i))"

definition uuid_version :: "nat \<Rightarrow> nat option" where
  "uuid_version n = (if odd (n div 2 ^ 63) \<and> even (n div 2 ^ 62) then Some (n div 2 ^ 76 mod 16) else None)"

text \<open>\<^verbatim>\<open>str.replace(p, '')\<close>.\<close>

function delete_all :: "pystr \<Rightarrow> pystr \<Rightarrow> pystr" where
  "delete_all p [] = []"
| "delete_all p (c # s) = (if p \<noteq> [] \<and> startswith (c # s) p then delete_all p (drop (length p) (c # s))
     else c # delete_all p s)"
  by pat_completeness auto
termination by (relation "measure (\<lambda>(p, s). length s)") (auto simp: startswith_def)

definition strip_braces :: "pystr \<Rightarrow> pystr" where
  "strip_braces s = (let d = dropWhile (\<lambda>c. c = CHR ''{'' \<or> c = CHR ''}'') in rev (d (rev (d s))))"

definition hexval :: "char \<Rightarrow> nat option" where
  "hexval c = (let n = (of_char c :: nat) in
     if 48 \<le> n \<and> n \<le> 57 then Some (n - 48)
     else if 97 \<le> n \<and> n \<le> 102 then Some (n - 87)
     else if 65 \<le> n \<and> n \<le> 70 then Some (n - 55) else None)"

text \<open>\<^verbatim>\<open>int(s, 16)\<close>: surrounding white space, a sign, a prefix and single underscores are accepted.\<close>

fun scan_hex :: "nat \<Rightarrow> bool \<Rightarrow> pystr \<Rightarrow> nat option" where
  "scan_hex acc us [] = (if us then None else Some acc)"
| "scan_hex acc us (c # s) =
    (if c = CHR ''_'' then (if us then None else scan_hex acc True s)
     else case hexval c of None \<Rightarrow> None | Some d \<Rightarrow> scan_hex (acc * 16 + d) False s)"

definition has_prefix :: "pystr \<Rightarrow> bool" where
  "has_prefix s \<longleftrightarrow> startswith s ''0x'' \<or> startswith s ''0X''"

definition int_base16 :: "pystr \<Rightarrow> int option" where
  "int_base16 text =
    (let s = strip text; neg = startswith s ''-'';
         s1 = (if neg \<or> startswith s ''+'' then drop 1 s else s);
         s2 = (if has_prefix s1 then (let r = drop 2 s1 in if startswith r ''_'' then drop 1 r else r) else s1)
     in if s2 = [] \<or> startswith s2 ''_'' then None
        else case scan_hex 0 False s2 of None \<Rightarrow> None
          | Some n \<Rightarrow> Some (if neg then - int n else int n))"

definition parse_uuid :: "pystr \<Rightarrow> nat option" where
  "parse_uuid s =
    (let h = delete_all ''-'' (strip_braces (delete_all ''uuid:'' (delete_all ''urn:'' s))) in
     if length h \<noteq> 32 then None
     else case int_base16 h of None \<Rightarrow> None
       | Some i \<Rightarrow> if 0 \<le> i \<and> i < 2 ^ 128 then Some (nat i) else None)"

fun hexchar :: "nat \<Rightarrow> char" where
  "hexchar d = char_of (if d < 10 then 48 + d else 87 + d)"

fun hex_digits :: "nat \<Rightarrow> nat \<Rightarrow> pystr" where
  "hex_digits 0 n = []"
| "hex_digits (Suc k) n = hex_digits k (n div 16) @ [hexchar (n mod 16)]"

definition uuid_str :: "nat \<Rightarrow> pystr" where
  "uuid_str n = (let h = hex_digits 32 n in
     take 8 h @ ''-'' @ take 4 (drop 8 h) @ ''-'' @ take 4 (drop 12 h) @ ''-'' @ take 4 (drop 16 h) @ ''-'' @ drop 20 h)"

section \<open>Recognising\<close>

definition is_uuid7_int :: "nat \<Rightarrow> bool" where
  "is_uuid7_int n \<longleftrightarrow> uuid_version n = Some 7 \<and> uuid_byte n 8 AND 192 = 128"

definition is_uuid7 :: "pystr \<Rightarrow> bool" where
  "is_uuid7 s = (case parse_uuid s of None \<Rightarrow> False | Some n \<Rightarrow> is_uuid7_int n)"

section \<open>Bytes and integers\<close>

lemma unat_byte: "unat (b :: byte) < 256"
proof -
  have "unat b < 2 ^ LENGTH(8)" by (rule unsigned_less)
  then show ?thesis by simp
qed

lemma foldl_bytes: "foldl (\<lambda>a b. a * 256 + unat b) a (bs :: byte list) = a * 256 ^ length bs + uuid_int bs"
proof (induction bs arbitrary: a)
  case (Cons b bs)
  show ?case using Cons.IH [of "a * 256 + unat b"] Cons.IH [of "unat b"]
    by (simp add: uuid_int_def algebra_simps)
qed (simp add: uuid_int_def)

lemma uuid_int_append: "uuid_int (xs @ ys) = uuid_int xs * 256 ^ length ys + uuid_int ys"
  using foldl_bytes [of "uuid_int xs" ys] by (simp add: uuid_int_def)

lemma uuid_int_less: "uuid_int bs < 256 ^ length bs"
proof (induction bs rule: rev_induct)
  case (snoc b bs)
  have "unat b < 256" by (rule unat_byte)
  with snoc show ?case by (simp add: uuid_int_append uuid_int_def [of "[b]"])
qed (simp add: uuid_int_def)

lemma uuid_int_div: "uuid_int (xs @ ys) div 256 ^ length ys = uuid_int xs"
  using uuid_int_less [of ys] by (simp add: uuid_int_append)

lemma uuid_int_nth:
  assumes "i < length bs"
  shows "uuid_int bs div 256 ^ (length bs - 1 - i) mod 256 = unat (bs ! i)"
proof -
  have "uuid_int bs div 256 ^ length (drop (Suc i) bs) = uuid_int (take (Suc i) bs)"
    using uuid_int_div [of "take (Suc i) bs" "drop (Suc i) bs"] by (simp only: append_take_drop_id)
  then have "uuid_int bs div 256 ^ (length bs - 1 - i) = uuid_int (take i bs @ [bs ! i])"
    by (simp only: length_drop diff_diff_left plus_1_eq_Suc take_Suc_conv_app_nth [OF assms])
  moreover have "unat (bs ! i) < 256" by (rule unat_byte)
  ultimately show ?thesis by (simp add: uuid_int_append uuid_int_def [of "[bs ! i]"])
qed

section \<open>What is minted is recognised\<close>

lemma unat_drop: "unat (drop_bit k (w :: byte)) = unat w div 2 ^ k"
proof -
  have "take_bit 8 (unat w) = unat w" using unat_byte [of w] by (simp add: take_bit_eq_mod)
  then show ?thesis by (simp only: unsigned_drop_bit_eq) (simp add: drop_bit_eq_div)
qed

lemma mask_bytes: "(15 :: byte) = mask 4" "(63 :: byte) = mask 6" "(7 :: 16 word) = mask 3" "(7 :: byte) = mask 3"
  by (simp_all add: mask_eq_exp_minus_1)

lemma version_nibble: "unat (ucast (drop_bit 8 (ver_rand_a rand)) :: byte) div 16 = 7"
proof -
  have "drop_bit 4 (ucast (drop_bit 8 (ver_rand_a rand)) :: byte) = 7"
    unfolding ver_rand_a_def mask_bytes
    by (rule bit_word_eqI) (auto simp: bit_simps simp del: push_bit_numeral dest: bit_imp_le_length)
  then have "unat (drop_bit 4 (ucast (drop_bit 8 (ver_rand_a rand)) :: byte)) = 7" by simp
  then show ?thesis unfolding unat_drop by simp
qed

lemma variant_byte:
  "((w AND 63) OR 128) AND 192 = (128 :: byte)" "unat ((w AND 63) OR 128 :: byte) div 64 = 2"
proof -
  show "((w AND 63) OR 128) AND 192 = (128 :: byte)"
    by (rule bit_word_eqI) (auto simp: bit_simps less_Suc_eq numeral_eq_Suc)
  have "drop_bit 6 ((w AND 63) OR 128) = (2 :: byte)"
    by (rule bit_word_eqI) (auto simp: bit_simps less_Suc_eq numeral_eq_Suc)
  then have "unat (drop_bit 6 ((w AND 63) OR 128 :: byte)) = 2" by simp
  then show "unat ((w AND 63) OR 128 :: byte) div 64 = 2"
    unfolding unat_drop by simp
qed

lemma uuid7_bytes:
  assumes "uuid7 ms rand = Inr bs"
  shows "length bs = 16" "take 6 bs = ts_bytes (nat ms)" "unat (bs ! 6) div 16 = 7"
    "bs ! 8 AND 192 = 128" "unat (bs ! 8) div 64 = 2" "0 \<le> ms" "ms < 2 ^ 48"
proof -
  let ?x = "ucast (drop_bit 8 (ver_rand_a rand))" and ?y = "ucast (ver_rand_a rand)"
    and ?z = "((rand ! 2) AND 63) OR 128" and ?ts = "ts_bytes (nat ms)"
  from assms show "0 \<le> ms" "ms < 2 ^ 48" by (auto simp: uuid7_def split: if_splits)
  from assms have bs: "bs = ?ts @ [?x, ?y, ?z] @ drop 3 rand" and len: "length rand = 10"
    by (auto simp: uuid7_def split: if_splits)
  have ts: "length ?ts = 6" by (simp add: ts_bytes_def)
  with bs len show "length bs = 16" "take 6 bs = ?ts" by simp_all
  have "bs ! 6 = ?x" "bs ! 8 = ?z" unfolding bs using ts by (simp_all add: nth_append)
  then show "unat (bs ! 6) div 16 = 7" "bs ! 8 AND 192 = 128" "unat (bs ! 8) div 64 = 2"
    using variant_byte [of "rand ! 2"] version_nibble [of rand] by simp_all
qed

lemma uuid7_recognised:
  assumes "uuid7 ms rand = Inr bs"
  shows "is_uuid7_int (uuid_int bs)"
proof -
  note b = uuid7_bytes [OF assms]
  let ?n = "uuid_int bs"
  have b8: "?n div 256 ^ 7 mod 256 = unat (bs ! 8)"
    using uuid_int_nth [of 8 bs] b(1) by simp
  have b6: "?n div 256 ^ 9 mod 256 = unat (bs ! 6)"
    using uuid_int_nth [of 6 bs] b(1) by simp
  have m: "?n div 2 ^ 63 = ?n div 256 ^ 7 div 128" "?n div 2 ^ 62 = ?n div 256 ^ 7 div 64"
    "?n div 2 ^ 76 = ?n div 256 ^ 9 div 16"
    by (simp_all add: div_mult2_eq [symmetric])
  have mid: "q mod (b * c) div b = q div b mod c" if "0 < b" for q b c :: nat
    using that by (simp add: mod_mult2_eq)
  have par: "odd (r div 2) \<and> even r" if "r mod 4 = 2" for r :: nat
    using that by presburger
  have odd: "odd (q div 128) \<and> even (q div 64)" if "q mod 256 div 64 = 2" for q :: nat
    using that mid [of 64 q 4] par [of "q div 64"] by (simp add: div_mult2_eq [symmetric])
  have nib: "q div 16 mod 16 = 7" if "q mod 256 div 16 = 7" for q :: nat
    using that mid [of 16 q 16] by simp
  have "uuid_version ?n = Some 7"
    using odd [of "?n div 256 ^ 7"] nib [of "?n div 256 ^ 9"] b8 b6 b(3,5)
    unfolding uuid_version_def m by simp
  moreover have "uuid_byte ?n 8 = bs ! 8"
  proof -
    have "uuid_byte ?n 8 = word_of_nat (?n div 256 ^ 7 mod 256)"
      by (simp add: uuid_byte_def word_of_nat_eq_iff take_bit_eq_mod)
    then show ?thesis unfolding b8 by simp
  qed
  ultimately show ?thesis using b(4) by (simp add: is_uuid7_int_def)
qed

lemma uuid_int_of_nat:
  "uuid_int (map (\<lambda>i. word_of_nat (m div 256 ^ (k - Suc i))) [0..<k]) = m mod 256 ^ k"
proof (induction k arbitrary: m)
  case (Suc k)
  have "map (\<lambda>i. word_of_nat (m div 256 ^ (k - i))) [0..<k] =
      map (\<lambda>i. word_of_nat (m div 256 div 256 ^ (k - Suc i)) :: byte) [0..<k]"
    by (intro map_cong refl arg_cong [of _ _ word_of_nat])
      (auto simp: div_mult2_eq [symmetric] power_Suc [symmetric] Suc_diff_Suc simp del: power_Suc)
  from arg_cong [OF this, of uuid_int]
  have "uuid_int (map (\<lambda>i. word_of_nat (m div 256 ^ (k - i))) [0..<k]) = m div 256 mod 256 ^ k"
    unfolding Suc.IH .
  then have "uuid_int (map (\<lambda>i. word_of_nat (m div 256 ^ (Suc k - Suc i))) [0..<Suc k]) =
      m div 256 mod 256 ^ k * 256 + m mod 256"
    by (simp add: uuid_int_append uuid_int_def [of "[_]"] unsigned_of_nat take_bit_eq_mod)
  also have "... = m mod 256 ^ Suc k"
    by (simp add: mod_mult2_eq)
  finally show ?case .
qed (simp add: uuid_int_def)

lemma uuid_int_ts_bytes: "ms < 2 ^ 48 \<Longrightarrow> uuid_int (ts_bytes ms) = ms"
  using uuid_int_of_nat [of ms 6] by (simp add: ts_bytes_def)

section \<open>What is printed is parsed\<close>

definition is_hexchar :: "char \<Rightarrow> bool" where
  "is_hexchar c \<longleftrightarrow> (\<exists>d < 16. c = hexchar d)"

lemma hexchar_props:
  assumes "d < 16"
  shows "hexval (hexchar d) = Some d" "hexchar d \<noteq> CHR ''_''" "hexchar d \<noteq> CHR ''-''" "hexchar d \<noteq> CHR ''+''"
    "hexchar d \<noteq> CHR '':''" "hexchar d \<noteq> CHR ''x''" "hexchar d \<noteq> CHR ''X''" "hexchar d \<noteq> CHR ''{''"
    "hexchar d \<noteq> CHR ''}''" "\<not> py_space (hexchar d)"
proof -
  have n: "(of_char (hexchar d) :: nat) = (if d < 10 then 48 + d else 87 + d)"
    using assms by simp
  then show "hexval (hexchar d) = Some d" "\<not> py_space (hexchar d)"
    using assms by (simp_all add: hexval_def py_space_def Let_def del: hexchar.simps)
  have codes: "(of_char (CHR ''_'') :: nat) = 95" "(of_char (CHR ''-'') :: nat) = 45" "(of_char (CHR ''+'') :: nat) = 43"
    "(of_char (CHR '':'') :: nat) = 58" "(of_char (CHR ''x'') :: nat) = 120" "(of_char (CHR ''X'') :: nat) = 88"
    "(of_char (CHR ''{'') :: nat) = 123" "(of_char (CHR ''}'') :: nat) = 125"
    by code_simp+
  have ne: "hexchar d \<noteq> c" if "(of_char c :: nat) \<notin> {48..57} \<union> {97..102}" for c
    using that n assms by (auto simp del: hexchar.simps split: if_splits)
  show "hexchar d \<noteq> CHR ''_''" "hexchar d \<noteq> CHR ''-''" "hexchar d \<noteq> CHR ''+''"
    "hexchar d \<noteq> CHR '':''" "hexchar d \<noteq> CHR ''x''" "hexchar d \<noteq> CHR ''X''" "hexchar d \<noteq> CHR ''{''"
    "hexchar d \<noteq> CHR ''}''"
    by (rule ne, simp only: codes, simp)+
qed

lemma hex_digits_props: "length (hex_digits k n) = k" "list_all is_hexchar (hex_digits k n)"
proof -
  show "length (hex_digits k n) = k" by (induction k arbitrary: n) auto
  have "is_hexchar (hexchar (n mod 16))" for n
    unfolding is_hexchar_def by (rule exI [of _ "n mod 16"]) simp
  then show "list_all is_hexchar (hex_digits k n)"
    by (induction k arbitrary: n) (auto simp del: hexchar.simps)
qed

lemma scan_hex_snoc:
  "list_all is_hexchar s \<Longrightarrow> d < 16 \<Longrightarrow>
    scan_hex a False (s @ [hexchar d]) = map_option (\<lambda>n. n * 16 + d) (scan_hex a False s)"
  by (induction s arbitrary: a) (auto simp: is_hexchar_def hexchar_props simp del: hexchar.simps)

lemma scan_hex_digits: "scan_hex 0 False (hex_digits k n) = Some (n mod 16 ^ k)"
proof (induction k arbitrary: n)
  case (Suc k)
  have "scan_hex 0 False (hex_digits (Suc k) n) = Some (n div 16 mod 16 ^ k * 16 + n mod 16)"
    using scan_hex_snoc [OF hex_digits_props(2), of "n mod 16" 0 k "n div 16"]
    by (simp add: Suc.IH del: hexchar.simps)
  then show ?case by (simp add: mod_mult2_eq del: hex_digits.simps)
qed simp

lemma delete_all_absent: "c \<in> set p \<Longrightarrow> c \<notin> set s \<Longrightarrow> delete_all p s = s"
proof (induction p s rule: delete_all.induct)
  case (2 p d s)
  have "\<not> startswith (d # s) p"
  proof
    assume "startswith (d # s) p"
    then have "set p \<subseteq> set (d # s)" unfolding startswith_def by (metis set_take_subset)
    with 2(3,4) show False by auto
  qed
  with 2 show ?case by simp
qed simp

lemma delete_hyphen: "delete_all ''-'' s = filter (\<lambda>c. c \<noteq> CHR ''-'') s"
  by (induction s) (auto simp: startswith_def)

lemma strip_braces_absent: "CHR ''{'' \<notin> set s \<Longrightarrow> CHR ''}'' \<notin> set s \<Longrightarrow> strip_braces s = s"
proof -
  let ?d = "dropWhile (\<lambda>c. c = CHR ''{'' \<or> c = CHR ''}'')"
  have "?d t = t" if "CHR ''{'' \<notin> set t" "CHR ''}'' \<notin> set t" for t
    using that by (cases t) auto
  then show "CHR ''{'' \<notin> set s \<Longrightarrow> CHR ''}'' \<notin> set s \<Longrightarrow> ?thesis"
    by (simp add: strip_braces_def)
qed

lemma strip_absent: "list_all is_hexchar s \<Longrightarrow> strip s = s"
proof -
  have "lstrip t = t" if "list_all is_hexchar t" for t
    using that hexchar_props(10) by (cases t) (auto simp: lstrip_def is_hexchar_def)
  then show "list_all is_hexchar s \<Longrightarrow> ?thesis"
    by (simp add: strip_def list_all_rev)
qed

lemma int_base16_digits:
  assumes "list_all is_hexchar s" "s \<noteq> []" "scan_hex 0 False s = Some n"
  shows "int_base16 s = Some (int n)"
proof -
  have h: "c \<noteq> CHR ''_''" "c \<noteq> CHR ''-''" "c \<noteq> CHR ''+''" "c \<noteq> CHR ''x''" "c \<noteq> CHR ''X''" if "c \<in> set s" for c
    using that assms(1) hexchar_props unfolding list_all_iff is_hexchar_def by metis+
  have "\<not> startswith s ''-''" "\<not> startswith s ''+''" "\<not> startswith s ''_''"
    using h [of "hd s"] assms(2) by (cases s; auto simp: startswith_def)+
  moreover have "\<not> has_prefix s"
    using h by (cases s; cases "tl s") (auto simp: has_prefix_def startswith_def)
  ultimately show ?thesis
    using assms by (simp add: int_base16_def strip_absent)
qed

lemma hex_absent:
  assumes "c \<in> set (hex_digits 32 n)"
  shows "c \<noteq> CHR ''-''" "c \<noteq> CHR '':''" "c \<noteq> CHR ''{''" "c \<noteq> CHR ''}''"
  using assms hex_digits_props(2) [of 32 n] hexchar_props unfolding list_all_iff is_hexchar_def by metis+

text \<open>Any text that is the 32 digits with hyphens in between parses to the number.\<close>

lemma parse_hyphenated:
  assumes "n < 2 ^ 128" and h: "filter (\<lambda>c. c \<noteq> CHR ''-'') s = hex_digits 32 n"
  shows "parse_uuid s = Some n"
proof -
  have sub: "c \<in> set s \<Longrightarrow> c = CHR ''-'' \<or> c \<in> set (hex_digits 32 n)" for c
    using arg_cong [OF h, of set] by auto
  then have "CHR '':'' \<notin> set s" "CHR ''{'' \<notin> set s" "CHR ''}'' \<notin> set s"
    using hex_absent(2-4) by fastforce+
  then have "delete_all ''-'' (strip_braces (delete_all ''uuid:'' (delete_all ''urn:'' s))) = hex_digits 32 n"
    using delete_all_absent [of "CHR '':''" "''urn:''"] delete_all_absent [of "CHR '':''" "''uuid:''"] h
    by (simp add: strip_braces_absent delete_hyphen)
  moreover have "int_base16 (hex_digits 32 n) = Some (int n)"
    using assms hex_digits_props [of 32 n] scan_hex_digits [of 32 n]
    by (intro int_base16_digits) auto
  ultimately show ?thesis
    using assms(1) hex_digits_props(1) [of 32 n] by (simp add: parse_uuid_def)
qed

lemma parse_uuid_hex: "n < 2 ^ 128 \<Longrightarrow> parse_uuid (hex_digits 32 n) = Some n"
  by (rule parse_hyphenated) (auto intro: filter_True dest: hex_absent(1))

lemma filter_uuid_str: "filter (\<lambda>c. c \<noteq> CHR ''-'') (uuid_str n) = hex_digits 32 n"
proof -
  let ?h = "hex_digits 32 n"
  have step: "take 4 (drop k xs) @ drop (k + 4) xs = drop k xs" for k and xs :: pystr
    using append_take_drop_id [of 4 "drop k xs"] by (simp add: add.commute)
  have parts: "take 8 ?h @ take 4 (drop 8 ?h) @ take 4 (drop 12 ?h) @ take 4 (drop 16 ?h) @ drop 20 ?h = ?h"
    using step [of 8 ?h] step [of 12 ?h] step [of 16 ?h] by simp
  have keep: "filter (\<lambda>c. c \<noteq> CHR ''-'') xs = xs" if "set xs \<subseteq> set ?h" for xs
    using that hex_absent(1) by (intro filter_True) blast
  show ?thesis
    unfolding uuid_str_def Let_def
    by (simp only: filter_append keep set_take_subset set_drop_subset order_trans [OF set_take_subset set_drop_subset])
      (simp add: parts)
qed

lemma parse_uuid_str: "n < 2 ^ 128 \<Longrightarrow> parse_uuid (uuid_str n) = Some n"
  by (rule parse_hyphenated) (simp_all add: filter_uuid_str)

lemma uuid_str_hyphens: "uuid_str n \<noteq> hex_digits 32 n"
proof -
  have "length (uuid_str n) = 36" by (simp add: uuid_str_def Let_def hex_digits_props)
  then show ?thesis using hex_digits_props(1) [of 32 n] by force
qed

lemma uuid7_spellings:
  assumes "uuid7 ms rand = Inr bs"
  shows "is_uuid7 (uuid_str (uuid_int bs))" "is_uuid7 (hex_digits 32 (uuid_int bs))"
    "parse_uuid (hex_digits 32 (uuid_int bs)) = parse_uuid (uuid_str (uuid_int bs))"
proof -
  have "uuid_int bs < 2 ^ 128" using uuid_int_less [of bs] uuid7_bytes(1) [OF assms] by simp
  then show "is_uuid7 (uuid_str (uuid_int bs))" "is_uuid7 (hex_digits 32 (uuid_int bs))"
    "parse_uuid (hex_digits 32 (uuid_int bs)) = parse_uuid (uuid_str (uuid_int bs))"
    using uuid7_recognised [OF assms] by (simp_all only: is_uuid7_def parse_uuid_str parse_uuid_hex option.case)
qed

text \<open>Every identifier that is minted, printed and read back is recognised as version 7; its first
  six bytes are the millisecond it was minted in, and identifiers of different milliseconds are
  ordered as their times, whatever the random bytes.\<close>

theorem uuid7_sound:
  assumes "uuid7 ms rand = Inr bs" "uuid7 ms' rand' = Inr bs'"
  shows "is_uuid7 (uuid_str (uuid_int bs)) \<and> int (uuid_int (take 6 bs)) = ms \<and>
    (ms < ms' \<longrightarrow> uuid_int bs < uuid_int bs')"
proof -
  note b = uuid7_bytes [OF assms(1)] and b' = uuid7_bytes [OF assms(2)]
  have ts: "uuid_int (take 6 bs) = nat ms" "uuid_int (take 6 bs') = nat ms'"
    using b b' by (simp_all add: uuid_int_ts_bytes nat_less_iff)
  have "is_uuid7 (uuid_str (uuid_int bs))"
    using assms(1) by (rule uuid7_spellings)
  moreover have "uuid_int bs < uuid_int bs'" if "ms < ms'"
  proof -
    have split: "uuid_int xs = uuid_int (take 6 xs) * 256 ^ 10 + uuid_int (drop 6 xs)" "uuid_int (drop 6 xs) < 256 ^ 10"
      if "length xs = 16" for xs
      using that uuid_int_append [of "take 6 xs" "drop 6 xs"] uuid_int_less [of "drop 6 xs"] by simp_all
    have "nat ms + 1 \<le> nat ms'" using that b(6) by simp
    then have "(nat ms + 1) * 256 ^ 10 \<le> nat ms' * (256 :: nat) ^ 10" by (rule mult_le_mono1)
    then show ?thesis using split [OF b(1)] split [OF b'(1)] ts by simp
  qed
  ultimately show ?thesis using ts b(6) by simp
qed

definition demo_rand :: "byte list" where
  "demo_rand = replicate 10 255"

theorem uuid7_sound_witness:
  "\<exists>bs bs'. uuid7 1700000000000 demo_rand = Inr bs \<and> uuid7 1700000000001 (replicate 10 0) = Inr bs' \<and>
    uuid_int bs < uuid_int bs' \<and> is_uuid7 (uuid_str (uuid_int bs))"
proof -
  obtain bs bs' where "uuid7 1700000000000 demo_rand = Inr bs" "uuid7 1700000000001 (replicate 10 0) = Inr bs'"
    by (simp add: uuid7_def demo_rand_def)
  with uuid7_sound [OF this] show ?thesis by simp
qed

end
