(* ===== verification/Idempotency.thy ===== *)
theory Idempotency
  imports Audit_Log Event_Id
begin

text \<open>
  \<^verbatim>\<open>parallax/canary/idempotency.py\<close>: the handler that runs a worker once per event id and answers
  repeats from the audit log. \<open>handle\<close> is one call on its own; the step relation \<open>istep\<close> interleaves
  the calls of any number of threads, one step per access to the shared state (the lock table, a
  lock, the audit log). A look-up is one step: the row and its body are never separated, since no
  write takes a body away. A process restart empties the lock table and keeps the log.
\<close>

record CachedResponse =
  status :: int
  body :: pystr

record IdempotencyResult =
  res_status :: int
  res_body :: pystr
  hit :: bool
  audit_persisted :: bool

text \<open>\<open>io_read\<close>, \<open>io_body\<close> and \<open>io_write\<close>: whether the three kinds of statement succeed during a call.\<close>

record call_env =
  io_read :: bool
  io_body :: bool
  io_write :: bool
  call_now :: pystr
  elapsed_ms :: rat

definition cached_lookup :: "call_env \<Rightarrow> pystr \<Rightarrow> audit_row list \<Rightarrow> CachedResponse option" where
  "cached_lookup env eid rows =
    (case audit_lookup (io_read env) eid rows of None \<Rightarrow> None
     | Some r \<Rightarrow> (case lookup_response (io_body env) eid rows of None \<Rightarrow> None
         | Some b \<Rightarrow> Some \<lparr>status = response_status r, body = b\<rparr>))"

definition on_cache_hit :: "call_env \<Rightarrow> pystr \<Rightarrow> CachedResponse \<Rightarrow> audit_row list \<Rightarrow> IdempotencyResult \<times> audit_row list" where
  "on_cache_hit env eid c rows =
    (let (persisted, rows') = audit_record (io_write env) (call_now env)
           (make_record (call_now env) eid (status c) (Some 0) True None) (Some (body c)) rows
     in (\<lparr>res_status = status c, res_body = body c, hit = True, audit_persisted = persisted\<rparr>, rows'))"

text \<open>The part of \<^verbatim>\<open>_execute_worker\<close> after the worker has returned.\<close>

definition persist_response :: "call_env \<Rightarrow> pystr \<Rightarrow> CachedResponse \<Rightarrow> audit_row list \<Rightarrow> IdempotencyResult \<times> audit_row list" where
  "persist_response env eid c rows =
    (let (persisted, rows') = audit_record (io_write env) (call_now env)
           (make_record (call_now env) eid (status c) (Some (elapsed_ms env)) False (Some (call_now env)))
           (Some (body c)) rows
     in (\<lparr>res_status = status c, res_body = body c, hit = False, audit_persisted = persisted\<rparr>, rows'))"

text \<open>One call with no other thread in the handler; the look-up before the lock and the one inside it
  then agree. A worker may raise, and its exception propagates.\<close>

definition execute_worker ::
  "call_env \<Rightarrow> pystr \<Rightarrow> 'r \<Rightarrow> ('r \<Rightarrow> kernel_error + CachedResponse) \<Rightarrow> audit_row list \<Rightarrow>
   (kernel_error + IdempotencyResult) \<times> audit_row list" where
  "execute_worker env eid request worker rows =
    (case worker request of Inl e \<Rightarrow> (Inl e, rows)
     | Inr c \<Rightarrow> (let (r, rows') = persist_response env eid c rows in (Inr r, rows')))"

definition handle ::
  "call_env \<Rightarrow> pystr \<Rightarrow> 'r \<Rightarrow> ('r \<Rightarrow> kernel_error + CachedResponse) \<Rightarrow> audit_row list \<Rightarrow>
   (kernel_error + IdempotencyResult) \<times> audit_row list" where
  "handle env eid request worker rows =
    (if \<not> is_uuid7 eid then (Inl (ValueError ''event_id is not a valid UUID v7''), rows)
     else case cached_lookup env eid rows of
         Some c \<Rightarrow> (let (r, rows') = on_cache_hit env eid c rows in (Inr r, rows'))
       | None \<Rightarrow> execute_worker env eid request worker rows)"

section \<open>The cache\<close>

definition has_body :: "audit_row list \<Rightarrow> pystr \<Rightarrow> bool" where
  "has_body rows eid \<longleftrightarrow> (case audit_row_of eid rows of None \<Rightarrow> False | Some r \<Rightarrow> response_body r \<noteq> None)"

definition reliable :: "call_env \<Rightarrow> bool" where
  "reliable env \<longleftrightarrow> io_read env \<and> io_body env \<and> io_write env"

lemma cached_lookup_reliable:
  "reliable env \<Longrightarrow> cached_lookup env eid rows =
    (case audit_row_of eid rows of None \<Rightarrow> None
     | Some r \<Rightarrow> map_option (\<lambda>b. \<lparr>status = response_status r, body = b\<rparr>) (response_body r))"
  by (auto simp: reliable_def cached_lookup_def audit_lookup_def lookup_response_def split: option.splits)

lemma cached_has_body: "reliable env \<Longrightarrow> cached_lookup env eid rows = None \<longleftrightarrow> \<not> has_body rows eid"
  by (auto simp: cached_lookup_reliable has_body_def split: option.splits)

lemma cached_lookup_body: "cached_lookup env eid rows = Some c \<Longrightarrow> has_body rows eid"
  by (auto simp: cached_lookup_def audit_lookup_def lookup_response_def has_body_def split: option.splits if_splits)

lemma make_record_id [simp]: "event_id (make_record now eid st lat h req) = eid"
  by (simp add: make_record_def)

lemma has_body_record:
  "has_body (snd (audit_record io now r (Some b) rows)) eid \<longleftrightarrow> has_body rows eid \<or> io \<and> eid = event_id r"
  by (auto simp: has_body_def audit_record_row merge_audit_def coalesce_def split: option.splits)

lemma has_body_hit: "has_body (snd (on_cache_hit env e c rows)) eid \<longleftrightarrow> has_body rows eid \<or> io_write env \<and> eid = e"
  using has_body_record by (simp add: on_cache_hit_def Let_def case_prod_unfold)

lemma has_body_persist: "has_body (snd (persist_response env e c rows)) eid \<longleftrightarrow> has_body rows eid \<or> io_write env \<and> eid = e"
  using has_body_record by (simp add: persist_response_def Let_def case_prod_unfold)

lemma persist_then_cached:
  assumes "reliable env" "reliable env'"
  shows "cached_lookup env' eid (snd (persist_response env eid c rows)) = Some c"
  using assms
  by (auto simp: cached_lookup_reliable persist_response_def Let_def case_prod_unfold audit_record_row
      reliable_def merge_audit_def coalesce_def make_record_def split: option.splits)


definition demo_call :: call_env where
  "demo_call = \<lparr>io_read = True, io_body = True, io_write = True, call_now = ''t'', elapsed_ms = 3\<rparr>"

definition demo_uuid :: "byte list" where
  "demo_uuid = projr (uuid7 1700000000000 demo_rand)"

definition demo_id :: pystr where
  "demo_id = uuid_str (uuid_int demo_uuid)"

definition demo_worker :: "pystr \<Rightarrow> kernel_error + CachedResponse" where
  "demo_worker q = Inr \<lparr>status = 201, body = ''done '' @ q\<rparr>"

lemma demo_uuid_minted: "uuid7 1700000000000 demo_rand = Inr demo_uuid"
  by (simp add: demo_uuid_def uuid7_def demo_rand_def)

lemma reliable_demo: "reliable demo_call"
  by (simp add: reliable_def demo_call_def)

lemma persist_result [simp]:
  "res_status (fst (persist_response env e c rows)) = status c" "res_body (fst (persist_response env e c rows)) = body c"
  "\<not> hit (fst (persist_response env e c rows))"
  by (simp_all add: persist_response_def case_prod_unfold Let_def)

lemma handle_miss:
  assumes "is_uuid7 eid" "\<not> has_body rows eid" "reliable env" "worker request = Inr c"
  shows "handle env eid request worker rows =
    (Inr (fst (persist_response env eid c rows)), snd (persist_response env eid c rows))"
  using assms cached_has_body [of env eid rows] by (simp add: handle_def execute_worker_def case_prod_unfold Let_def)


text \<open>The key is the text of the id and not the UUID it denotes. A UUID that has been processed under
  its usual spelling is accepted again when it is written without hyphens, and the worker runs a
  second time for it.\<close>

theorem handle_respelled_id_runs_again:
  assumes "uuid7 ms rand = Inr bs" "reliable env" "worker request = Inr c" "rows = []"
    and "handle env (uuid_str (uuid_int bs)) request worker rows = (r, rows')"
  shows "parse_uuid (hex_digits 32 (uuid_int bs)) = parse_uuid (uuid_str (uuid_int bs)) \<and>
    (\<exists>r'. fst (handle env (hex_digits 32 (uuid_int bs)) request worker rows') = Inr r' \<and> \<not> hit r')"
proof -
  note u = uuid7_spellings [OF assms(1)]
  let ?e = "hex_digits 32 (uuid_int bs)"
  have "\<not> has_body [] e" for e by (simp add: has_body_def audit_row_of_def)
  then have "rows' = snd (persist_response env (uuid_str (uuid_int bs)) c [])" "\<not> has_body [] ?e"
    using handle_miss [of _ "[]" env worker request c, OF u(1) _ assms(2,3)] assms(4,5) by auto
  then have "\<not> has_body rows' ?e"
    using uuid_str_hyphens [of "uuid_int bs"] by (simp add: has_body_persist)
  from handle_miss [of _ _ _ worker request c, OF u(2) this assms(2,3)] u(3) show ?thesis
    by simp
qed

theorem handle_respelled_id_runs_again_witness:
  "\<exists>r'. fst (handle demo_call (hex_digits 32 (uuid_int demo_uuid)) ''a'' demo_worker
      (snd (handle demo_call demo_id ''a'' demo_worker []))) = Inr r' \<and> \<not> hit r'"
proof -
  have "demo_worker ''a'' = Inr \<lparr>status = 201, body = ''done a''\<rparr>" by (simp add: demo_worker_def)
  moreover obtain r rows' where "handle demo_call demo_id ''a'' demo_worker [] = (r, rows')" by fastforce
  ultimately show ?thesis
    using handle_respelled_id_runs_again [OF demo_uuid_minted reliable_demo, of demo_worker "''a''" _ "[]"]
    by (simp add: demo_id_def)
qed

end
