(* ===== verification/Idempotency_Threads.thy ===== *)
theory Idempotency_Threads
  imports Idempotency
begin

text \<open>
  The handler under concurrency: the reference-counted lock table (\<^verbatim>\<open>_acquire_lock\<close>,
  \<^verbatim>\<open>_release_lock\<close>), the locks and the audit log as shared state, every thread at a point of \<^verbatim>\<open>handle\<close>.
  A lock object is a number, its holder a thread. A call with an invalid id raises before it touches
  the shared state and is not a step.
\<close>

datatype phase =
    Idle
  | Missed pystr
  | Waiting pystr nat
  | Entered pystr nat
  | Working pystr nat
  | Responded pystr nat CachedResponse
  | Exiting pystr nat
  | Releasing pystr nat

record handler =
  rows :: "audit_row list"
  event_locks :: "pystr \<Rightarrow> (nat \<times> nat) option"
  next_lock :: nat
  holder :: "nat \<Rightarrow> nat option"
  phase_of :: "nat \<Rightarrow> phase"
  runs :: "pystr list"

definition acquire_lock :: "pystr \<Rightarrow> handler \<Rightarrow> nat \<times> handler" where
  "acquire_lock e s = (case event_locks s e of
     None \<Rightarrow> (next_lock s, s\<lparr>event_locks := (event_locks s)(e := Some (next_lock s, 1)), next_lock := next_lock s + 1\<rparr>)
   | Some (l, refs) \<Rightarrow> (l, s\<lparr>event_locks := (event_locks s)(e := Some (l, refs + 1))\<rparr>))"

definition release_lock :: "pystr \<Rightarrow> handler \<Rightarrow> handler" where
  "release_lock e s = (case event_locks s e of
     None \<Rightarrow> s
   | Some (l, refs) \<Rightarrow>
       if refs \<le> 1 then s\<lparr>event_locks := (event_locks s)(e := None)\<rparr>
       else s\<lparr>event_locks := (event_locks s)(e := Some (l, refs - 1))\<rparr>)"

definition goto :: "nat \<Rightarrow> phase \<Rightarrow> handler \<Rightarrow> handler" where
  "goto t p s = s\<lparr>phase_of := (phase_of s)(t := p)\<rparr>"

inductive istep :: "handler \<Rightarrow> handler \<Rightarrow> bool" where
  fast_hit: "phase_of s t = Idle \<Longrightarrow> is_uuid7 e \<Longrightarrow> reliable env \<Longrightarrow> cached_lookup env e (rows s) = Some c \<Longrightarrow>
    istep s (s\<lparr>rows := snd (on_cache_hit env e c (rows s))\<rparr>)"
| fast_miss: "phase_of s t = Idle \<Longrightarrow> is_uuid7 e \<Longrightarrow> reliable env \<Longrightarrow> cached_lookup env e (rows s) = None \<Longrightarrow>
    istep s (goto t (Missed e) s)"
| acquire: "phase_of s t = Missed e \<Longrightarrow> acquire_lock e s = (l, s') \<Longrightarrow> istep s (goto t (Waiting e l) s')"
| enter: "phase_of s t = Waiting e l \<Longrightarrow> holder s l = None \<Longrightarrow>
    istep s (goto t (Entered e l) (s\<lparr>holder := (holder s)(l := Some t)\<rparr>))"
| recheck_hit: "phase_of s t = Entered e l \<Longrightarrow> reliable env \<Longrightarrow> cached_lookup env e (rows s) = Some c \<Longrightarrow>
    istep s (goto t (Exiting e l) (s\<lparr>rows := snd (on_cache_hit env e c (rows s))\<rparr>))"
| recheck_miss: "phase_of s t = Entered e l \<Longrightarrow> reliable env \<Longrightarrow> cached_lookup env e (rows s) = None \<Longrightarrow>
    istep s (goto t (Working e l) s)"
| worker_returns: "phase_of s t = Working e l \<Longrightarrow>
    istep s (goto t (Responded e l c) (s\<lparr>runs := e # runs s\<rparr>))"
| worker_raises: "phase_of s t = Working e l \<Longrightarrow> istep s (goto t (Exiting e l) s)"
| persist: "phase_of s t = Responded e l c \<Longrightarrow> reliable env \<Longrightarrow>
    istep s (goto t (Exiting e l) (s\<lparr>rows := snd (persist_response env e c (rows s))\<rparr>))"
| exit: "phase_of s t = Exiting e l \<Longrightarrow>
    istep s (goto t (Releasing e l) (s\<lparr>holder := (holder s)(l := None)\<rparr>))"
| release: "phase_of s t = Releasing e l \<Longrightarrow> istep s (goto t Idle (release_lock e s))"

definition start :: "audit_row list \<Rightarrow> handler" where
  "start rs = \<lparr>rows = rs, event_locks = (\<lambda>_. None), next_lock = 0, holder = (\<lambda>_. None),
     phase_of = (\<lambda>_. Idle), runs = []\<rparr>"

section \<open>Invariants\<close>

fun refers :: "phase \<Rightarrow> (pystr \<times> nat) option" where
  "refers (Waiting e l) = Some (e, l)"
| "refers (Entered e l) = Some (e, l)"
| "refers (Working e l) = Some (e, l)"
| "refers (Responded e l c) = Some (e, l)"
| "refers (Exiting e l) = Some (e, l)"
| "refers (Releasing e l) = Some (e, l)"
| "refers _ = None"

fun inside :: "phase \<Rightarrow> (pystr \<times> nat) option" where
  "inside (Entered e l) = Some (e, l)"
| "inside (Working e l) = Some (e, l)"
| "inside (Responded e l c) = Some (e, l)"
| "inside (Exiting e l) = Some (e, l)"
| "inside _ = None"

definition referents :: "(nat \<Rightarrow> phase) \<Rightarrow> pystr \<Rightarrow> nat set" where
  "referents ph e = {t. \<exists>l. refers (ph t) = Some (e, l)}"

definition locks_ok :: "handler \<Rightarrow> bool" where
  "locks_ok s \<longleftrightarrow> (\<forall>e. finite (referents (phase_of s) e)) \<and>
     (\<forall>t e l. refers (phase_of s t) = Some (e, l) \<longrightarrow> (\<exists>n. event_locks s e = Some (l, n))) \<and>
     (\<forall>e l n. event_locks s e = Some (l, n) \<longrightarrow> n = card (referents (phase_of s) e) \<and> 0 < n) \<and>
     (\<forall>t e l. inside (phase_of s t) = Some (e, l) \<longrightarrow> holder s l = Some t)"

definition run_count :: "handler \<Rightarrow> pystr \<Rightarrow> nat" where
  "run_count s e = count_list (runs s) e"

text \<open>Who may still run the worker for \<open>e\<close>, and who already has.\<close>

definition runs_ok :: "audit_row list \<Rightarrow> handler \<Rightarrow> bool" where
  "runs_ok rs s \<longleftrightarrow> (\<forall>e. run_count s e \<le> 1) \<and>
     (\<forall>e. run_count s e = 1 \<longrightarrow> \<not> has_body rs e \<and> (has_body (rows s) e \<or> (\<exists>t l c. phase_of s t = Responded e l c))) \<and>
     (\<forall>t e l. phase_of s t = Working e l \<longrightarrow> \<not> has_body (rows s) e \<and> run_count s e = 0) \<and>
     (\<forall>e. has_body rs e \<longrightarrow> has_body (rows s) e)"

lemma inside_refers: "inside p = Some x \<Longrightarrow> refers p = Some x"
  by (cases p) auto

lemma inside_unique:
  assumes "locks_ok s" "inside (phase_of s t) = Some (e, l)" "inside (phase_of s t') = Some (e, l')"
  shows "t = t'"
proof -
  have "refers (phase_of s t) = Some (e, l)" "refers (phase_of s t') = Some (e, l')"
    using assms(2,3) by (simp_all add: inside_refers)
  then have "l = l'" using assms(1) unfolding locks_ok_def by (metis option.inject prod.inject)
  then show ?thesis using assms unfolding locks_ok_def by (metis option.inject)
qed

lemma goto_simps [simp]:
  "rows (goto t p s) = rows s" "event_locks (goto t p s) = event_locks s" "holder (goto t p s) = holder s"
  "runs (goto t p s) = runs s" "phase_of (goto t p s) = (phase_of s)(t := p)" "next_lock (goto t p s) = next_lock s"
  by (simp_all add: goto_def)

lemma referents_same:
  "map_option fst (refers p) = map_option fst (refers (ph t)) \<Longrightarrow> referents (ph(t := p)) e = referents ph e"
  by (auto simp: referents_def map_option_case split: option.splits if_splits)

lemma referents_add:
  "refers (ph t) = None \<Longrightarrow> refers p = Some (e', l) \<Longrightarrow>
    referents (ph(t := p)) e = (if e = e' then insert t (referents ph e) else referents ph e)"
  by (auto simp: referents_def)

lemma referents_remove:
  "refers (ph t) = Some (e', l) \<Longrightarrow> refers p = None \<Longrightarrow>
    referents (ph(t := p)) e = (if e = e' then referents ph e - {t} else referents ph e)"
  by (auto simp: referents_def)

lemma locks_ok_move:
  assumes "locks_ok s" "refers p = refers (phase_of s t)" "event_locks s' = event_locks s"
    "phase_of s' = (phase_of s)(t := p)"
    "\<And>u e l. inside (phase_of s' u) = Some (e, l) \<Longrightarrow> holder s' l = Some u"
  shows "locks_ok s'"
proof -
  have r: "referents (phase_of s') e = referents (phase_of s) e" for e
    unfolding assms(4) by (rule referents_same) (simp add: assms(2))
  have f: "refers (phase_of s' u) = refers (phase_of s u)" for u
    by (simp add: assms(2,4))
  show ?thesis
    using assms(1,5) unfolding locks_ok_def r f assms(3) by blast
qed

lemma locks_ok_acquire:
  assumes "locks_ok s" "phase_of s t = Missed e" "acquire_lock e s = (l, s')"
  shows "locks_ok (goto t (Waiting e l) s')"
proof -
  have same: "phase_of s' = phase_of s" "holder s' = holder s" "\<And>e'. e' \<noteq> e \<Longrightarrow> event_locks s' e' = event_locks s e'"
    using assms(3) by (auto simp: acquire_lock_def split: option.splits prod.splits)
  have ref: "referents ((phase_of s)(t := Waiting e l)) e' =
      (if e' = e then insert t (referents (phase_of s) e') else referents (phase_of s) e')" for e'
    using assms(2) by (intro referents_add) auto
  have t: "t \<notin> referents (phase_of s) e" using assms(2) by (simp add: referents_def)
  have fin: "finite (referents (phase_of s) e')" for e' using assms(1) by (simp add: locks_ok_def)
  have new: "event_locks s' e = Some (l, card (insert t (referents (phase_of s) e)))"
  proof (cases "event_locks s e")
    case None
    then have "referents (phase_of s) e = {}"
      using assms(1) unfolding locks_ok_def referents_def by fastforce
    with None assms(3) show ?thesis by (auto simp: acquire_lock_def)
  next
    case (Some x)
    obtain l0 n where x: "x = (l0, n)" by fastforce
    then have "n = card (referents (phase_of s) e)" using Some assms(1) by (auto simp: locks_ok_def)
    with Some x assms(3) t fin show ?thesis by (auto simp: acquire_lock_def)
  qed
  have old: "l0 = l" if "event_locks s e = Some (l0, n)" for l0 n
    using that assms(3) by (auto simp: acquire_lock_def)
  show ?thesis
    unfolding locks_ok_def goto_simps same(1,2) ref
  proof (intro conjI allI impI)
    fix u e' l'
    assume r: "refers (((phase_of s)(t := Waiting e l)) u) = Some (e', l')"
    show "\<exists>n. event_locks s' e' = Some (l', n)"
    proof (cases "u = t")
      case True
      with r new show ?thesis by auto
    next
      case False
      with r assms(1) obtain n where n: "event_locks s e' = Some (l', n)" unfolding locks_ok_def by fastforce
      show ?thesis using n old new same(3) by (cases "e' = e") auto
    qed
  next
    fix e' l' n
    assume n: "event_locks s' e' = Some (l', n)"
    have "n = card (if e' = e then insert t (referents (phase_of s) e') else referents (phase_of s) e') \<and> 0 < n"
    proof (cases "e' = e")
      case True
      with n new have "n = card (insert t (referents (phase_of s) e))" by simp
      with True fin show ?thesis by (simp add: card_gt_0_iff)
    next
      case False
      with n same(3) have "event_locks s e' = Some (l', n)" by simp
      with False assms(1) show ?thesis unfolding locks_ok_def by simp
    qed
    then show "n = card (if e' = e then insert t (referents (phase_of s) e') else referents (phase_of s) e')" "0 < n"
      by simp_all
  next
    fix u e' l'
    assume "inside (((phase_of s)(t := Waiting e l)) u) = Some (e', l')"
    then show "holder s l' = Some u" using assms(1) unfolding locks_ok_def by (auto split: if_splits)
  qed (use fin in simp)
qed

lemma locks_ok_release:
  assumes "locks_ok s" "phase_of s t = Releasing e l"
  shows "locks_ok (goto t Idle (release_lock e s))"
proof -
  let ?s' = "release_lock e s"
  have ok: "\<And>e. finite (referents (phase_of s) e)"
    "\<And>u e l. refers (phase_of s u) = Some (e, l) \<Longrightarrow> \<exists>n. event_locks s e = Some (l, n)"
    "\<And>e l n. event_locks s e = Some (l, n) \<Longrightarrow> n = card (referents (phase_of s) e) \<and> 0 < n"
    "\<And>u e l. inside (phase_of s u) = Some (e, l) \<Longrightarrow> holder s l = Some u"
    using assms(1) by (auto simp: locks_ok_def)
  obtain n where n: "event_locks s e = Some (l, n)" using ok(2) [of t e l] assms(2) by auto
  have same: "phase_of ?s' = phase_of s" "holder ?s' = holder s" "\<And>e'. e' \<noteq> e \<Longrightarrow> event_locks ?s' e' = event_locks s e'"
    using n by (auto simp: release_lock_def)
  have here: "event_locks ?s' e = (if n \<le> 1 then None else Some (l, n - 1))"
    using n by (simp add: release_lock_def)
  have ref: "referents ((phase_of s)(t := Idle)) e' =
      (if e' = e then referents (phase_of s) e' - {t} else referents (phase_of s) e')" for e'
    using assms(2) by (intro referents_remove) auto
  have t: "t \<in> referents (phase_of s) e" using assms(2) by (auto simp: referents_def)
  have card: "card (referents (phase_of s) e - {t}) = n - 1"
    using t ok(1) ok(3) [OF n] by (simp add: card_Diff_singleton)
  show ?thesis
    unfolding locks_ok_def goto_simps same(1,2) ref
  proof (intro conjI allI impI)
    fix u e' l'
    assume r: "refers (((phase_of s)(t := Idle)) u) = Some (e', l')"
    then have u: "u \<noteq> t" "refers (phase_of s u) = Some (e', l')" by (auto split: if_splits)
    then obtain n' where n': "event_locks s e' = Some (l', n')" using ok(2) by blast
    show "\<exists>n. event_locks ?s' e' = Some (l', n)"
    proof (cases "e' = e")
      case True
      with u have "u \<in> referents (phase_of s) e - {t}" by (auto simp: referents_def)
      then have "0 < card (referents (phase_of s) e - {t})" using ok(1) card_gt_0_iff by blast
      with card True n n' here show ?thesis by auto
    qed (use n' same(3) in simp)
  next
    fix e' l' m
    assume m: "event_locks ?s' e' = Some (l', m)"
    have "m = card (if e' = e then referents (phase_of s) e' - {t} else referents (phase_of s) e') \<and> 0 < m"
    proof (cases "e' = e")
      case True
      with m here card show ?thesis by (auto split: if_splits)
    next
      case False
      with m same(3) ok(3) show ?thesis by simp
    qed
    then show "m = card (if e' = e then referents (phase_of s) e' - {t} else referents (phase_of s) e')" "0 < m"
      by simp_all
  next
    fix u e' l'
    assume "inside (((phase_of s)(t := Idle)) u) = Some (e', l')"
    then show "holder s l' = Some u" using ok(4) by (auto split: if_splits)
  qed (use ok(1) in simp)
qed

lemma locks_ok_inside: "locks_ok s \<Longrightarrow> inside (phase_of s t) = Some (e, l) \<Longrightarrow> holder s l = Some t"
  by (simp add: locks_ok_def)

lemma locks_ok_goto:
  assumes "locks_ok s" "refers p = refers (phase_of s t)" "event_locks s0 = event_locks s" "phase_of s0 = phase_of s"
    "\<And>u e l. u \<noteq> t \<Longrightarrow> inside (phase_of s u) = Some (e, l) \<Longrightarrow> holder s0 l = Some u"
    "\<And>e l. inside p = Some (e, l) \<Longrightarrow> holder s0 l = Some t"
  shows "locks_ok (goto t p s0)"
proof (rule locks_ok_move [OF assms(1,2)])
  fix u e l
  assume "inside (phase_of (goto t p s0) u) = Some (e, l)"
  then show "holder (goto t p s0) l = Some u"
    using assms(4) assms(5) [of u e l] assms(6) [of e l] by (cases "u = t") simp_all
qed (simp_all add: assms(3,4))

lemma locks_ok_step: "istep s s' \<Longrightarrow> locks_ok s \<Longrightarrow> locks_ok s'"
proof (induction rule: istep.induct)
  case (fast_hit s t e env c)
  then show ?case by (simp add: locks_ok_def)
next
  case (acquire s t e l s')
  then show ?case by (intro locks_ok_acquire)
next
  case (release s t e l)
  then show ?case by (intro locks_ok_release)
next
  case (enter s t e l)
  have "l' \<noteq> l" if "inside (phase_of s u) = Some (e', l')" for u e' l'
    using locks_ok_inside [OF \<open>locks_ok s\<close> that] enter(2) by auto
  with enter show ?case
    by (intro locks_ok_goto [of s]) (auto dest: locks_ok_inside)
next
  case (exit s t e l)
  have "holder s l = Some t" using exit by (intro locks_ok_inside [of s t e]) auto
  then have "l' \<noteq> l" if "u \<noteq> t" "inside (phase_of s u) = Some (e', l')" for u e' l'
    using locks_ok_inside [OF \<open>locks_ok s\<close> that(2)] that(1) by auto
  with exit show ?case
    by (intro locks_ok_goto [of s]) (auto dest: locks_ok_inside)
qed (rule locks_ok_goto, assumption, (auto intro: locks_ok_inside)[5])+

section \<open>At most one run\<close>

definition owned :: "handler \<Rightarrow> pystr \<Rightarrow> bool" where
  "owned s e \<longleftrightarrow> (\<exists>t l c. phase_of s t = Responded e l c)"

lemma runs_ok_owned: "runs_ok rs s \<longleftrightarrow> (\<forall>e. run_count s e \<le> 1) \<and>
     (\<forall>e. run_count s e = 1 \<longrightarrow> \<not> has_body rs e \<and> (has_body (rows s) e \<or> owned s e)) \<and>
     (\<forall>t e l. phase_of s t = Working e l \<longrightarrow> \<not> has_body (rows s) e \<and> run_count s e = 0) \<and>
     (\<forall>e. has_body rs e \<longrightarrow> has_body (rows s) e)"
  by (simp add: runs_ok_def owned_def)

fun neutral :: "phase \<Rightarrow> bool" where
  "neutral (Working e l) = False"
| "neutral (Responded e l c) = False"
| "neutral _ = True"

lemma owned_goto:
  assumes "phase_of s0 = phase_of s" "\<And>e l c. phase_of s t \<noteq> Responded e l c" "\<And>e l c. p \<noteq> Responded e l c"
  shows "owned (goto t p s0) e = owned s e"
proof -
  have "(phase_of (goto t p s0) u = Responded e l c) = (phase_of s u = Responded e l c)" for u l c
    using assms by (cases "u = t") simp_all
  then show ?thesis by (simp add: owned_def)
qed

lemma runs_ok_goto:
  assumes "runs_ok rs s" "phase_of s0 = phase_of s" "runs s0 = runs s" "\<And>e. has_body (rows s0) e = has_body (rows s) e"
    "\<And>e l c. phase_of s t \<noteq> Responded e l c" "neutral p"
  shows "runs_ok rs (goto t p s0)"
  using assms(1,2,6) owned_goto [of s0 s t p] assms(5)
  by (cases p) (auto simp: runs_ok_owned run_count_def assms(3,4) split: if_splits)

lemma hit_keeps_bodies:
  "cached_lookup env e (rows s) = Some c \<Longrightarrow> has_body (snd (on_cache_hit env e c (rows s))) e' = has_body (rows s) e'"
  by (auto simp: has_body_hit dest: cached_lookup_body)

lemma acquire_frame:
  "acquire_lock e s = (l, s') \<Longrightarrow> phase_of s' = phase_of s \<and> runs s' = runs s \<and> rows s' = rows s"
  by (auto simp: acquire_lock_def split: option.splits prod.splits)

lemma release_frame:
  "phase_of (release_lock e s) = phase_of s" "runs (release_lock e s) = runs s" "rows (release_lock e s) = rows s"
  by (auto simp: release_lock_def split: option.splits)

lemma runs_ok_step: "istep s s' \<Longrightarrow> locks_ok s \<Longrightarrow> runs_ok rs s \<Longrightarrow> runs_ok rs s'"
proof (induction rule: istep.induct)
  case (fast_hit s t e env c)
  then show ?case using hit_keeps_bodies [of env e s c] by (simp add: runs_ok_def run_count_def)
next
  case (acquire s t e l s')
  then show ?case using acquire_frame [of e s l s'] by (intro runs_ok_goto [of rs s]) auto
next
  case (release s t e l)
  then show ?case by (intro runs_ok_goto [of rs s]) (auto simp: release_frame)
next
  case (recheck_hit s t e l env c)
  then show ?case using hit_keeps_bodies [of env e s c] by (intro runs_ok_goto [of rs s]) auto
next
  case (recheck_miss s t e l env)
  then have nb: "\<not> has_body (rows s) e" using cached_has_body by blast
  have "phase_of s u \<noteq> Responded e l' c" for u l' c
    using inside_unique [of s t e l u l'] recheck_miss by auto
  then have "\<not> owned s e" by (simp add: owned_def)
  then have "run_count s e = 0"
    using recheck_miss nb unfolding runs_ok_owned by (metis One_nat_def le_Suc_eq le_zero_eq)
  moreover have "owned (goto t (Working e l) s) e' = owned s e'" for e'
    using recheck_miss(1) by (intro owned_goto) simp_all
  ultimately show ?case
    using recheck_miss nb unfolding runs_ok_owned by (auto simp: run_count_def split: if_splits)
next
  case (worker_returns s t e l c)
  let ?s' = "goto t (Responded e l c) (s\<lparr>runs := e # runs s\<rparr>)"
  have zero: "\<not> has_body (rows s) e" "run_count s e = 0"
    using worker_returns unfolding runs_ok_owned by blast+
  have excl: "u = t" if "phase_of s u = Working e l'" for u l'
    using inside_unique [of s u e l' t l] worker_returns that by simp
  have own: "owned ?s' e" "owned s e' \<Longrightarrow> owned ?s' e'" for e'
  proof -
    show "owned ?s' e" by (auto simp: owned_def)
    assume "owned s e'"
    then obtain u l' c' where "phase_of s u = Responded e' l' c'" by (auto simp: owned_def)
    moreover from this have "u \<noteq> t" using worker_returns(1) by auto
    ultimately have "phase_of ?s' u = Responded e' l' c'" by simp
    then show "owned ?s' e'" unfolding owned_def by blast
  qed
  have count: "run_count ?s' e' = (if e' = e then 1 else run_count s e')" for e'
    using zero(2) by (auto simp: run_count_def)
  have "\<not> has_body rs e" using worker_returns(3) zero(1) unfolding runs_ok_owned by blast
  with worker_returns(3) own excl show ?case
    unfolding runs_ok_owned count by (auto split: if_splits)
next
  case (persist s t e l c env)
  let ?s' = "goto t (Exiting e l) (s\<lparr>rows := snd (persist_response env e c (rows s))\<rparr>)"
  have body: "has_body (rows ?s') e' \<longleftrightarrow> has_body (rows s) e' \<or> e' = e" for e'
    using persist(2) by (auto simp: has_body_persist reliable_def)
  have excl: "phase_of s u \<noteq> Working e l'" for u l'
    using inside_unique [of s t e l u l'] persist by auto
  have own: "owned ?s' e'" if "owned s e'" "e' \<noteq> e" for e'
  proof -
    from that(1) obtain u l' c' where u: "phase_of s u = Responded e' l' c'" by (auto simp: owned_def)
    with persist(1) that(2) have "u \<noteq> t" by auto
    with u have "phase_of ?s' u = Responded e' l' c'" by simp
    then show "owned ?s' e'" unfolding owned_def by blast
  qed
  show ?case
    using persist(4) excl unfolding runs_ok_owned body
    by (auto simp: run_count_def split: if_splits dest: own)
qed (rule runs_ok_goto, assumption, (auto)[5])+

lemma reachable_ok:
  "istep\<^sup>*\<^sup>* (start rs) s \<Longrightarrow> locks_ok s \<and> runs_ok rs s"
proof (induction rule: rtranclp_induct)
  case base
  have "referents (\<lambda>_. Idle) e = {}" for e by (simp add: referents_def)
  then show ?case by (simp add: start_def locks_ok_def runs_ok_def run_count_def)
qed (use locks_ok_step runs_ok_step in blast)

text \<open>C5: at most once. However many threads call the handler with whatever ids, in whatever
  interleaving and with workers that return or raise, no worker returns twice for an event id, none
  runs for an id that was already answered, and every entry of the lock table belongs to a call in
  flight, as long as the statements of the audit log succeed.\<close>

theorem worker_at_most_once:
  assumes "istep\<^sup>*\<^sup>* (start rs) s"
  shows "run_count s e \<le> 1 \<and> (has_body rs e \<longrightarrow> run_count s e = 0) \<and>
    (event_locks s e \<noteq> None \<longrightarrow> (\<exists>t l. refers (phase_of s t) = Some (e, l)))"
proof -
  from reachable_ok [OF assms] have l: "locks_ok s" and r: "runs_ok rs s" by simp_all
  have "run_count s e \<le> 1" "run_count s e = 1 \<longrightarrow> \<not> has_body rs e"
    using r unfolding runs_ok_def by blast+
  moreover have "\<exists>t l. refers (phase_of s t) = Some (e, l)" if ne: "event_locks s e \<noteq> None"
  proof -
    obtain l n where "event_locks s e = Some (l, n)" using ne by (cases "event_locks s e") auto
    then have "0 < card (referents (phase_of s) e)" using l unfolding locks_ok_def by metis
    then have "referents (phase_of s) e \<noteq> {}" by auto
    then show ?thesis by (auto simp: referents_def)
  qed
  ultimately show ?thesis by (metis One_nat_def le_Suc_eq le_zero_eq)
qed

text \<open>Two threads race for one id: both miss before either has the lock.\<close>

definition race :: handler where
  "race = (let s1 = goto 1 (Missed demo_id) (goto 0 (Missed demo_id) (start []));
     s2 = goto 0 (Waiting demo_id 0) (snd (acquire_lock demo_id s1));
     s3 = goto 1 (Waiting demo_id 0) (snd (acquire_lock demo_id s2));
     s4 = goto 0 (Entered demo_id 0) (s3\<lparr>holder := (holder s3)(0 := Some 0)\<rparr>);
     s5 = goto 0 (Working demo_id 0) s4
   in goto 0 (Responded demo_id 0 \<lparr>status = 201, body = ''ok''\<rparr>) (s5\<lparr>runs := demo_id # runs s5\<rparr>))"

lemma race_reachable: "istep\<^sup>*\<^sup>* (start []) race"
proof -
  have v: "is_uuid7 demo_id" unfolding demo_id_def using demo_uuid_minted by (rule uuid7_spellings)
  have miss: "cached_lookup demo_call demo_id [] = None"
    by (simp add: cached_lookup_def audit_lookup_def audit_row_of_def)
  let ?s0 = "start []"
  let ?s1 = "goto 0 (Missed demo_id) ?s0"
  let ?s2 = "goto 1 (Missed demo_id) ?s1"
  let ?s3 = "goto 0 (Waiting demo_id 0) (snd (acquire_lock demo_id ?s2))"
  let ?s4 = "goto 1 (Waiting demo_id 0) (snd (acquire_lock demo_id ?s3))"
  let ?s5 = "goto 0 (Entered demo_id 0) (?s4\<lparr>holder := (holder ?s4)(0 := Some 0)\<rparr>)"
  let ?s6 = "goto 0 (Working demo_id 0) ?s5"
  have a: "acquire_lock demo_id ?s2 = (0, snd (acquire_lock demo_id ?s2))"
    "acquire_lock demo_id ?s3 = (0, snd (acquire_lock demo_id ?s3))"
    by (simp_all add: acquire_lock_def start_def)
  have f: "rows (snd (acquire_lock e s)) = rows s" "phase_of (snd (acquire_lock e s)) = phase_of s"
    "holder (snd (acquire_lock e s)) = holder s" for e s
    by (simp_all add: acquire_lock_def split: option.split prod.split)
  have "istep ?s0 ?s1" using v reliable_demo miss by (intro fast_miss) (simp_all add: start_def)
  moreover have "istep ?s1 ?s2" using v reliable_demo miss by (intro fast_miss) (simp_all add: start_def)
  moreover have "istep ?s2 ?s3" by (rule acquire [OF _ a(1)]) simp
  moreover have "istep ?s3 ?s4" by (rule acquire [OF _ a(2)]) (simp add: f)
  moreover have "istep ?s4 ?s5" by (rule enter) (simp_all add: f start_def)
  moreover have "istep ?s5 ?s6"
    by (rule recheck_miss [OF _ reliable_demo]) (simp_all add: f start_def miss)
  moreover have "istep ?s6 race"
    unfolding race_def Let_def by (rule worker_returns) simp
  ultimately show ?thesis by (meson rtranclp.rtrancl_into_rtrancl rtranclp.rtrancl_refl)
qed

theorem worker_at_most_once_witness:
  "run_count race demo_id = 1 \<and> (\<exists>l. event_locks race demo_id = Some (l, 2)) \<and>
    (\<exists>t l. refers (phase_of race t) = Some (demo_id, l))"
proof -
  have c: "run_count race demo_id = 1"
    by (simp add: race_def Let_def run_count_def acquire_lock_def start_def)
  have e: "\<exists>l. event_locks race demo_id = Some (l, 2)"
    by (simp add: race_def Let_def acquire_lock_def start_def)
  then have "event_locks race demo_id \<noteq> None" by auto
  with worker_at_most_once [OF race_reachable, of demo_id] c e show ?thesis by blast
qed

end
