(* ===== verification/Rollback.thy ===== *)
theory Rollback
  imports Triggers Audit_Log
begin

text \<open>
  \<^verbatim>\<open>parallax/canary/rollback.py\<close>: the controller that drives running, tripped and awaiting_ack from the
  triggers of \<open>Triggers\<close>, mirrors each transition to the durable state row and records an
  acknowledgement in the audit log. Every method runs under the controller's lock, so it is one
  step. \<open>io\<close> says whether a durable write succeeds.
\<close>

datatype CanaryState = RUNNING | TRIPPED | AWAITING_ACK

definition state_value :: "CanaryState \<Rightarrow> pystr" where
  "state_value s = (case s of RUNNING \<Rightarrow> ''running'' | TRIPPED \<Rightarrow> ''tripped'' | AWAITING_ACK \<Rightarrow> ''awaiting_ack'')"

definition COOLDOWN_SECONDS :: rat where
  "COOLDOWN_SECONDS = 30 * 60"

record RollbackController =
  audit_log :: "audit_row list option"
  cooldown :: rat
  durable :: "state_store option"
  t1 :: window
  t2 :: window
  t3 :: window
  t4 :: int
  t5 :: window
  state :: CanaryState
  tripped_at :: "rat option"
  tripped_by :: "pystr option"
  last_evaluations :: "(pystr \<times> TriggerEvaluation) list"
  last_gate_evaluation :: TriggerEvaluation
  last_ack_by :: "pystr option"
  last_ack_at :: "pystr option"

record RollbackSnapshot =
  snap_state :: CanaryState
  snap_tripped_at :: "rat option"
  snap_tripped_by :: "pystr option"
  snap_cooldown_seconds :: rat
  snap_last_evaluations :: "(pystr \<times> TriggerEvaluation) list"
  snap_last_gate_evaluation :: TriggerEvaluation
  snap_last_ack_by :: "pystr option"
  snap_last_ack_at :: "pystr option"

definition persist_state :: "bool \<Rightarrow> CanaryState \<Rightarrow> pystr option \<Rightarrow> state_store option \<Rightarrow> state_store option" where
  "persist_state io st who store =
    (case store of None \<Rightarrow> None
     | Some db \<Rightarrow> (case state_record io (state_value st) who db of Inl _ \<Rightarrow> store | Inr (_, db') \<Rightarrow> Some db'))"

text \<open>\<^verbatim>\<open>__init__\<close>; \<open>opened\<close> is the store opened on the audit log's own file when none is given.\<close>

definition init_controller ::
  "bool \<Rightarrow> audit_row list option \<Rightarrow> state_store option \<Rightarrow> state_store \<Rightarrow> rat \<Rightarrow> rat \<Rightarrow> RollbackController" where
  "init_controller io audit store opened cooldown_seconds now =
    (let st = (if store = None \<and> audit \<noteq> None then Some opened else store);
         (gate, w5) = t5_evaluate now []
     in \<lparr>audit_log = audit, cooldown = cooldown_seconds, durable = persist_state io RUNNING None st,
         t1 = [], t2 = [], t3 = [], t4 = 0, t5 = w5, state = RUNNING, tripped_at = None, tripped_by = None,
         last_evaluations = [], last_gate_evaluation = gate, last_ack_by = None, last_ack_at = None\<rparr>)"

definition rb_snapshot :: "RollbackController \<Rightarrow> RollbackSnapshot" where
  "rb_snapshot c = \<lparr>snap_state = state c, snap_tripped_at = tripped_at c, snap_tripped_by = tripped_by c,
     snap_cooldown_seconds = cooldown c, snap_last_evaluations = last_evaluations c,
     snap_last_gate_evaluation = last_gate_evaluation c, snap_last_ack_by = last_ack_by c,
     snap_last_ack_at = last_ack_at c\<rparr>"

definition observe_request :: "bool \<Rightarrow> rat \<Rightarrow> bool \<Rightarrow> rat \<Rightarrow> RollbackController \<Rightarrow> RollbackController" where
  "observe_request is_error lat is_mismatch ts c =
    c\<lparr>t1 := t1_record ts is_error (t1 c), t2 := t2_record ts is_mismatch (t2 c), t3 := t3_record ts lat (t3 c),
      t5 := t5_record ts (t5 c)\<rparr>"

definition observe_data_loss :: "int \<Rightarrow> RollbackController \<Rightarrow> kernel_error + RollbackController" where
  "observe_data_loss count c = and_then (t4_record count (t4 c)) (\<lambda>n. Inr (c\<lparr>t4 := n\<rparr>))"

definition downgrade :: "bool \<Rightarrow> TriggerEvaluation \<Rightarrow> TriggerEvaluation" where
  "downgrade gate_active ev = (if gate_active then ev\<lparr>verdict := INSUFFICIENT_DATA\<rparr> else ev)"

definition evaluate_triggers :: "rat \<Rightarrow> bool \<Rightarrow> RollbackController \<Rightarrow> TriggerEvaluation list \<times> RollbackController" where
  "evaluate_triggers ts gate_active c =
    (let (e1, w1) = t1_evaluate ts (t1 c); (e2, w2) = t2_evaluate ts (t2 c); (e3, w3) = t3_evaluate ts (t3 c);
         e4 = t4_evaluate (t4 c)
     in (map (downgrade gate_active) [e1, e2, e3, e4], c\<lparr>t1 := w1, t2 := w2, t3 := w3\<rparr>))"

definition first_breach :: "TriggerEvaluation list \<Rightarrow> TriggerEvaluation option" where
  "first_breach evs = List.find (\<lambda>ev. verdict ev = BREACH) evs"

definition trip :: "bool \<Rightarrow> rat \<Rightarrow> TriggerEvaluation \<Rightarrow> RollbackController \<Rightarrow> RollbackController" where
  "trip io ts breach c = c\<lparr>state := TRIPPED, tripped_at := Some ts, tripped_by := Some (trigger_id breach),
     durable := persist_state io TRIPPED (Some (trigger_id breach)) (durable c)\<rparr>"

definition evaluate :: "bool \<Rightarrow> rat \<Rightarrow> RollbackController \<Rightarrow> RollbackSnapshot \<times> RollbackController" where
  "evaluate io ts c =
    (let (gate, w5) = t5_evaluate ts (t5 c);
         gate_active = (verdict gate = INSUFFICIENT_DATA);
         (evs, c1) = evaluate_triggers ts gate_active (c\<lparr>t5 := w5\<rparr>);
         c2 = c1\<lparr>last_evaluations := map (\<lambda>ev. (trigger_id ev, ev)) evs, last_gate_evaluation := gate\<rparr>;
         c3 = (case state c2 of
             RUNNING \<Rightarrow> (case first_breach evs of None \<Rightarrow> c2 | Some breach \<Rightarrow> trip io ts breach c2)
           | TRIPPED \<Rightarrow> (case tripped_at c2 of None \<Rightarrow> c2
               | Some t0 \<Rightarrow> if cooldown c2 \<le> ts - t0
                   then c2\<lparr>state := AWAITING_ACK, durable := persist_state io AWAITING_ACK (tripped_by c2) (durable c2)\<rparr>
                   else c2)
           | AWAITING_ACK \<Rightarrow> c2)
     in (rb_snapshot c3, c3))"

definition acknowledge ::
  "bool \<Rightarrow> pystr \<Rightarrow> pystr \<Rightarrow> pystr \<Rightarrow> pystr option \<Rightarrow> RollbackController \<Rightarrow> bool \<times> RollbackController" where
  "acknowledge io now eid who at_time c =
    (if who = [] then (False, c)
     else let resolved = or_text at_time now in
       if state c \<noteq> AWAITING_ACK then (False, c)
       else (True, c\<lparr>state := RUNNING, tripped_at := None, tripped_by := None, last_ack_by := Some who,
           last_ack_at := Some resolved, durable := persist_state io RUNNING None (durable c),
           t1 := [], t2 := [], t3 := [], t4 := 0,
           audit_log := map_option (\<lambda>rows. snd (record_ack io now eid who (Some resolved) rows)) (audit_log c)\<rparr>))"

definition force_running :: "RollbackController \<Rightarrow> RollbackController" where
  "force_running c = c\<lparr>state := RUNNING, tripped_at := None, tripped_by := None\<rparr>"

section \<open>Runs\<close>

text \<open>Any sequence of calls by any threads; \<^verbatim>\<open>force_running\<close> is for tests and not part of a run.\<close>

datatype rb_op =
    Request rat bool bool rat
  | DataLoss int
  | Evaluate bool rat
  | Acknowledge bool pystr pystr pystr "pystr option"

fun run_rb :: "rb_op \<Rightarrow> RollbackController \<Rightarrow> RollbackController" where
  "run_rb (Request ts is_error is_mismatch lat) c = observe_request is_error lat is_mismatch ts c"
| "run_rb (DataLoss n) c = (case observe_data_loss n c of Inl _ \<Rightarrow> c | Inr c' \<Rightarrow> c')"
| "run_rb (Evaluate io ts) c = snd (evaluate io ts c)"
| "run_rb (Acknowledge io now eid who at_time) c = snd (acknowledge io now eid who at_time c)"

lemma evaluate_state:
  "let c' = snd (evaluate io ts c) in
    (state c = RUNNING \<longrightarrow> state c' = RUNNING \<and> tripped_at c' = tripped_at c \<or> state c' = TRIPPED \<and> tripped_at c' = Some ts) \<and>
    (state c = TRIPPED \<longrightarrow> tripped_at c' = tripped_at c \<and>
      (state c' = TRIPPED \<or> state c' = AWAITING_ACK \<and> (\<exists>t0. tripped_at c = Some t0 \<and> cooldown c \<le> ts - t0))) \<and>
    (state c = AWAITING_ACK \<longrightarrow> state c' = AWAITING_ACK \<and> tripped_at c' = tripped_at c) \<and>
    cooldown c' = cooldown c"
  by (auto simp: evaluate_def Let_def case_prod_unfold evaluate_triggers_def trip_def
      split: CanaryState.splits option.splits)

lemma leaves_awaiting:
  assumes "state c = AWAITING_ACK" "state (run_rb op c) \<noteq> AWAITING_ACK"
  shows "\<exists>io now eid who at_time. op = Acknowledge io now eid who at_time \<and> who \<noteq> []"
  using assms evaluate_state
  by (cases op) (auto simp: observe_request_def observe_data_loss_def acknowledge_def Let_def t4_record_def split: if_splits)

lemma leaves_tripped:
  assumes "state c = TRIPPED" "tripped_at c = Some t0"
  shows "state (run_rb op c) = TRIPPED \<and> tripped_at (run_rb op c) = Some t0 \<and> cooldown (run_rb op c) = cooldown c \<or>
    state (run_rb op c) = AWAITING_ACK \<and> (\<exists>io ts. op = Evaluate io ts \<and> t0 + cooldown c \<le> ts)"
  using assms evaluate_state [of _ _ c]
  by (cases op) (auto simp: observe_request_def observe_data_loss_def acknowledge_def Let_def t4_record_def
      algebra_simps split: if_splits)

lemma awaiting_to_running:
  assumes "state c = AWAITING_ACK" "state (fold run_rb ops c) = RUNNING"
  shows "\<exists>ys io now eid who at_time zs. ops = ys @ Acknowledge io now eid who at_time # zs \<and> who \<noteq> []"
  using assms
proof (induction ops arbitrary: c)
  case (Cons op ops)
  show ?case
  proof (cases "state (run_rb op c) = AWAITING_ACK")
    case True
    with Cons.IH [OF True] Cons.prems(2) show ?thesis by (metis append_Cons fold_simps(2))
  next
    case False
    with leaves_awaiting [OF Cons.prems(1)] show ?thesis by (metis append_Nil)
  qed
qed simp

text \<open>C7: the canary never re-promotes itself. Whatever happens between, a controller that has tripped
  is running again only after an evaluation at least the cool-down after the trip and, after it,
  an acknowledgement by a named operator.\<close>

theorem no_auto_recovery:
  assumes "state c = TRIPPED" "tripped_at c = Some t0" "state (fold run_rb ops c) = RUNNING"
  shows "\<exists>xs io ts ys io' now eid who at_time zs.
    ops = xs @ Evaluate io ts # ys @ Acknowledge io' now eid who at_time # zs \<and>
    t0 + cooldown c \<le> ts \<and> who \<noteq> []"
  using assms
proof (induction ops arbitrary: c)
  case (Cons op ops)
  from leaves_tripped [OF Cons.prems(1,2), of op] show ?case
  proof
    assume s: "state (run_rb op c) = TRIPPED \<and> tripped_at (run_rb op c) = Some t0 \<and> cooldown (run_rb op c) = cooldown c"
    with Cons.IH [of "run_rb op c"] Cons.prems(3) show ?thesis by (metis append_Cons fold_simps(2))
  next
    assume s: "state (run_rb op c) = AWAITING_ACK \<and> (\<exists>io ts. op = Evaluate io ts \<and> t0 + cooldown c \<le> ts)"
    then obtain io ts where op: "op = Evaluate io ts" "t0 + cooldown c \<le> ts" by blast
    obtain ys io' now eid who at_time zs where
      "ops = ys @ Acknowledge io' now eid who at_time # zs" "who \<noteq> []"
      using awaiting_to_running [of "run_rb op c" ops] s Cons.prems(3) by auto
    with op show ?thesis by (metis append_Nil)
  qed
qed simp

definition demo_tripped :: RollbackController where
  "demo_tripped = (init_controller True (Some []) None (Some None) COOLDOWN_SECONDS 0)
     \<lparr>state := TRIPPED, tripped_at := Some 100, tripped_by := Some ''T4-data-loss''\<rparr>"

definition demo_recovery :: "rb_op list" where
  "demo_recovery = [Evaluate True 200, Evaluate True 1900, Acknowledge True ''now'' ''e'' [] None,
     Acknowledge True ''now'' ''e'' ''alice'' None]"

theorem no_auto_recovery_witness:
  "state (fold run_rb demo_recovery demo_tripped) = RUNNING \<and>
   (\<exists>xs io ts ys io' now eid who at_time zs.
      demo_recovery = xs @ Evaluate io ts # ys @ Acknowledge io' now eid who at_time # zs \<and> 1900 \<le> ts \<and> who \<noteq> [])"
proof -
  have e: "state demo_tripped = TRIPPED" "tripped_at demo_tripped = Some 100" "cooldown demo_tripped = 1800"
    by (simp_all add: demo_tripped_def init_controller_def COOLDOWN_SECONDS_def Let_def case_prod_unfold)
  have stays: "state (snd (evaluate io ts c)) = (if 1800 \<le> ts - 100 then AWAITING_ACK else TRIPPED) \<and>
      tripped_at (snd (evaluate io ts c)) = Some 100 \<and> cooldown (snd (evaluate io ts c)) = 1800"
    if "state c = TRIPPED" "tripped_at c = Some 100" "cooldown c = 1800" for io ts c
    using that by (auto simp: evaluate_def Let_def case_prod_unfold evaluate_triggers_def)
  have r: "state (fold run_rb demo_recovery demo_tripped) = RUNNING"
    using stays [OF e, of True 200] stays [of "snd (evaluate True 200 demo_tripped)" True 1900]
    by (simp add: demo_recovery_def acknowledge_def Let_def)
  from no_auto_recovery [OF e(1,2) r] r show ?thesis unfolding e(3) by simp
qed

end
