(* ===== verification/Rollback_Decision.thy ===== *)
theory Rollback_Decision
  imports Rollback
begin

text \<open>
  When the controller trips, as a function of the calls it has seen: the windows of the triggers
  stand for the history of requests, whatever evictions evaluations have made in between.
\<close>

section \<open>Windows and the histories they stand for\<close>

definition covers :: "rat \<Rightarrow> rat \<Rightarrow> window \<Rightarrow> window \<Rightarrow> bool" where
  "covers s now w xs \<longleftrightarrow> sorted (map fst xs) \<and> (\<forall>x \<in> set xs. fst x \<le> now) \<and> (\<exists>c \<le> now. w = recent s c xs)"

lemma covers_empty: "covers s now [] []"
  by (auto simp: covers_def recent_def)

lemma covers_later: "covers s now w xs \<Longrightarrow> now \<le> now' \<Longrightarrow> covers s now' w xs"
  unfolding covers_def by (blast intro: order_trans)

lemma covers_evict:
  assumes "covers s now w xs" "now \<le> now'"
  shows "window_evict s now' w = recent s now' xs" "covers s now' (window_evict s now' w) xs"
proof -
  obtain c where c: "c \<le> now" "w = recent s c xs" using assms(1) by (auto simp: covers_def)
  have so: "sorted (map fst xs)" using assms(1) by (simp add: covers_def)
  then have "sorted (map fst w)" unfolding c(2) recent_def by (rule sorted_filter)
  then have "window_evict s now' w = filter (\<lambda>x. now' - s \<le> fst x) w" by (rule evict_values)
  also have "... = recent s now' xs"
    using c assms(2) by (auto simp: recent_def intro: filter_cong)
  finally show e: "window_evict s now' w = recent s now' xs" .
  show "covers s now' (window_evict s now' w) xs"
    unfolding e using so assms by (force simp: covers_def)
qed

lemma covers_add:
  assumes "covers s now w xs" "now \<le> ts" "0 \<le> s"
  shows "covers s ts (window_add ts v w) (xs @ [(ts, v)])"
proof -
  obtain c where c: "c \<le> now" "w = recent s c xs" using assms(1) by (auto simp: covers_def)
  have "window_add ts v w = recent s c (xs @ [(ts, v)])"
    using c assms(2,3) by (simp add: window_add_def recent_def)
  moreover have "sorted (map fst (xs @ [(ts, v)]))" "\<forall>x \<in> set (xs @ [(ts, v)]). fst x \<le> ts"
    using assms(1,2) by (force simp: covers_def sorted_append)+
  ultimately show ?thesis using c(1) assms(2) unfolding covers_def by (meson order_trans)
qed

section \<open>Histories\<close>

fun rb_time :: "rb_op \<Rightarrow> rat option" where
  "rb_time (Request ts e m l) = Some ts"
| "rb_time (Evaluate io ts) = Some ts"
| "rb_time _ = None"

definition times :: "rb_op list \<Rightarrow> rat list" where
  "times ops = List.map_filter rb_time ops"

fun errors :: "rb_op list \<Rightarrow> (rat \<times> bool) list" where
  "errors [] = []"
| "errors (Request ts e m l # ops) = (ts, e) # errors ops"
| "errors (_ # ops) = errors ops"

fun mismatches :: "rb_op list \<Rightarrow> (rat \<times> bool) list" where
  "mismatches [] = []"
| "mismatches (Request ts e m l # ops) = (ts, m) # mismatches ops"
| "mismatches (_ # ops) = mismatches ops"

fun latencies :: "rb_op list \<Rightarrow> (rat \<times> rat) list" where
  "latencies [] = []"
| "latencies (Request ts e m l # ops) = (ts, l) # latencies ops"
| "latencies (_ # ops) = latencies ops"

fun losses :: "rb_op list \<Rightarrow> int" where
  "losses [] = 0"
| "losses (DataLoss n # ops) = (if n < 0 then 0 else n) + losses ops"
| "losses (_ # ops) = losses ops"

fun is_ack :: "rb_op \<Rightarrow> bool" where
  "is_ack (Acknowledge io now eid who at_time) = True"
| "is_ack _ = False"

text \<open>The decision of \<open>docs\<close> and of the module's own description, over the history alone.\<close>

definition should_trip :: "rat \<Rightarrow> rb_op list \<Rightarrow> bool" where
  "should_trip now ops \<longleftrightarrow> 50 \<le> length (recent 300 now (latencies ops)) \<and>
     (rate_alarm (recent 300 now (errors ops)) \<or> rate_alarm (recent 180 now (mismatches ops)) \<or>
      slow (recent 300 now (latencies ops)) \<or> 0 < losses ops)"

lemma histories_append:
  "errors (xs @ ys) = errors xs @ errors ys" "mismatches (xs @ ys) = mismatches xs @ mismatches ys"
  "latencies (xs @ ys) = latencies xs @ latencies ys" "losses (xs @ ys) = losses xs + losses ys"
  by (induction xs rule: errors.induct) auto

definition hits :: "rb_op list \<Rightarrow> window" where
  "hits ops = map (\<lambda>x. (fst x, 1)) (latencies ops)"

definition tracks :: "rat \<Rightarrow> rb_op list \<Rightarrow> RollbackController \<Rightarrow> bool" where
  "tracks now ops c \<longleftrightarrow> covers 300 now (t1 c) (flag_window (errors ops)) \<and>
     covers 180 now (t2 c) (flag_window (mismatches ops)) \<and> covers 300 now (t3 c) (latencies ops) \<and>
     t4 c = losses ops \<and> covers 300 now (t5 c) (hits ops)"

lemma flag_window_snoc: "flag_window (xs @ [(ts, b)]) = flag_window xs @ [(ts, flag b)]"
  by (simp add: flag_window_def)

lemma tracks_request:
  assumes "tracks now ops c" "now \<le> ts"
  shows "tracks ts (ops @ [Request ts e m l]) (run_rb (Request ts e m l) c)"
  using assms
  by (auto simp: tracks_def observe_request_def histories_append flag_window_snoc hits_def
      t1_record_def t2_record_def t3_record_def t5_record_def intro: covers_add)

lemma tracks_data_loss:
  "tracks now ops c \<Longrightarrow> tracks now (ops @ [DataLoss n]) (run_rb (DataLoss n) c)"
  by (simp add: tracks_def observe_data_loss_def t4_record_def histories_append hits_def)

lemma evaluate_triggers_windows:
  "t1 (snd (evaluate_triggers ts g c)) = window_evict 300 ts (t1 c)"
  "t2 (snd (evaluate_triggers ts g c)) = window_evict 180 ts (t2 c)"
  "t3 (snd (evaluate_triggers ts g c)) = window_evict 300 ts (t3 c)"
  "t4 (snd (evaluate_triggers ts g c)) = t4 c" "t5 (snd (evaluate_triggers ts g c)) = t5 c"
  "state (snd (evaluate_triggers ts g c)) = state c"
  by (simp_all add: evaluate_triggers_def t1_evaluate_def t2_evaluate_def t3_evaluate_def window_values_def
      WINDOW_T1_SECONDS_def WINDOW_T2_SECONDS_def WINDOW_T3_SECONDS_def Let_def case_prod_unfold)

lemma t5_window: "snd (t5_evaluate ts w) = window_evict 300 ts w"
  by (simp add: t5_evaluate_def t5_hits_def window_count_def WINDOW_T5_SECONDS_def Let_def)

lemma trip_windows [simp]:
  "t1 (trip io ts b c) = t1 c" "t2 (trip io ts b c) = t2 c" "t3 (trip io ts b c) = t3 c" "t4 (trip io ts b c) = t4 c"
  "t5 (trip io ts b c) = t5 c"
  by (simp_all add: trip_def)

lemma evaluate_windows:
  "t1 (snd (evaluate io ts c)) = window_evict 300 ts (t1 c)" "t2 (snd (evaluate io ts c)) = window_evict 180 ts (t2 c)"
  "t3 (snd (evaluate io ts c)) = window_evict 300 ts (t3 c)" "t4 (snd (evaluate io ts c)) = t4 c"
  "t5 (snd (evaluate io ts c)) = window_evict 300 ts (t5 c)"
  by (simp_all add: evaluate_def Let_def case_prod_unfold evaluate_triggers_windows t5_window
      split: CanaryState.split option.split)

lemma tracks_evaluate:
  assumes "tracks now ops c" "now \<le> ts"
  shows "tracks ts (ops @ [Evaluate io ts]) (run_rb (Evaluate io ts) c)"
  using assms by (auto simp: tracks_def evaluate_windows histories_append hits_def intro: covers_evict(2))

lemma times_snoc: "times (ops @ [x]) = times ops @ (case rb_time x of None \<Rightarrow> [] | Some t \<Rightarrow> [t])"
  by (simp add: times_def map_filter_def split: option.split)

lemma tracks_run:
  assumes "\<exists>io audit store opened cd. c0 = init_controller io audit store opened cd t0"
    and "sorted (t0 # times ops)" "\<not> list_ex is_ack ops"
  shows "tracks (last (t0 # times ops)) ops (fold run_rb ops c0)"
  using assms(2,3)
proof (induction ops rule: rev_induct)
  case Nil
  from assms(1) show ?case
    by (auto simp: tracks_def init_controller_def t5_evaluate_def t5_hits_def window_count_def window_evict_def
        Let_def case_prod_unfold flag_window_def hits_def covers_empty)
next
  case (snoc x ops)
  have so: "sorted (t0 # times ops)" using snoc.prems(1) by (auto simp: times_snoc sorted_append)
  with snoc have tr: "tracks (last (t0 # times ops)) ops (fold run_rb ops c0)" by simp
  have le: "last (t0 # times ops) \<le> t" if "rb_time x = Some t" for t
  proof -
    have "sorted ((t0 # times ops) @ [t])" using snoc.prems(1) that by (simp add: times_snoc)
    then have "\<forall>y \<in> set (t0 # times ops). y \<le> t" unfolding sorted_append by simp
    then show ?thesis using last_in_set [of "t0 # times ops"] by blast
  qed
  show ?case
  proof (cases x)
    case (Request ts e m l)
    with tracks_request [OF tr] le show ?thesis by (simp add: times_snoc del: run_rb.simps)
  next
    case (DataLoss n)
    with tracks_data_loss [OF tr] show ?thesis by (simp add: times_snoc del: run_rb.simps)
  next
    case (Evaluate io ts)
    with tracks_evaluate [OF tr] le show ?thesis by (simp add: times_snoc del: run_rb.simps)
  next
    case (Acknowledge io now eid who at_time)
    with snoc.prems(2) show ?thesis by simp
  qed
qed

section \<open>The decision\<close>

lemma first_breach_none: "first_breach evs = None \<longleftrightarrow> (\<forall>ev \<in> set evs. verdict ev \<noteq> BREACH)"
  by (simp add: first_breach_def find_None)

lemma evaluate_running:
  assumes "state c = RUNNING"
  shows "state (snd (evaluate io ts c)) =
    (if verdict (fst (t5_evaluate ts (t5 c))) \<noteq> INSUFFICIENT_DATA \<and>
        (verdict (fst (t1_evaluate ts (t1 c))) = BREACH \<or> verdict (fst (t2_evaluate ts (t2 c))) = BREACH \<or>
         verdict (fst (t3_evaluate ts (t3 c))) = BREACH \<or> verdict (t4_evaluate (t4 c)) = BREACH)
     then TRIPPED else RUNNING)"
proof -
  let ?g = "verdict (fst (t5_evaluate ts (t5 c))) = INSUFFICIENT_DATA"
  let ?evs = "fst (evaluate_triggers ts ?g (c\<lparr>t5 := snd (t5_evaluate ts (t5 c))\<rparr>))"
  have "state (snd (evaluate io ts c)) = (if first_breach ?evs = None then RUNNING else TRIPPED)"
    using assms
    by (simp add: evaluate_def Let_def case_prod_unfold evaluate_triggers_windows trip_def split: option.split)
  moreover have "first_breach ?evs = None \<longleftrightarrow> ?g \<or>
      \<not> (verdict (fst (t1_evaluate ts (t1 c))) = BREACH \<or> verdict (fst (t2_evaluate ts (t2 c))) = BREACH \<or>
         verdict (fst (t3_evaluate ts (t3 c))) = BREACH \<or> verdict (t4_evaluate (t4 c)) = BREACH)"
    by (auto simp: first_breach_none evaluate_triggers_def Let_def case_prod_unfold downgrade_def)
  ultimately show ?thesis by auto
qed

lemma evaluate_decides:
  assumes "c0 = init_controller io0 audit store opened cd t0"
    and "sorted (t0 # times ops @ [ts])" "\<not> list_ex is_ack ops"
    and "state (fold run_rb ops c0) = RUNNING"
  shows "state (run_rb (Evaluate io ts) (fold run_rb ops c0)) = (if should_trip ts ops then TRIPPED else RUNNING)"
proof -
  let ?c = "fold run_rb ops c0"
  have so: "sorted ((t0 # times ops) @ [ts])" using assms(2) by simp
  then have "sorted (t0 # times ops)" "\<forall>y \<in> set (t0 # times ops). y \<le> ts"
    unfolding sorted_append by simp_all
  then have le: "last (t0 # times ops) \<le> ts" and tr: "tracks (last (t0 # times ops)) ops ?c"
    using last_in_set [of "t0 # times ops"] tracks_run [of c0 t0 ops] assms(1,3) by blast+
  have w: "window_evict 300 ts (t1 ?c) = flag_window (recent 300 ts (errors ops))"
    "window_evict 180 ts (t2 ?c) = flag_window (recent 180 ts (mismatches ops))"
    "window_evict 300 ts (t3 ?c) = recent 300 ts (latencies ops)" "t4 ?c = losses ops"
    "window_evict 300 ts (t5 ?c) = recent 300 ts (hits ops)"
    using tr covers_evict(1) [OF _ le] unfolding tracks_def recent_flag_window [symmetric] by blast+
  have "length (recent 300 ts (hits ops)) = length (recent 300 ts (latencies ops))"
    by (simp add: hits_def recent_def filter_map comp_def)
  then show ?thesis
    using evaluate_running [OF assms(4), of io ts] t1_verdict [OF w(1)] t2_verdict [OF w(2)] t3_verdict [OF w(3)]
      t5_verdict [of ts "t5 ?c"] w(4,5)
    by (auto simp: should_trip_def t4_evaluate_def T4_THRESHOLD_def not_less)
qed


definition demo_requests :: "rb_op list" where
  "demo_requests = replicate 49 (Request 1 False False 5) @ [Request 2 True False 5]"

lemma histories_replicate:
  "errors (replicate n (Request ts e m l)) = replicate n (ts, e)"
  "mismatches (replicate n (Request ts e m l)) = replicate n (ts, m)"
  "latencies (replicate n (Request ts e m l)) = replicate n (ts, l)"
  "times (replicate n (Request ts e m l)) = replicate n ts" "losses (replicate n (Request ts e m l)) = 0"
  by (induction n) (auto simp: times_def map_filter_def)

definition demo_controller :: RollbackController where
  "demo_controller = init_controller True None None None COOLDOWN_SECONDS 0"

lemma requests_keep_state:
  "list_all (\<lambda>x. \<exists>ts e m l. x = Request ts e m l) ops \<Longrightarrow> state (fold run_rb ops c) = state c"
  by (induction ops arbitrary: c) (auto simp: observe_request_def)

lemma demo_requests_trip: "state (run_rb (Evaluate True 10) (fold run_rb demo_requests demo_controller)) = TRIPPED"
  if "should_trip 10 demo_requests \<Longrightarrow> state (run_rb (Evaluate True 10) (fold run_rb demo_requests demo_controller)) = TRIPPED"
  using that
  by (simp add: should_trip_def demo_requests_def histories_append histories_replicate recent_def rate_alarm_def
      filter_replicate)


definition quiet_history :: "rb_op list" where
  "quiet_history = replicate 151 (Request 1 False False 5) @ replicate 49 (Request 200 False False 5) @ [Request 200 True False 5]"

text \<open>An evaluation without new observations is not a no-op for a running controller: as the
  successes leave the window the error rate of what is left grows, and the same history trips at a
  later evaluation.\<close>

theorem evaluate_again_can_trip:
  "let c1 = run_rb (Evaluate io 250) (fold run_rb quiet_history demo_controller) in
    state c1 = RUNNING \<and> state (run_rb (Evaluate io 400) c1) = TRIPPED"
proof -
  let ?c = "fold run_rb quiet_history demo_controller"
  let ?ops = "quiet_history @ [Evaluate io 250]"
  have h: "times quiet_history = replicate 151 1 @ replicate 49 200 @ [200]" "\<not> list_ex is_ack quiet_history"
    by (simp_all add: quiet_history_def times_def map_filter_def list_ex_iff)
  have run: "state ?c = RUNNING"
    by (subst requests_keep_state)
      (auto simp: quiet_history_def list_all_iff demo_controller_def init_controller_def Let_def case_prod_unfold)
  have "\<not> should_trip 250 quiet_history" "should_trip 400 ?ops"
    by (simp_all add: should_trip_def quiet_history_def histories_append histories_replicate recent_def rate_alarm_def
        slow_def filter_replicate)
  moreover have "sorted (0 # times quiet_history @ [250])" "sorted (0 # times ?ops @ [400])"
    by (simp_all add: h times_snoc sorted_append)
  ultimately have "state (run_rb (Evaluate io 250) ?c) = RUNNING"
    "state (run_rb (Evaluate io 250) ?c) = RUNNING \<Longrightarrow> state (run_rb (Evaluate io 400) (run_rb (Evaluate io 250) ?c)) = TRIPPED"
    using evaluate_decides [of demo_controller True None None None COOLDOWN_SECONDS 0 quiet_history 250 io] run h(2)
      evaluate_decides [of demo_controller True None None None COOLDOWN_SECONDS 0 ?ops 400 io]
    by (simp_all add: demo_controller_def del: run_rb.simps)
  then show ?thesis by (simp add: Let_def)
qed

end
