(* ===== verification/Query_Types.thy ===== *)
theory Query_Types
  imports Prelude
begin

text \<open>
  The vocabulary of the router, \<^verbatim>\<open>router/types.py\<close>, and the table from the older names to it,
  \<^verbatim>\<open>router/crosswalk_seed.py\<close>.
\<close>

section \<open>Query types and the seed\<close>

datatype QueryType = RECENT_CONTEXT | ARTIFACT_CONTEXT | ENTITY_PROFILE | CHANGE_TRACE | TEMPORAL_CONTEXT

definition query_type_value :: "QueryType \<Rightarrow> pystr" where
  "query_type_value q = (case q of RECENT_CONTEXT \<Rightarrow> ''recent_context'' | ARTIFACT_CONTEXT \<Rightarrow> ''artifact_context''
     | ENTITY_PROFILE \<Rightarrow> ''entity_profile'' | CHANGE_TRACE \<Rightarrow> ''change_trace'' | TEMPORAL_CONTEXT \<Rightarrow> ''temporal_context'')"

datatype MappingState = MAPPED | UNMAPPED | CONFLICT

definition mapping_state_value :: "MappingState \<Rightarrow> pystr" where
  "mapping_state_value s = (case s of MAPPED \<Rightarrow> ''mapped'' | UNMAPPED \<Rightarrow> ''unmapped'' | CONFLICT \<Rightarrow> ''conflict'')"

definition CROSSWALK_SEED :: "(pystr \<times> QueryType) list" where
  "CROSSWALK_SEED =
    [(''Intent.TEMPORAL'', TEMPORAL_CONTEXT), (''Intent.MULTI_SESSION'', RECENT_CONTEXT),
     (''Intent.PREFERENCE'', ENTITY_PROFILE), (''Intent.USER_FACT'', ENTITY_PROFILE),
     (''Intent.KNOWLEDGE_UPDATE'', CHANGE_TRACE), (''RetrieveKind.recent'', RECENT_CONTEXT),
     (''RetrieveKind.file'', ARTIFACT_CONTEXT), (''RetrieveKind.decision'', CHANGE_TRACE),
     (''RetrieveKind.bug'', CHANGE_TRACE), (''RetrieveKind.entity'', ENTITY_PROFILE),
     (''RetrieveKind.timeline'', TEMPORAL_CONTEXT)]"

text \<open>\<open>None\<close> is \<^verbatim>\<open>UnroutableQueryError\<close>.\<close>

definition resolve :: "pystr \<Rightarrow> QueryType option" where
  "resolve legacy = map_of CROSSWALK_SEED legacy"

datatype DataQualityFlag = NORMAL | CORPUS_IMMATURE | COLD_START

definition data_quality_value :: "DataQualityFlag \<Rightarrow> pystr" where
  "data_quality_value f = (case f of NORMAL \<Rightarrow> ''normal'' | CORPUS_IMMATURE \<Rightarrow> ''corpus_immature'' | COLD_START \<Rightarrow> ''cold_start'')"

end
