(* ===== verification/Crosswalk.thy ===== *)
theory Crosswalk
  imports Store Query_Types
begin

text \<open>
  The crosswalk table of \<^verbatim>\<open>migrations/m0011_crosswalk.py\<close>: its row, the primary key and the UNIQUE index, the upsert the
  writers of \<open>Backfill_Runner\<close> use and the insert that ignores a clash, used by the writers of \<open>Corpus_Backfill\<close>. The
  table is a list of rows, apart from the core tables of \<open>Store\<close>. Proved: no operation stores two rows with one key,
  and on rows whose reference is their kind and id the second index never raises.
\<close>

section \<open>The table\<close>

record crosswalk_row =
  cw_user_id :: pystr
  cw_canonical_ref :: pystr
  cw_target_kind :: pystr
  cw_target_id :: pystr
  cw_query_type :: "pystr option"
  cw_state :: pystr
  cw_content_hash :: pystr
  cw_source_id :: "pystr option"
  cw_vault_path :: "pystr option"
  cw_aphelion_doc_id :: "pystr option"
  cw_created_at :: pystr
  cw_updated_at :: pystr

text \<open>The primary key and the UNIQUE index.\<close>

definition cw_key :: "crosswalk_row \<Rightarrow> pystr \<times> pystr" where
  "cw_key r = (cw_user_id r, cw_canonical_ref r)"

definition cw_target :: "crosswalk_row \<Rightarrow> pystr \<times> pystr \<times> pystr" where
  "cw_target r = (cw_user_id r, cw_target_kind r, cw_target_id r)"

definition cw_merge :: "crosswalk_row \<Rightarrow> crosswalk_row \<Rightarrow> crosswalk_row" where
  "cw_merge old new = old\<lparr>cw_target_kind := cw_target_kind new, cw_target_id := cw_target_id new,
     cw_query_type := cw_query_type new, cw_state := cw_state new, cw_content_hash := cw_content_hash new,
     cw_source_id := cw_source_id new, cw_vault_path := cw_vault_path new, cw_updated_at := cw_updated_at new\<rparr>"

text \<open>The conflict clause names the primary key only; a clash on the other index raises.\<close>

definition cw_upsert :: "crosswalk_row \<Rightarrow> crosswalk_row list \<Rightarrow> kernel_error + crosswalk_row list" where
  "cw_upsert r rows =
    (if list_ex (\<lambda>x. cw_target x = cw_target r \<and> cw_key x \<noteq> cw_key r) rows then Inl UniqueError
     else Inr (upsert cw_key cw_merge r rows))"

definition upsert_crosswalk ::
  "pystr \<Rightarrow> pystr \<Rightarrow> pystr \<Rightarrow> pystr \<Rightarrow> pystr \<Rightarrow> pystr option \<Rightarrow> MappingState \<Rightarrow> pystr \<Rightarrow> pystr option \<Rightarrow> pystr option \<Rightarrow>
   crosswalk_row list \<Rightarrow> kernel_error + crosswalk_row list" where
  "upsert_crosswalk now user_id ref kind tid qt st ch sid vault rows =
    cw_upsert \<lparr>cw_user_id = user_id, cw_canonical_ref = ref, cw_target_kind = kind, cw_target_id = tid,
      cw_query_type = qt, cw_state = mapping_state_value st, cw_content_hash = ch, cw_source_id = sid,
      cw_vault_path = vault, cw_aphelion_doc_id = None, cw_created_at = now, cw_updated_at = now\<rparr> rows"

definition cw_insert_or_ignore :: "crosswalk_row \<Rightarrow> crosswalk_row list \<Rightarrow> crosswalk_row list" where
  "cw_insert_or_ignore = insert_or_ignore cw_key cw_target"

interpretation cw: dedup_table cw_key cw_target cw_insert_or_ignore
  unfolding cw_insert_or_ignore_def by (rule ignore.dedup_table_axioms)

lemma cw_merge_key: "cw_key (cw_merge x r) = cw_key x"
  by (simp add: cw_key_def cw_merge_def)

interpretation cwu: upsert_table cw_key cw_merge "upsert cw_key cw_merge"
  by (rule upsert_laws) (simp add: cw_merge_key)

text \<open>Every row's reference is its kind and id.\<close>

definition ref_of :: "pystr \<Rightarrow> pystr \<Rightarrow> pystr" where
  "ref_of kind tid = kind @ '':'' @ tid"

definition cw_ok :: "crosswalk_row list \<Rightarrow> bool" where
  "cw_ok rows \<longleftrightarrow> distinct (map cw_key rows) \<and>
     list_all (\<lambda>r. cw_canonical_ref r = ref_of (cw_target_kind r) (cw_target_id r)) rows"

text \<open>The row stored under a primary key.\<close>

definition cw_lookup :: "pystr \<times> pystr \<Rightarrow> crosswalk_row list \<Rightarrow> crosswalk_row option" where
  "cw_lookup k rows = List.find (\<lambda>r. cw_key r = k) rows"

lemma cw_lookup_get: "cw_lookup = cwu.get"
  by (intro ext) (simp add: cw_lookup_def cwu.get_def)

lemma ref_of_inj: "ref_of kind a = ref_of kind b \<longleftrightarrow> a = b"
  by (simp add: ref_of_def)

lemma cw_ok_unique:
  assumes "cw_ok rows" "x \<in> set rows" "cw_canonical_ref r = ref_of (cw_target_kind r) (cw_target_id r)"
    "cw_target x = cw_target r"
  shows "cw_key x = cw_key r"
  using assms by (auto simp: cw_ok_def list_all_iff cw_target_def cw_key_def)

text \<open>On rows whose reference is their kind and id the second index never raises.\<close>

lemma cw_upsert_ok:
  assumes ok: "cw_ok rows" and r: "cw_canonical_ref r = ref_of (cw_target_kind r) (cw_target_id r)"
  shows "cw_upsert r rows = Inr (upsert cw_key cw_merge r rows)" and "cw_ok (upsert cw_key cw_merge r rows)"
proof -
  show "cw_upsert r rows = Inr (upsert cw_key cw_merge r rows)"
    using cw_ok_unique [OF ok _ r] by (auto simp: cw_upsert_def list_ex_iff)
  have "\<forall>x \<in> set (upsert cw_key cw_merge r rows). cw_canonical_ref x = ref_of (cw_target_kind x) (cw_target_id x)"
    using ok r by (auto simp: upsert_def cw_ok_def list_all_iff cw_merge_def cw_key_def)
  then show "cw_ok (upsert cw_key cw_merge r rows)"
    using ok cwu.ups_distinct [of rows r] by (simp add: cw_ok_def list_all_iff)
qed

lemma cw_insert_ok:
  assumes "cw_ok rows" "cw_canonical_ref r = ref_of (cw_target_kind r) (cw_target_id r)"
  shows "cw_ok (cw_insert_or_ignore r rows)"
  using assms cw.ins_distinct_pk [of rows r] cw.ins_bound [of r rows] by (auto simp: cw_ok_def list_all_iff)

end
