(* ===== verification/Backfill_Runner.thy ===== *)
theory Backfill_Runner
  imports Crosswalk Hashing
begin

text \<open>
  \<^verbatim>\<open>router/backfill.py\<close>: the classification of claims, the fingerprint of the core tables and
  \<open>BackfillRunner\<close>, which maps every claim and memory of a user into the crosswalk. Proved: applying
  the back-fill makes the crosswalk agree with the plan, and the digest read in chunks is the digest
  of the whole table.
\<close>

section \<open>Classifying predicates\<close>

text \<open>\<^verbatim>\<open>^(fix|bug[_-]?fix|bugfix)(:|$)\<close>, ignoring case; \<open>$\<close> also matches before a final newline.\<close>

definition bug_re_match :: "pystr \<Rightarrow> bool" where
  "bug_re_match predicate = (let s = lower predicate in
     list_ex (\<lambda>p. startswith s p \<and> (let r = drop (length p) s in r = [] \<or> r = [CHR 0x0A] \<or> startswith r '':''))
       [''fix'', ''bug_fix'', ''bug-fix'', ''bugfix''])"

definition classify_claim_predicate :: "pystr \<Rightarrow> pystr" where
  "classify_claim_predicate predicate =
    (if startswith (lower predicate) ''decision:'' then ''RetrieveKind.decision''
     else if bug_re_match predicate then ''RetrieveKind.bug''
     else ''RetrieveKind.entity'')"

section \<open>Fingerprints\<close>

definition CHUNK_SIZE :: nat where
  "CHUNK_SIZE = 1000"

text \<open>The bytes one row adds to the digest; a value is given as its \<^verbatim>\<open>str\<close>, \<open>None\<close> for NULL.\<close>

definition row_bytes :: "pystr option list \<Rightarrow> pystr" where
  "row_bytes vs = concat (map (\<lambda>v. [CHR 0x1F] @ (case v of None \<Rightarrow> ''<NULL>'' | Some s \<Rightarrow> s) @ [CHR 0x1E]) vs) @ [CHR 0x0A]"

text \<open>The loop over \<^verbatim>\<open>LIMIT ? OFFSET ?\<close>: what has been fed to the digest, the count and the offset.\<close>

function snapshot_loop :: "pystr option list list \<Rightarrow> pystr \<Rightarrow> nat \<Rightarrow> nat \<Rightarrow> pystr \<times> nat" where
  "snapshot_loop table fed cnt offset =
    (let chunk = take CHUNK_SIZE (drop offset table) in
     if chunk = [] then (fed, cnt)
     else let fed' = fed @ concat (map row_bytes chunk); cnt' = cnt + length chunk in
       if length chunk < CHUNK_SIZE then (fed', cnt')
       else snapshot_loop table fed' cnt' (offset + length chunk))"
  by auto
termination
  by (relation "measure (\<lambda>(table, _, _, offset). length table - offset)") (auto simp: CHUNK_SIZE_def)

declare snapshot_loop.simps [simp del]

record snapshot =
  snap_count :: nat
  snap_digest :: pystr

definition table_snapshot :: "digests \<Rightarrow> pystr option list list \<Rightarrow> snapshot" where
  "table_snapshot h table = (let (fed, cnt) = snapshot_loop table [] 0 0 in
     \<lparr>snap_count = cnt, snap_digest = sha256_hex h fed\<rparr>)"

text \<open>The columns in schema order. \<open>str_conf\<close> and \<open>str_json\<close> give the text of a REAL and of a payload.\<close>

record renderers =
  str_conf :: "rat \<Rightarrow> pystr"
  str_json :: "jtext \<Rightarrow> pystr"

definition event_cells :: "renderers \<Rightarrow> event_row \<Rightarrow> pystr option list" where
  "event_cells s e = [Some (evt_id e), Some (evt_user_id e), Some (evt_actor e), Some (evt_type e), evt_target_kind e,
     evt_target_id e, Some (str_json s (evt_payload_json e)), evt_approval_tier e, Some (evt_created_at e), evt_session_id e]"

definition claim_cells :: "renderers \<Rightarrow> claim_row \<Rightarrow> pystr option list" where
  "claim_cells s c = [Some (clm_id c), Some (clm_user_id c), Some (clm_subject c), Some (clm_predicate c),
     Some (clm_object c), Some (clm_source_id c), Some (clm_content_hash c), map_option (str_conf s) (clm_confidence c),
     Some (clm_state c), Some (clm_created_at c), Some (clm_updated_at c)]"

definition memory_cells :: "memory_row \<Rightarrow> pystr option list" where
  "memory_cells m = [Some (mem_id m), Some (mem_user_id m), mem_source_id m, Some (mem_vault_path m), mem_title m,
     mem_summary m, Some (mem_content_hash m), Some (mem_state m), Some (mem_created_at m), Some (mem_updated_at m)]"

definition decision_cells :: "decision_row \<Rightarrow> pystr option list" where
  "decision_cells x = [Some (dec_id x), Some (dec_user_id x), Some (dec_target_kind x), Some (dec_target_id x),
     Some (dec_action x), Some (dec_actor x), dec_approval_tier x, Some (dec_state x), dec_rationale x, Some (dec_created_at x)]"

definition crosswalk_cells :: "crosswalk_row \<Rightarrow> pystr option list" where
  "crosswalk_cells r = [Some (cw_user_id r), Some (cw_canonical_ref r), Some (cw_target_kind r), Some (cw_target_id r),
     cw_query_type r, Some (cw_state r), Some (cw_content_hash r), cw_source_id r, cw_vault_path r, cw_aphelion_doc_id r,
     None, None, Some (cw_created_at r), Some (cw_updated_at r)]"

definition snapshot_json :: "snapshot \<Rightarrow> pystr" where
  "snapshot_json s = ''{\"count\":'' @ dec_nat (snap_count s) @ '',\"digest\":\"'' @ snap_digest s @ ''\"}''"

definition core_fingerprint :: "digests \<Rightarrow> renderers \<Rightarrow> db \<Rightarrow> pystr" where
  "core_fingerprint h s d = sha256_hex h
     (''{\"claims\":'' @ snapshot_json (table_snapshot h (map (claim_cells s) (claims d))) @
      '',\"decisions\":'' @ snapshot_json (table_snapshot h (map decision_cells (decisions d))) @
      '',\"events\":'' @ snapshot_json (table_snapshot h (map (event_cells s) (events d))) @
      '',\"memories\":'' @ snapshot_json (table_snapshot h (map memory_cells (memories d))) @ ''}'')"

section \<open>BackfillRunner\<close>

record BackfillRequest =
  req_user_id :: pystr
  dry_run :: bool
  scope :: pystr

record BackfillReport =
  rep_examined :: nat
  rep_mapped :: nat
  rep_unmapped :: nat
  rep_conflict :: nat
  rep_writes :: nat

definition MAX_BACKFILL_ROWS :: nat where
  "MAX_BACKFILL_ROWS = 10000"

definition scope_limit :: "pystr \<Rightarrow> nat" where
  "scope_limit sc = (if sc = ''sample'' then 50 else MAX_BACKFILL_ROWS)"

text \<open>\<^verbatim>\<open>ORDER BY f DESC, g ASC\<close>.\<close>

definition desc_asc :: "('a \<Rightarrow> 'b::linorder) \<Rightarrow> ('a \<Rightarrow> 'c::linorder) \<Rightarrow> 'a list \<Rightarrow> 'a list" where
  "desc_asc f g xs = rev (sort_key f (rev (sort_key g xs)))"

definition recent_claims :: "pystr \<Rightarrow> nat \<Rightarrow> db \<Rightarrow> claim_row list" where
  "recent_claims u limit d = take limit (desc_asc clm_created_at clm_id (filter (\<lambda>c. clm_user_id c = u) (claims d)))"

definition recent_memories :: "pystr \<Rightarrow> nat \<Rightarrow> db \<Rightarrow> memory_row list" where
  "recent_memories u limit d = take limit (desc_asc mem_created_at mem_id (filter (\<lambda>m. mem_user_id m = u) (memories d)))"

text \<open>What one row of the loop is about, and the state and query type the seed gives it.\<close>

record entry =
  ent_kind :: pystr
  ent_id :: pystr
  ent_probe :: pystr
  ent_hash :: pystr
  ent_source :: "pystr option"
  ent_vault :: "pystr option"

definition claim_entry :: "claim_row \<Rightarrow> entry" where
  "claim_entry c = \<lparr>ent_kind = ''claim'', ent_id = clm_id c, ent_probe = classify_claim_predicate (clm_predicate c),
     ent_hash = clm_content_hash c, ent_source = Some (clm_source_id c), ent_vault = None\<rparr>"

definition memory_entry :: "memory_row \<Rightarrow> entry" where
  "memory_entry m = \<lparr>ent_kind = ''memory'', ent_id = mem_id m, ent_probe = ''RetrieveKind.recent'',
     ent_hash = mem_content_hash m, ent_source = mem_source_id m, ent_vault = Some (mem_vault_path m)\<rparr>"

definition entry_state :: "entry \<Rightarrow> MappingState" where
  "entry_state e = (if resolve (ent_probe e) = None then UNMAPPED else MAPPED)"

definition entry_query_type :: "entry \<Rightarrow> pystr option" where
  "entry_query_type e = map_option query_type_value (resolve (ent_probe e))"

record enum_state =
  n_mapped :: nat
  n_unmapped :: nat
  n_writes :: nat
  cw_rows :: "crosswalk_row list"

definition enum_row :: "(nat \<Rightarrow> pystr) \<Rightarrow> bool \<Rightarrow> pystr \<Rightarrow> entry \<Rightarrow> enum_state \<Rightarrow> kernel_error + enum_state" where
  "enum_row clock write u e s =
    (let s1 = (if entry_state e = MAPPED then s\<lparr>n_mapped := n_mapped s + 1\<rparr> else s\<lparr>n_unmapped := n_unmapped s + 1\<rparr>)
     in if write then
          and_then (upsert_crosswalk (clock (n_writes s)) u (ref_of (ent_kind e) (ent_id e)) (ent_kind e) (ent_id e)
              (entry_query_type e) (entry_state e) (ent_hash e) (ent_source e) (ent_vault e) (cw_rows s))
            (\<lambda>rows. Inr (s1\<lparr>n_writes := n_writes s + 1, cw_rows := rows\<rparr>))
        else Inr s1)"

definition entries :: "pystr \<Rightarrow> nat \<Rightarrow> db \<Rightarrow> entry list" where
  "entries u limit d = map claim_entry (recent_claims u limit d) @ map memory_entry (recent_memories u limit d)"

definition enumerate_rows ::
  "(nat \<Rightarrow> pystr) \<Rightarrow> bool \<Rightarrow> BackfillRequest \<Rightarrow> db \<Rightarrow> crosswalk_row list \<Rightarrow> kernel_error + enum_state" where
  "enumerate_rows clock write req d rows =
    fold_res (enum_row clock write (req_user_id req)) (entries (req_user_id req) (scope_limit (scope req)) d)
      \<lparr>n_mapped = 0, n_unmapped = 0, n_writes = 0, cw_rows = rows\<rparr>"

text \<open>
  \<^verbatim>\<open>run\<close>. \<open>locked\<close> says of each of the four attempts whether \<^verbatim>\<open>BEGIN IMMEDIATE\<close> finds the database
  locked; \<open>before\<close> and \<open>after\<close> are what other connections commit between the first fingerprint and
  the enumeration, and between the enumeration and the second fingerprint.
\<close>

definition report :: "entry list \<Rightarrow> enum_state \<Rightarrow> BackfillReport" where
  "report es s = \<lparr>rep_examined = length es, rep_mapped = n_mapped s, rep_unmapped = n_unmapped s,
     rep_conflict = 0, rep_writes = n_writes s\<rparr>"

type_synonym others = "db \<times> crosswalk_row list \<Rightarrow> db \<times> crosswalk_row list"

definition run_backfill ::
  "digests \<Rightarrow> renderers \<Rightarrow> bool \<Rightarrow> bool list \<Rightarrow> others \<Rightarrow> others \<Rightarrow> (nat \<Rightarrow> pystr) \<Rightarrow> BackfillRequest \<Rightarrow>
   db \<times> crosswalk_row list \<Rightarrow> (kernel_error + BackfillReport) \<times> db \<times> crosswalk_row list" where
  "run_backfill h s exists locked before after clock req st =
    (if \<not> dry_run req \<and> \<not> exists then (Inl (ValueError ''crosswalk table is required for dry_run=False''), st)
     else let st1 = before st in
       if \<not> dry_run req \<and> 4 \<le> length locked \<and> list_all id (take 4 locked)
       then (Inl (RuntimeError ''SQLITE_BUSY after retries''), st1)
       else case enumerate_rows clock (\<not> dry_run req) req (fst st1) (snd st1) of
           Inl e \<Rightarrow> (Inl e, st1)
         | Inr en \<Rightarrow>
             let st2 = after (fst st1, cw_rows en) in
             if core_fingerprint h s (fst st) \<noteq> core_fingerprint h s (fst st2)
             then (Inl (RuntimeError ''BackfillRunner violated read-only core invariant''), st2)
             else if dry_run req \<and> exists \<and>
               table_snapshot h (map crosswalk_cells (snd st)) \<noteq> table_snapshot h (map crosswalk_cells (snd st2))
             then (Inl (RuntimeError ''BackfillRunner dry_run violated no-write invariant''), st2)
             else (Inr (report (entries (req_user_id req) (scope_limit (scope req)) (fst st1)) en), st2))"

section \<open>The plan\<close>

record plan_row =
  plan_ref :: pystr
  plan_kind :: pystr
  plan_id :: pystr
  plan_state :: pystr
  plan_query_type :: "pystr option"

definition plan_entry :: "entry \<Rightarrow> plan_row" where
  "plan_entry e = \<lparr>plan_ref = ref_of (ent_kind e) (ent_id e), plan_kind = ent_kind e, plan_id = ent_id e,
     plan_state = mapping_state_value (entry_state e), plan_query_type = entry_query_type e\<rparr>"

definition plan_upserts :: "pystr \<Rightarrow> pystr \<Rightarrow> db \<Rightarrow> plan_row list" where
  "plan_upserts u sc d = sort_key plan_ref (map plan_entry (entries u (scope_limit sc) d))"

section \<open>The digest\<close>

lemma snapshot_loop_all:
  "snapshot_loop table fed cnt offset =
    (fed @ concat (map row_bytes (drop offset table)), cnt + length (drop offset table))"
proof (induction table fed cnt offset rule: snapshot_loop.induct)
  case (1 table fed cnt offset)
  define chunk where "chunk = take CHUNK_SIZE (drop offset table)"
  have len: "length chunk = min CHUNK_SIZE (length table - offset)" by (simp add: chunk_def)
  consider "chunk = []" | "chunk \<noteq> []" "length chunk < CHUNK_SIZE" | "chunk \<noteq> []" "length chunk = CHUNK_SIZE"
    using len by linarith
  then show ?case
  proof cases
    case 1
    then have "drop offset table = []" by (auto simp: chunk_def CHUNK_SIZE_def)
    then show ?thesis by (subst snapshot_loop.simps) simp
  next
    case 2
    then have "chunk = drop offset table" using len by (simp add: chunk_def)
    moreover have "length table - offset < CHUNK_SIZE" "offset < length table" using 2 len by (auto simp: chunk_def)
    ultimately show ?thesis by (subst snapshot_loop.simps) (simp add: chunk_def Let_def)
  next
    case 3
    have split: "drop offset table = chunk @ drop (offset + length chunk) table"
      unfolding 3(2) unfolding chunk_def by (metis add.commute append_take_drop_id drop_drop)
    have "snapshot_loop table (fed @ concat (map row_bytes chunk)) (cnt + length chunk) (offset + length chunk) =
      ((fed @ concat (map row_bytes chunk)) @ concat (map row_bytes (drop (offset + length chunk) table)),
        cnt + length chunk + length (drop (offset + length chunk) table))"
      using "1.IH" [OF chunk_def] 3 by (simp add: Let_def)
    moreover have "snapshot_loop table fed cnt offset =
      snapshot_loop table (fed @ concat (map row_bytes chunk)) (cnt + length chunk) (offset + length chunk)"
      using 3 by (subst snapshot_loop.simps) (simp add: chunk_def [symmetric] Let_def)
    ultimately show ?thesis by (simp add: split)
  qed
qed

text \<open>Reading a table in chunks of a thousand rows feeds the digest exactly the bytes of the whole table in
  row order, and counts its rows; in particular the loop ends.\<close>

theorem table_snapshot_whole:
  "table_snapshot h table = \<lparr>snap_count = length table, snap_digest = sha256_hex h (concat (map row_bytes table))\<rparr>"
  by (simp add: table_snapshot_def snapshot_loop_all)

section \<open>What a run writes\<close>

abbreviation ent_ref :: "entry \<Rightarrow> pystr" where
  "ent_ref e \<equiv> ref_of (ent_kind e) (ent_id e)"

text \<open>The row agrees with the entry.\<close>

definition row_of_entry :: "entry \<Rightarrow> crosswalk_row \<Rightarrow> bool" where
  "row_of_entry e r \<longleftrightarrow> cw_target_kind r = ent_kind e \<and> cw_target_id r = ent_id e \<and>
     cw_state r = mapping_state_value (entry_state e) \<and> cw_query_type r = entry_query_type e \<and>
     cw_content_hash r = ent_hash e \<and> cw_source_id r = ent_source e \<and> cw_vault_path r = ent_vault e"

lemma enum_row_write:
  assumes ok: "cw_ok (cw_rows s)"
  obtains s' r where "enum_row clock True u e s = Inr s'" "cw_ok (cw_rows s')" "n_writes s' = n_writes s + 1"
    "n_mapped s' + n_unmapped s' = n_mapped s + n_unmapped s + 1"
    "entry_state e = MAPPED \<Longrightarrow> n_unmapped s' = n_unmapped s"
    "cw_lookup (u, ent_ref e) (cw_rows s') = Some r" "row_of_entry e r"
    "\<And>k. k \<noteq> (u, ent_ref e) \<Longrightarrow> cw_lookup k (cw_rows s') = cw_lookup k (cw_rows s)"
proof -
  define now where "now = clock (n_writes s)"
  define new where "new = \<lparr>cw_user_id = u, cw_canonical_ref = ent_ref e, cw_target_kind = ent_kind e,
      cw_target_id = ent_id e, cw_query_type = entry_query_type e, cw_state = mapping_state_value (entry_state e),
      cw_content_hash = ent_hash e, cw_source_id = ent_source e, cw_vault_path = ent_vault e,
      cw_aphelion_doc_id = None, cw_created_at = now, cw_updated_at = now\<rparr>"
  have ref: "cw_canonical_ref new = ref_of (cw_target_kind new) (cw_target_id new)" by (simp add: new_def)
  have key: "cw_key new = (u, ent_ref e)" by (simp add: cw_key_def new_def)
  define rows' where "rows' = upsert cw_key cw_merge new (cw_rows s)"
  define s1 where "s1 = (if entry_state e = MAPPED then s\<lparr>n_mapped := n_mapped s + 1\<rparr> else s\<lparr>n_unmapped := n_unmapped s + 1\<rparr>)"
  have step: "enum_row clock True u e s = Inr (s1\<lparr>n_writes := n_writes s + 1, cw_rows := rows'\<rparr>)"
    using cw_upsert_ok(1) [OF ok ref]
    by (simp add: enum_row_def upsert_crosswalk_def Let_def s1_def rows'_def new_def now_def)
  obtain r where r: "cw_lookup (u, ent_ref e) rows' = Some r" "row_of_entry e r"
  proof -
    let ?r = "case cwu.get (u, ent_ref e) (cw_rows s) of None \<Rightarrow> new | Some x \<Rightarrow> cw_merge x new"
    have "cw_lookup (u, ent_ref e) rows' = Some ?r"
      using cwu.get_ups_same [of new "cw_rows s"] unfolding key by (simp add: cw_lookup_get rows'_def)
    moreover have "row_of_entry e new" "row_of_entry e (cw_merge x new)" for x
      by (simp_all add: row_of_entry_def cw_merge_def new_def)
    then have "row_of_entry e ?r" by (simp split: option.split)
    ultimately show thesis by (rule that)
  qed
  show thesis
  proof (rule that [OF step])
    show "cw_ok (cw_rows (s1\<lparr>n_writes := n_writes s + 1, cw_rows := rows'\<rparr>))"
      using cw_upsert_ok(2) [OF ok ref] by (simp add: rows'_def)
    show "cw_lookup (u, ent_ref e) (cw_rows (s1\<lparr>n_writes := n_writes s + 1, cw_rows := rows'\<rparr>)) = Some r"
      using r(1) by simp
    show "cw_lookup k (cw_rows (s1\<lparr>n_writes := n_writes s + 1, cw_rows := rows'\<rparr>)) = cw_lookup k (cw_rows s)"
      if "k \<noteq> (u, ent_ref e)" for k
      using cwu.get_ups_other [of k new "cw_rows s"] that by (simp add: key cw_lookup_get rows'_def)
  qed (auto simp: s1_def r(2))
qed

lemma enum_rows_write:
  assumes "cw_ok (cw_rows s)" "distinct (map ent_ref es)"
  shows "\<exists>s'. fold_res (enum_row clock True u) es s = Inr s' \<and> cw_ok (cw_rows s') \<and>
    n_writes s' = n_writes s + length es \<and> n_mapped s' + n_unmapped s' = n_mapped s + n_unmapped s + length es \<and>
    ((\<forall>e \<in> set es. entry_state e = MAPPED) \<longrightarrow> n_unmapped s' = n_unmapped s) \<and>
    (\<forall>e \<in> set es. \<exists>r. cw_lookup (u, ent_ref e) (cw_rows s') = Some r \<and> row_of_entry e r) \<and>
    (\<forall>k. k \<notin> (\<lambda>e. (u, ent_ref e)) ` set es \<longrightarrow> cw_lookup k (cw_rows s') = cw_lookup k (cw_rows s))"
  using assms
proof (induction es arbitrary: s)
  case (Cons e es)
  obtain s1 r where s1: "enum_row clock True u e s = Inr s1" "cw_ok (cw_rows s1)" "n_writes s1 = n_writes s + 1"
    "n_mapped s1 + n_unmapped s1 = n_mapped s + n_unmapped s + 1"
    "entry_state e = MAPPED \<Longrightarrow> n_unmapped s1 = n_unmapped s"
    "cw_lookup (u, ent_ref e) (cw_rows s1) = Some r" "row_of_entry e r"
    "\<And>k. k \<noteq> (u, ent_ref e) \<Longrightarrow> cw_lookup k (cw_rows s1) = cw_lookup k (cw_rows s)"
    by (rule enum_row_write [OF Cons.prems(1), of clock u e]) (rule that)
  from Cons.IH [OF s1(2)] Cons.prems(2)
  obtain s' where s': "fold_res (enum_row clock True u) es s1 = Inr s'" "cw_ok (cw_rows s')"
    "n_writes s' = n_writes s1 + length es" "n_mapped s' + n_unmapped s' = n_mapped s1 + n_unmapped s1 + length es"
    "(\<forall>e \<in> set es. entry_state e = MAPPED) \<longrightarrow> n_unmapped s' = n_unmapped s1"
    "\<forall>e \<in> set es. \<exists>r. cw_lookup (u, ent_ref e) (cw_rows s') = Some r \<and> row_of_entry e r"
    "\<forall>k. k \<notin> (\<lambda>e. (u, ent_ref e)) ` set es \<longrightarrow> cw_lookup k (cw_rows s') = cw_lookup k (cw_rows s1)"
    by auto
  have "(u, ent_ref e) \<notin> (\<lambda>e. (u, ent_ref e)) ` set es" using Cons.prems(2) by auto
  then have "cw_lookup (u, ent_ref e) (cw_rows s') = Some r" using s'(7) s1(6) by simp
  with s1 s' show ?case by (intro exI [of _ s']) auto
qed simp

lemma desc_asc_set [simp]: "set (desc_asc f g xs) = set xs"
  by (simp add: desc_asc_def)

lemma desc_asc_distinct: "distinct (map h xs) \<Longrightarrow> distinct (map h (desc_asc f g xs))"
  by (simp add: desc_asc_def distinct_map)

lemma entries_distinct:
  assumes "db_ok d"
  shows "distinct (map ent_ref (entries u limit d))"
proof -
  have c: "distinct (map clm_id (recent_claims u limit d))" and m: "distinct (map mem_id (recent_memories u limit d))"
    using assms unfolding recent_claims_def recent_memories_def db_ok_def
    by (auto simp flip: take_map intro!: distinct_take desc_asc_distinct distinct_map_filter)
  show ?thesis
    using c m by (auto simp: entries_def claim_entry_def memory_entry_def distinct_map inj_on_def ref_of_def)
qed

lemma resolve_probes:
  "resolve ''RetrieveKind.decision'' = Some CHANGE_TRACE" "resolve ''RetrieveKind.bug'' = Some CHANGE_TRACE"
  "resolve ''RetrieveKind.entity'' = Some ENTITY_PROFILE" "resolve ''RetrieveKind.recent'' = Some RECENT_CONTEXT"
  by (simp_all add: resolve_def CROSSWALK_SEED_def)

lemma entry_mapped: "e \<in> set (entries u limit d) \<Longrightarrow> entry_state e = MAPPED"
  by (auto simp: entries_def claim_entry_def memory_entry_def entry_state_def classify_claim_predicate_def resolve_probes)

text \<open>The part of the crosswalk under the plan's keys agrees with the plan; the rest is as before.\<close>

definition follows_plan :: "pystr \<Rightarrow> plan_row list \<Rightarrow> crosswalk_row list \<Rightarrow> crosswalk_row list \<Rightarrow> bool" where
  "follows_plan u plan rows rows' \<longleftrightarrow>
     (\<forall>p \<in> set plan. \<exists>r. cw_lookup (u, plan_ref p) rows' = Some r \<and> cw_target_kind r = plan_kind p \<and>
        cw_target_id r = plan_id p \<and> cw_state r = plan_state p \<and> cw_query_type r = plan_query_type p) \<and>
     (\<forall>k. k \<notin> (\<lambda>p. (u, plan_ref p)) ` set plan \<longrightarrow> cw_lookup k rows' = cw_lookup k rows)"

lemma plan_entries: "set (plan_upserts u sc d) = plan_entry ` set (entries u (scope_limit sc) d)"
  by (simp add: plan_upserts_def)

lemma enumerate_follows_plan:
  assumes "cw_ok rows" "db_ok d"
  obtains en where "enumerate_rows clock True req d rows = Inr en" "cw_ok (cw_rows en)"
    "n_writes en = length (entries (req_user_id req) (scope_limit (scope req)) d)"
    "n_mapped en = n_writes en" "n_unmapped en = 0"
    "follows_plan (req_user_id req) (plan_upserts (req_user_id req) (scope req) d) rows (cw_rows en)"
proof -
  let ?u = "req_user_id req"
  let ?es = "entries ?u (scope_limit (scope req)) d"
  let ?s0 = "\<lparr>n_mapped = 0, n_unmapped = 0, n_writes = 0, cw_rows = rows\<rparr>"
  have "cw_ok (cw_rows ?s0)" using assms(1) by simp
  from enum_rows_write [OF this entries_distinct [OF assms(2)], of clock ?u ?u "scope_limit (scope req)"]
  obtain en where en: "fold_res (enum_row clock True ?u) ?es ?s0 = Inr en" "cw_ok (cw_rows en)"
    "n_writes en = length ?es" "n_mapped en + n_unmapped en = length ?es" "n_unmapped en = 0"
    "\<forall>e \<in> set ?es. \<exists>r. cw_lookup (?u, ent_ref e) (cw_rows en) = Some r \<and> row_of_entry e r"
    "\<forall>k. k \<notin> (\<lambda>e. (?u, ent_ref e)) ` set ?es \<longrightarrow> cw_lookup k (cw_rows en) = cw_lookup k rows"
    using entry_mapped by (auto simp del: fold_res.simps)
  have "follows_plan ?u (plan_upserts ?u (scope req) d) rows (cw_rows en)"
    using en(6,7) unfolding follows_plan_def plan_entries
    by (auto simp: plan_entry_def row_of_entry_def image_image)
  with en that show thesis by (simp add: enumerate_rows_def)
qed

lemma run_write:
  assumes "dry_run req = False" "locked = [] \<or> \<not> list_all id (take 4 locked)"
    "before st = (d1, rows1)" "cw_ok rows1" "db_ok d1"
  obtains en :: enum_state where "cw_ok (cw_rows en)"
    "follows_plan (req_user_id req) (plan_upserts (req_user_id req) (scope req) d1) rows1 (cw_rows en)"
    "snd (run_backfill h s True locked before (apfst g) clock req st) = (g d1, cw_rows en)"
    "fst (run_backfill h s True locked before (apfst g) clock req st) =
      (if core_fingerprint h s (fst st) = core_fingerprint h s (g d1)
       then Inr \<lparr>rep_examined = n_writes en, rep_mapped = n_writes en, rep_unmapped = 0, rep_conflict = 0, rep_writes = n_writes en\<rparr>
       else Inl (RuntimeError ''BackfillRunner violated read-only core invariant''))"
proof -
  obtain en where en: "enumerate_rows clock True req d1 rows1 = Inr en" "cw_ok (cw_rows en)"
    "n_writes en = length (entries (req_user_id req) (scope_limit (scope req)) d1)"
    "n_mapped en = n_writes en" "n_unmapped en = 0"
    "follows_plan (req_user_id req) (plan_upserts (req_user_id req) (scope req) d1) rows1 (cw_rows en)"
    by (rule enumerate_follows_plan [OF assms(4,5), of clock req]) (rule that)
  have unlocked: "\<not> (4 \<le> length locked \<and> list_all id (take 4 locked))" using assms(2) by auto
  have "run_backfill h s True locked before (apfst g) clock req st =
    (if core_fingerprint h s (fst st) = core_fingerprint h s (g d1)
       then Inr (report (entries (req_user_id req) (scope_limit (scope req)) d1) en)
       else Inl (RuntimeError ''BackfillRunner violated read-only core invariant''), g d1, cw_rows en)"
    using assms(1) unlocked by (simp add: run_backfill_def assms(3) en(1) Let_def)
  then show thesis using en by (intro that [of en]) (auto simp: report_def)
qed

text \<open>C16: a back-fill that gets the write lock leaves a crosswalk that agrees with what the plan says for the
  tables it enumerates, under every reference of the plan, changes no other row and keeps the crosswalk's
  integrity, whatever other connections commit to the core tables before (\<open>before\<close>) and after (\<open>g\<close>); every
  row is mapped; and it returns its report exactly when the fingerprints agree.\<close>

theorem backfill_applies_plan:
  assumes "dry_run req = False" "locked = [] \<or> \<not> list_all id (take 4 locked)"
    and "before st = (d1, rows1)" "cw_ok rows1" "db_ok d1"
    and "run_backfill h s True locked before (apfst g) clock req st = (res, d2, rows2)"
  shows "d2 = g d1 \<and> cw_ok rows2 \<and>
    follows_plan (req_user_id req) (plan_upserts (req_user_id req) (scope req) d1) rows1 rows2 \<and>
    (case res of Inl e \<Rightarrow> core_fingerprint h s (fst st) \<noteq> core_fingerprint h s (g d1) | Inr rep \<Rightarrow>
       core_fingerprint h s (fst st) = core_fingerprint h s (g d1) \<and>
       rep_unmapped rep = 0 \<and> rep_mapped rep = rep_examined rep \<and> rep_writes rep = rep_examined rep)"
  by (rule run_write [where before = before and st = st, OF assms(1-5), of h s g clock]) (simp add: assms(6))

definition demo_claim :: claim_row where
  "demo_claim = \<lparr>clm_id = ''c1'', clm_user_id = ''u'', clm_subject = ''s'', clm_predicate = ''Bug-fix:42'', clm_object = ''o'',
     clm_source_id = ''direct:u'', clm_content_hash = ''h1'', clm_confidence = None, clm_state = ''auto'',
     clm_created_at = ''2026-01-01'', clm_updated_at = ''2026-01-01''\<rparr>"

definition demo_source :: source_row where
  "demo_source = \<lparr>src_id = ''direct:u'', src_uri = ''direct:u'', src_kind = ''chat'', src_content_hash = ''h'', src_user_id = ''u'',
     src_ingested_at = ''2026-01-01'', src_state = ''ingested''\<rparr>"

definition demo_db :: db where
  "demo_db = empty_db\<lparr>sources := [demo_source], claims := [demo_claim]\<rparr>"

definition demo_digests :: digests where
  "demo_digests = \<lparr>nfc = (\<lambda>x. x), sha256_hex = (\<lambda>x. x)\<rparr>"

definition demo_renderers :: renderers where
  "demo_renderers = \<lparr>str_conf = (\<lambda>_. ''0.5''), str_json = (\<lambda>_. ''{}'')\<rparr>"

definition demo_request :: BackfillRequest where
  "demo_request = \<lparr>req_user_id = ''u'', dry_run = False, scope = ''all''\<rparr>"

lemma demo_db_ok: "db_ok demo_db"
  by (simp add: db_ok_def refs_ok_def demo_db_def empty_db_def demo_source_def demo_claim_def source_exists_def)

lemma cw_ok_empty: "cw_ok []"
  by (simp add: cw_ok_def)

lemma backfill_applies_plan_witness:
  "\<exists>res rows2. run_backfill demo_digests demo_renderers True [True, False] (\<lambda>x. x) (apfst (\<lambda>d. d)) (\<lambda>_. ''2026-02-02'')
      demo_request (demo_db, []) = (res, demo_db, rows2) \<and> cw_ok rows2"
proof -
  obtain res d2 rows2 where run: "run_backfill demo_digests demo_renderers True [True, False] (\<lambda>x. x) (apfst (\<lambda>d. d))
      (\<lambda>_. ''2026-02-02'') demo_request (demo_db, []) = (res, d2, rows2)"
    by (rule prod_cases3)
  have "dry_run demo_request = False" by (simp add: demo_request_def)
  from backfill_applies_plan [where before = "\<lambda>x. x", OF this _ refl cw_ok_empty demo_db_ok run]
  show ?thesis using run by auto
qed

definition foreign_claim :: claim_row where
  "foreign_claim = demo_claim\<lparr>clm_id := ''c2'', clm_user_id := ''v''\<rparr>"

definition concurrent_ingest :: "db \<Rightarrow> db" where
  "concurrent_ingest d = d\<lparr>claims := claims d @ [foreign_claim]\<rparr>"

lemma fingerprint_notices:
  "core_fingerprint demo_digests demo_renderers demo_db \<noteq> core_fingerprint demo_digests demo_renderers (concurrent_ingest demo_db)"
  by (simp add: core_fingerprint_def snapshot_json_def table_snapshot_def snapshot_loop_all demo_digests_def demo_db_def
    concurrent_ingest_def dec_nat.simps digit_def)

lemma demo_plan: "''claim:c1'' \<in> plan_ref ` set (plan_upserts ''u'' ''all'' demo_db)"
  by (simp add: plan_entries entries_def recent_claims_def desc_asc_def demo_db_def demo_claim_def scope_limit_def
    MAX_BACKFILL_ROWS_def claim_entry_def plan_entry_def ref_of_def)

text \<open>A claim of another user ingested by another connection while the back-fill runs makes the call raise the
  invariant violation, although its own rows have been committed and the core tables were only read.\<close>

theorem backfill_raises_after_commit:
  "\<exists>rows2. run_backfill demo_digests demo_renderers True [] (\<lambda>x. x) (apfst concurrent_ingest) (\<lambda>_. ''2026-02-02'')
      demo_request (demo_db, []) =
      (Inl (RuntimeError ''BackfillRunner violated read-only core invariant''), concurrent_ingest demo_db, rows2) \<and>
    cw_lookup (''u'', ''claim:c1'') rows2 \<noteq> None"
proof -
  let ?run = "run_backfill demo_digests demo_renderers True [] (\<lambda>x. x) (apfst concurrent_ingest) (\<lambda>_. ''2026-02-02'')
      demo_request (demo_db, [])"
  have req: "dry_run demo_request = False" "req_user_id demo_request = ''u''" "scope demo_request = ''all''"
    by (simp_all add: demo_request_def)
  obtain en :: enum_state where
    plan: "follows_plan ''u'' (plan_upserts ''u'' ''all'' demo_db) [] (cw_rows en)"
    and snd: "snd ?run = (concurrent_ingest demo_db, cw_rows en)"
    and fst: "fst ?run = Inl (RuntimeError ''BackfillRunner violated read-only core invariant'')"
    by (rule run_write [where before = "\<lambda>x. x" and g = concurrent_ingest and clock = "\<lambda>_. ''2026-02-02''"
        and locked = "[]" and h = demo_digests and s = demo_renderers, OF req(1) _ refl cw_ok_empty demo_db_ok])
      (use fingerprint_notices in \<open>simp_all add: req\<close>)
  from plan demo_plan have "cw_lookup (''u'', ''claim:c1'') (cw_rows en) \<noteq> None"
    unfolding follows_plan_def by fastforce
  moreover have "?run = (fst ?run, snd ?run)" by simp
  ultimately show ?thesis unfolding fst snd by blast
qed

end
