(* ===== verification/Decimals.thy ===== *)
theory Decimals
  imports Prelude
begin

text \<open>
  Decimal texts: what \<^verbatim>\<open>str\<close> writes for an integer, \<^verbatim>\<open>int\<close> reads back, and the number is determined by the
  text even when other text follows it.
\<close>

definition ascii_digit :: "char \<Rightarrow> bool" where
  "ascii_digit c \<longleftrightarrow> (let n = (of_char c :: nat) in 48 \<le> n \<and> n \<le> 57)"

definition int_of_digits :: "pystr \<Rightarrow> int" where
  "int_of_digits s = foldl (\<lambda>a c. a * 10 + (of_char c - 48)) 0 s"

lemma digit_code: "d < 10 \<Longrightarrow> (of_char (digit d) :: nat) = 48 + d"
  by (simp add: digit_def)

lemma digit_code_int: "d < 10 \<Longrightarrow> (of_char (digit d) :: int) = 48 + int d"
  by (metis digit_code of_nat_add of_nat_numeral of_nat_of_char)

lemma dec_nat_ascii: "list_all ascii_digit (dec_nat n)"
proof (induction n rule: dec_nat.induct)
  case (1 n)
  have a: "ascii_digit (digit d)" if "d < 10" for d
    using that by (simp add: ascii_digit_def digit_code)
  show ?case
    using 1 a by (subst dec_nat.simps) auto
qed

lemma dec_nat_nonempty: "dec_nat n \<noteq> []"
  by (subst dec_nat.simps) simp

lemma int_of_dec_nat: "int_of_digits (dec_nat n) = int n"
proof (induction n rule: dec_nat.induct)
  case (1 n)
  show ?case
  proof (cases "n < 10")
    case True
    then show ?thesis by (subst dec_nat.simps) (simp add: int_of_digits_def digit_code_int)
  next
    case False
    then have "int_of_digits (dec_nat n) = int_of_digits (dec_nat (n div 10)) * 10 + int (n mod 10)"
      by (subst dec_nat.simps) (simp add: int_of_digits_def digit_code_int)
    also have "\<dots> = int (n div 10) * 10 + int (n mod 10)" using 1 False by simp
    also have "\<dots> = int (n div 10 * 10 + n mod 10)" by (simp only: of_nat_add of_nat_mult of_nat_numeral)
    finally show ?thesis by (simp only: div_mult_mod_eq)
  qed
qed

lemma strip_spaceless: "list_all (\<lambda>c. \<not> py_space c) s \<Longrightarrow> strip s = s"
proof -
  have l: "lstrip t = t" if "list_all (\<lambda>c. \<not> py_space c) t" for t
    using that by (cases t) (simp_all add: lstrip_def)
  assume "list_all (\<lambda>c. \<not> py_space c) s"
  then show ?thesis by (simp add: strip_def l)
qed

lemma digits_spaceless: "list_all ascii_digit s \<Longrightarrow> list_all (\<lambda>c. \<not> py_space c) s"
  by (auto simp: list_all_iff ascii_digit_def py_space_def Let_def)

lemma takeWhile_digits: "list_all ascii_digit s \<Longrightarrow> (r = [] \<or> \<not> ascii_digit (hd r)) \<Longrightarrow> takeWhile ascii_digit (s @ r) = s"
  by (cases r) (auto simp: list_all_iff takeWhile_append2)

lemma dec_nat_split:
  assumes "dec_nat n @ r = dec_nat m @ r'" "r = [] \<or> \<not> ascii_digit (hd r)" "r' = [] \<or> \<not> ascii_digit (hd r')"
  shows "n = m" "r = r'"
proof -
  have eq: "dec_nat n = dec_nat m"
    using arg_cong [OF assms(1), of "takeWhile ascii_digit"] assms(2,3) by (simp only: takeWhile_digits dec_nat_ascii)
  then have "int n = int m" by (metis int_of_dec_nat)
  then show "n = m" by simp
  show "r = r'" using assms(1) eq by simp
qed

lemma dec_nat_head: "hd (dec_nat n) \<noteq> CHR ''-''"
proof -
  have "ascii_digit (hd (dec_nat n))"
    using dec_nat_ascii [of n] dec_nat_nonempty [of n] by (cases "dec_nat n") auto
  moreover have "\<not> ascii_digit (CHR ''-'')" by (simp add: ascii_digit_def)
  ultimately show ?thesis by auto
qed

lemma dec_split:
  assumes "dec i @ r = dec j @ r'" "r = [] \<or> \<not> ascii_digit (hd r)" "r' = [] \<or> \<not> ascii_digit (hd r')"
  shows "i = j" "r = r'"
proof -
  have hd: "hd (dec_nat n @ s) = hd (dec_nat n)" for n s
    using dec_nat_nonempty [of n] by simp
  have sign: "i < 0 \<longleftrightarrow> j < 0"
  proof (rule ccontr)
    assume "(i < 0) \<noteq> (j < 0)"
    then have "\<exists>n s s'. CHR ''-'' # s = dec_nat n @ s'"
      using assms(1) by (auto simp: dec_def split: if_splits) metis
    then show False using hd dec_nat_head by (metis list.sel(1))
  qed
  have nat: "dec_nat (nat \<bar>i\<bar>) @ r = dec_nat (nat \<bar>j\<bar>) @ r'"
    using assms(1) sign by (auto simp: dec_def split: if_splits)
  from dec_nat_split [OF this assms(2,3)] sign show "i = j" "r = r'" by auto
qed

end
