(* ===== verification/Corpus_Backfill.thy ===== *)
theory Corpus_Backfill
  imports Crosswalk Decimals
begin

text \<open>
  \<^verbatim>\<open>router/crosswalk_backfill.py\<close>: the bounded back-fill of the crosswalk from the memories and claims
  of a user, and the look-up by content hash. Proved: a call inserts the first rows of the corpus up to
  the limit and nothing else, so a second call with the same limit inserts nothing even when the first
  one stopped early; once a call has covered the corpus every ingested content is found by its hash.
\<close>

section \<open>The operations\<close>

definition BACKFILL_BATCH_LIMIT_DEFAULT :: int where
  "BACKFILL_BATCH_LIMIT_DEFAULT = 10000"

text \<open>\<^verbatim>\<open>str.isdigit\<close> accepts the superscript digits, which \<^verbatim>\<open>int\<close> rejects.\<close>

definition py_isdigit :: "pystr \<Rightarrow> bool" where
  "py_isdigit s \<longleftrightarrow> s \<noteq> [] \<and> list_all (\<lambda>c. ascii_digit c \<or> (of_char c :: nat) \<in> {178, 179, 185}) s"

definition get_batch_limit :: "pystr option \<Rightarrow> int option \<Rightarrow> kernel_error + int" where
  "get_batch_limit env batch_limit =
    (case batch_limit of Some n \<Rightarrow> Inr n
     | None \<Rightarrow> (let raw = strip (case env of None \<Rightarrow> [] | Some s \<Rightarrow> s) in
         if \<not> py_isdigit raw then Inr BACKFILL_BATCH_LIMIT_DEFAULT
         else if list_all ascii_digit raw then Inr (int_of_digits raw)
         else Inl (ValueError ''invalid literal for int()'')))"

record BackfillStats =
  rows_examined :: int
  rows_inserted :: int
  rows_skipped_existing :: int
  batch_limit_reached :: bool
  inserted_memories :: int
  inserted_claims :: int

definition corpus_row :: "pystr \<Rightarrow> pystr \<Rightarrow> pystr \<Rightarrow> pystr \<Rightarrow> pystr \<Rightarrow> pystr option \<Rightarrow> crosswalk_row" where
  "corpus_row now u kind tid ch sid = \<lparr>cw_user_id = u, cw_canonical_ref = ref_of kind tid, cw_target_kind = kind,
     cw_target_id = tid, cw_query_type = None, cw_state = ''mapped'', cw_content_hash = ch, cw_source_id = sid,
     cw_vault_path = None, cw_aphelion_doc_id = None, cw_created_at = now, cw_updated_at = now\<rparr>"

text \<open>One scan; it stops early, with the flag set, as soon as the limit is reached before a row.\<close>

fun backfill_scan :: "int \<Rightarrow> crosswalk_row list \<Rightarrow> BackfillStats \<Rightarrow> crosswalk_row list \<Rightarrow> BackfillStats \<times> crosswalk_row list" where
  "backfill_scan limit [] st rows = (st, rows)"
| "backfill_scan limit (r # rs) st rows =
    (if limit \<le> rows_examined st then (st\<lparr>batch_limit_reached := True\<rparr>, rows)
     else let rows' = cw_insert_or_ignore r rows; st1 = st\<lparr>rows_examined := rows_examined st + 1\<rparr> in
       backfill_scan limit rs
         (if rows' \<noteq> rows
          then (let st2 = st1\<lparr>rows_inserted := rows_inserted st1 + 1\<rparr> in
            if cw_target_kind r = ''memory'' then st2\<lparr>inserted_memories := inserted_memories st2 + 1\<rparr>
            else st2\<lparr>inserted_claims := inserted_claims st2 + 1\<rparr>)
          else st1\<lparr>rows_skipped_existing := rows_skipped_existing st1 + 1\<rparr>) rows')"

definition corpus :: "pystr \<Rightarrow> pystr \<Rightarrow> db \<Rightarrow> crosswalk_row list \<times> crosswalk_row list" where
  "corpus now u d =
    (map (\<lambda>m. corpus_row now u ''memory'' (mem_id m) (mem_content_hash m) (mem_source_id m))
       (sort_key mem_created_at (sort_key mem_id (filter (\<lambda>m. mem_user_id m = u) (memories d)))),
     map (\<lambda>c. corpus_row now u ''claim'' (clm_id c) (clm_content_hash c) (Some (clm_source_id c)))
       (sort_key clm_created_at (sort_key clm_id (filter (\<lambda>c. clm_user_id c = u) (claims d)))))"

definition zero_stats :: BackfillStats where
  "zero_stats = \<lparr>rows_examined = 0, rows_inserted = 0, rows_skipped_existing = 0, batch_limit_reached = False,
     inserted_memories = 0, inserted_claims = 0\<rparr>"

definition backfill_crosswalk ::
  "bool \<Rightarrow> pystr option \<Rightarrow> pystr \<Rightarrow> pystr \<Rightarrow> int option \<Rightarrow> db \<Rightarrow> crosswalk_row list \<Rightarrow>
   kernel_error + BackfillStats \<times> crosswalk_row list" where
  "backfill_crosswalk gated env now u batch_limit d rows =
    (if gated then Inl (ValueError ''connection is wrapped by a live SQLiteGate'')
     else and_then (get_batch_limit env batch_limit) (\<lambda>limit.
       let (ms, cs) = corpus now u d; (st, rows1) = backfill_scan limit ms zero_stats rows in
       if batch_limit_reached st then Inr (st, rows1) else Inr (backfill_scan limit cs st rows1)))"

definition lazy_materialize_by_content_hash :: "pystr \<Rightarrow> pystr \<Rightarrow> crosswalk_row list \<Rightarrow> pystr option" where
  "lazy_materialize_by_content_hash u ch rows =
    map_option cw_canonical_ref (List.find (\<lambda>r. cw_user_id r = u \<and> cw_content_hash r = ch) rows)"

section \<open>What a scan inserts\<close>

abbreviation room :: "int \<Rightarrow> BackfillStats \<Rightarrow> nat" where
  "room limit st \<equiv> nat (limit - rows_examined st)"

abbreviation insert_all :: "crosswalk_row list \<Rightarrow> crosswalk_row list \<Rightarrow> crosswalk_row list" where
  "insert_all \<equiv> fold cw_insert_or_ignore"

lemma cw_insert_length: "length (cw_insert_or_ignore r rows) = length rows + (if cw_insert_or_ignore r rows = rows then 0 else 1)"
  by (rule cw.ins_cases [of rows r]) auto

lemma scan_rows: "snd (backfill_scan limit rs st rows) = insert_all (take (room limit st) rs) rows"
proof (induction rs arbitrary: st rows)
  case (Cons r rs)
  show ?case
  proof (cases "limit \<le> rows_examined st")
    case False
    then have "room limit st = Suc (nat (limit - (rows_examined st + 1)))" by simp
    with False show ?thesis by (simp add: Let_def Cons.IH)
  qed simp
qed simp

lemma scan_flag:
  "batch_limit_reached (fst (backfill_scan limit rs st rows)) \<longleftrightarrow> batch_limit_reached st \<or> room limit st < length rs"
proof (induction rs arbitrary: st rows)
  case (Cons r rs)
  show ?case
    by (cases "limit \<le> rows_examined st") (auto simp: Let_def Cons.IH)
qed simp

lemma scan_examined:
  "rows_examined (fst (backfill_scan limit rs st rows)) = rows_examined st + int (min (room limit st) (length rs))"
proof (induction rs arbitrary: st rows)
  case (Cons r rs)
  show ?case
    by (cases "limit \<le> rows_examined st") (auto simp: Let_def Cons.IH min_def)
qed simp

text \<open>The counters agree: inserted rows are the growth of the table, by kind, and the rest was skipped.\<close>

definition stats_ok :: "nat \<Rightarrow> BackfillStats \<Rightarrow> nat \<Rightarrow> bool" where
  "stats_ok n0 st n \<longleftrightarrow> int n = int n0 + rows_inserted st \<and> rows_examined st = rows_inserted st + rows_skipped_existing st \<and>
     rows_inserted st = inserted_memories st + inserted_claims st \<and> 0 \<le> inserted_memories st \<and> 0 \<le> inserted_claims st \<and>
     0 \<le> rows_skipped_existing st"

lemma scan_stats:
  "stats_ok n0 st (length rows) \<Longrightarrow>
    stats_ok n0 (fst (backfill_scan limit rs st rows)) (length (snd (backfill_scan limit rs st rows)))"
proof (induction rs arbitrary: st rows)
  case (Cons r rs)
  show ?case
  proof (cases "limit \<le> rows_examined st")
    case True
    with Cons.prems show ?thesis by (simp add: stats_ok_def)
  next
    case False
    then show ?thesis
      using Cons.prems cw_insert_length [of r rows]
      by (auto simp: Let_def intro!: Cons.IH) (auto simp: stats_ok_def)
  qed
qed simp

text \<open>The two loops together scan the memories and then the claims under one limit.\<close>

definition backfill_effect :: "int \<Rightarrow> crosswalk_row list \<Rightarrow> crosswalk_row list \<Rightarrow> BackfillStats \<Rightarrow> crosswalk_row list \<Rightarrow> bool" where
  "backfill_effect limit todo rows st rows' \<longleftrightarrow>
     rows' = insert_all (take (nat limit) todo) rows \<and> stats_ok (length rows) st (length rows') \<and>
     rows_examined st = int (min (nat limit) (length todo)) \<and> (batch_limit_reached st \<longleftrightarrow> nat limit < length todo)"

lemma backfill_crosswalk_eq:
  assumes "get_batch_limit env bl = Inr limit" and "corpus now u d = (ms, cs)"
  obtains st where "backfill_crosswalk False env now u bl d rows = Inr (st, insert_all (take (nat limit) (ms @ cs)) rows)"
    "backfill_effect limit (ms @ cs) rows st (insert_all (take (nat limit) (ms @ cs)) rows)"
proof -
  define st rows1 where "st = fst (backfill_scan limit ms zero_stats rows)"
    and "rows1 = snd (backfill_scan limit ms zero_stats rows)"
  have pair: "backfill_scan limit ms zero_stats rows = (st, rows1)" by (simp add: st_def rows1_def)
  have rows1: "rows1 = insert_all (take (nat limit) ms) rows"
    unfolding rows1_def scan_rows by (simp add: zero_stats_def)
  have flag: "batch_limit_reached st \<longleftrightarrow> nat limit < length ms"
    unfolding st_def scan_flag by (simp add: zero_stats_def)
  have examined: "rows_examined st = int (min (nat limit) (length ms))"
    unfolding st_def scan_examined by (simp add: zero_stats_def)
  have stats: "stats_ok (length rows) st (length rows1)"
    unfolding st_def rows1_def by (rule scan_stats) (simp add: stats_ok_def zero_stats_def)
  show thesis
  proof (cases "nat limit < length ms")
    case True
    then have all: "insert_all (take (nat limit) (ms @ cs)) rows = rows1" by (simp add: rows1)
    show thesis
      by (rule that [of st]) (use True flag stats examined rows1 in
        \<open>auto simp: backfill_crosswalk_def assms pair all backfill_effect_def\<close>)
  next
    case False
    define st2 rows2 where "st2 = fst (backfill_scan limit cs st rows1)" and "rows2 = snd (backfill_scan limit cs st rows1)"
    have room: "room limit st = nat limit - length ms" using False by (simp add: examined)
    have all: "insert_all (take (nat limit) (ms @ cs)) rows = rows2"
      unfolding rows2_def scan_rows room using False by (simp add: rows1)
    have "stats_ok (length rows) st2 (length rows2)"
      unfolding st2_def rows2_def by (rule scan_stats [OF stats])
    moreover have "rows_examined st2 = int (min (nat limit) (length (ms @ cs)))"
      unfolding st2_def scan_examined room using False by (simp add: examined)
    moreover have "batch_limit_reached st2 \<longleftrightarrow> nat limit < length (ms @ cs)"
      unfolding st2_def scan_flag room using False flag by auto
    moreover have "backfill_crosswalk False env now u bl d rows = Inr (st2, rows2)"
      using False flag by (simp add: backfill_crosswalk_def assms pair st2_def rows2_def)
    ultimately show thesis
      by (intro that [of st2]; unfold all backfill_effect_def) auto
  qed
qed

section \<open>Repeated calls\<close>

lemma insert_all_keeps: "set rows \<subseteq> set (insert_all rs rows)"
  by (induction rs arbitrary: rows) (use cw.ins_keeps in fastforce)+

lemma insert_all_bound: "set (insert_all rs rows) \<subseteq> set rs \<union> set rows"
  by (induction rs arbitrary: rows) (use cw.ins_bound in fastforce)+

lemma insert_has_key: "\<exists>x \<in> set (cw_insert_or_ignore r rows). cw_key x = cw_key r \<or> cw_target x = cw_target r"
  by (rule cw.ins_cases [of rows r]) auto

lemma insert_all_has_key:
  "r \<in> set rs \<Longrightarrow> \<exists>x \<in> set (insert_all rs rows). cw_key x = cw_key r \<or> cw_target x = cw_target r"
proof (induction rs arbitrary: rows)
  case (Cons a rs)
  show ?case
  proof (cases "r = a")
    case True
    obtain x where x: "x \<in> set (cw_insert_or_ignore a rows)" "cw_key x = cw_key a \<or> cw_target x = cw_target a"
      using insert_has_key by blast
    moreover have "x \<in> set (insert_all rs (cw_insert_or_ignore a rows))"
      using insert_all_keeps x(1) by blast
    ultimately show ?thesis using True by auto
  next
    case False
    then show ?thesis using Cons by simp
  qed
qed simp

lemma insert_all_stored:
  assumes "\<And>r. r \<in> set rs \<Longrightarrow> \<exists>x \<in> set rows. cw_key x = cw_key r \<or> cw_target x = cw_target r"
  shows "insert_all rs rows = rows"
  using assms
proof (induction rs)
  case (Cons r rs)
  then obtain x where "x \<in> set rows" "cw_key x = cw_key r \<or> cw_target x = cw_target r" by auto
  then have "cw_insert_or_ignore r rows = rows" by (rule cw.ins_conflict)
  with Cons show ?case by simp
qed simp

text \<open>The rows two calls want to insert differ in their time stamps only.\<close>

lemma corpus_keys:
  assumes "corpus now u d = (ms, cs)" "corpus now' u d = (ms', cs')"
  shows "map (\<lambda>r. (cw_key r, cw_target r)) (ms' @ cs') = map (\<lambda>r. (cw_key r, cw_target r)) (ms @ cs)"
  using assms by (auto simp: corpus_def corpus_row_def cw_key_def cw_target_def)

lemma corpus_length:
  assumes "corpus now u d = (ms, cs)" "corpus now' u d = (ms', cs')"
  shows "length (ms' @ cs') = length (ms @ cs)"
  using arg_cong [OF corpus_keys [OF assms], of length] by simp

lemma rerun_rows:
  assumes "corpus now u d = (ms, cs)" "corpus now' u d = (ms', cs')"
  shows "insert_all (take n (ms' @ cs')) (insert_all (take n (ms @ cs)) rows) = insert_all (take n (ms @ cs)) rows"
proof (rule insert_all_stored)
  fix r
  define keys where "keys = (\<lambda>r :: crosswalk_row. (cw_key r, cw_target r))"
  assume "r \<in> set (take n (ms' @ cs'))"
  then have "keys r \<in> set (map keys (take n (ms' @ cs')))"
    unfolding set_map by (rule imageI)
  also have "map keys (take n (ms' @ cs')) = map keys (take n (ms @ cs))"
    using corpus_keys [OF assms] unfolding keys_def [symmetric] by (simp only: take_map [symmetric])
  finally obtain r' where "r' \<in> set (take n (ms @ cs))" "keys r = keys r'"
    unfolding set_map by (rule imageE)
  then have "r' \<in> set (take n (ms @ cs))" "cw_key r' = cw_key r" "cw_target r' = cw_target r"
    by (simp_all add: keys_def)
  then show "\<exists>x \<in> set (insert_all (take n (ms @ cs)) rows). cw_key x = cw_key r \<or> cw_target x = cw_target r"
    using insert_all_has_key [of r' "take n (ms @ cs)" rows] by metis
qed

lemma backfill_run:
  assumes "backfill_crosswalk gated env now u bl d rows = Inr (st, rows')"
  obtains limit ms cs where "get_batch_limit env bl = Inr limit" "corpus now u d = (ms, cs)"
    "rows' = insert_all (take (nat limit) (ms @ cs)) rows" "backfill_effect limit (ms @ cs) rows st rows'"
proof -
  from assms obtain limit where limit: "get_batch_limit env bl = Inr limit" and gated: "\<not> gated"
    by (auto simp: backfill_crosswalk_def and_then_def split: if_splits sum.splits)
  obtain ms cs where mc: "corpus now u d = (ms, cs)" by (cases "corpus now u d")
  show thesis
    by (rule backfill_crosswalk_eq [OF limit mc, of rows]) (use assms gated that [OF limit mc] in auto)
qed

text \<open>A second call with the same settings on unchanged core tables inserts nothing and reports the same
  \<open>batch_limit_reached\<close>: when the first call stopped at the limit, no number of repeated calls reaches the
  rest of the corpus.\<close>

theorem backfill_crosswalk_rerun:
  assumes "backfill_crosswalk gated env now u bl d rows = Inr (st, rows')"
    and "backfill_crosswalk gated env now' u bl d rows' = Inr (st', rows'')"
  shows "rows'' = rows' \<and> rows_inserted st' = 0 \<and> batch_limit_reached st' = batch_limit_reached st"
proof -
  obtain limit ms cs where 1: "get_batch_limit env bl = Inr limit" "corpus now u d = (ms, cs)"
    "rows' = insert_all (take (nat limit) (ms @ cs)) rows" "backfill_effect limit (ms @ cs) rows st rows'"
    by (rule backfill_run [OF assms(1)])
  obtain limit' ms' cs' where 2: "get_batch_limit env bl = Inr limit'" "corpus now' u d = (ms', cs')"
    "rows'' = insert_all (take (nat limit') (ms' @ cs')) rows'" "backfill_effect limit' (ms' @ cs') rows' st' rows''"
    by (rule backfill_run [OF assms(2)])
  have limit: "limit' = limit" using 1(1) 2(1) by simp
  have len: "length (ms' @ cs') = length (ms @ cs)"
    by (rule corpus_length [OF 1(2) 2(2)])
  have rows: "rows'' = rows'" unfolding 2(3) 1(3) limit by (rule rerun_rows [OF 1(2) 2(2)])
  with 1(4) 2(4) limit len show ?thesis by (auto simp: backfill_effect_def stats_ok_def)
qed

section \<open>Look-up after a complete call\<close>

lemma find_hash:
  "x \<in> set rows \<Longrightarrow> cw_user_id x = u \<Longrightarrow> cw_content_hash x = ch \<Longrightarrow>
    \<exists>r \<in> set rows. lazy_materialize_by_content_hash u ch rows = Some (cw_canonical_ref r) \<and>
      cw_user_id r = u \<and> cw_content_hash r = ch"
  unfolding lazy_materialize_by_content_hash_def
  by (cases "List.find (\<lambda>r. cw_user_id r = u \<and> cw_content_hash r = ch) rows")
    (auto simp: find_None dest: find_SomeD)

text \<open>The rows the code stores for the corpus of a user.\<close>

lemma corpus_set:
  assumes "corpus now u d = (ms, cs)"
  shows "set (ms @ cs) =
    (\<lambda>m. corpus_row now u ''memory'' (mem_id m) (mem_content_hash m) (mem_source_id m)) ` {m \<in> set (memories d). mem_user_id m = u} \<union>
    (\<lambda>c. corpus_row now u ''claim'' (clm_id c) (clm_content_hash c) (Some (clm_source_id c))) ` {c \<in> set (claims d). clm_user_id c = u}"
  using assms by (auto simp: corpus_def)

text \<open>What the corpus has under a hash.\<close>

definition has_content :: "pystr \<Rightarrow> db \<Rightarrow> pystr \<Rightarrow> pystr \<Rightarrow> bool" where
  "has_content u d ref ch \<longleftrightarrow>
     (\<exists>m \<in> set (memories d). mem_user_id m = u \<and> ref = ref_of ''memory'' (mem_id m) \<and> mem_content_hash m = ch) \<or>
     (\<exists>c \<in> set (claims d). clm_user_id c = u \<and> ref = ref_of ''claim'' (clm_id c) \<and> clm_content_hash c = ch)"

lemma corpus_content:
  assumes "corpus now u d = (ms, cs)"
  shows "has_content u d ref ch \<longleftrightarrow> (\<exists>r \<in> set (ms @ cs). cw_user_id r = u \<and> cw_canonical_ref r = ref \<and> cw_content_hash r = ch)"
  unfolding corpus_set [OF assms] by (auto simp: has_content_def corpus_row_def bex_Un)

lemma corpus_clash_same:
  assumes "corpus now u d = (ms, cs)" "db_ok d" "x \<in> set (ms @ cs)" "r \<in> set (ms @ cs)"
    "cw_key x = cw_key r \<or> cw_target x = cw_target r"
  shows "x = r"
proof -
  have m: "m = m'" if "m \<in> set (memories d)" "m' \<in> set (memories d)" "mem_id m = mem_id m'" for m m'
    using that assms(2) by (auto simp: db_ok_def distinct_map inj_on_def)
  have c: "c = c'" if "c \<in> set (claims d)" "c' \<in> set (claims d)" "clm_id c = clm_id c'" for c c'
    using that assms(2) by (auto simp: db_ok_def distinct_map inj_on_def)
  from assms(3,4,5) show ?thesis
    unfolding corpus_set [OF assms(1)] by (elim UnE imageE) (auto simp: corpus_row_def cw_key_def cw_target_def ref_of_def dest: m c)
qed

text \<open>C17: after a call on an empty crosswalk that did not stop early, the look-up by content hash finds a
  reference exactly for the hashes of the user's memories and claims, and the reference names one with that hash.\<close>

theorem backfill_then_lookup:
  assumes "backfill_crosswalk gated env now u bl d [] = Inr (st, rows)" "\<not> batch_limit_reached st" "db_ok d"
  shows "(lazy_materialize_by_content_hash u ch rows = None \<longleftrightarrow> (\<nexists>ref. has_content u d ref ch)) \<and>
    (\<forall>ref. lazy_materialize_by_content_hash u ch rows = Some ref \<longrightarrow> has_content u d ref ch)"
proof -
  obtain limit ms cs where run: "corpus now u d = (ms, cs)" "rows = insert_all (take (nat limit) (ms @ cs)) []"
    "backfill_effect limit (ms @ cs) [] st rows"
    by (rule backfill_run [OF assms(1)])
  have all: "rows = insert_all (ms @ cs) []"
  proof -
    have "length (ms @ cs) \<le> nat limit"
      using run(3) assms(2) unfolding backfill_effect_def by linarith
    then show ?thesis unfolding run(2) by (simp only: take_all)
  qed
  have sub: "set rows \<subseteq> set (ms @ cs)"
    using insert_all_bound [of "ms @ cs" "[]"] unfolding all by auto
  have sup: "set (ms @ cs) \<subseteq> set rows"
  proof
    fix r
    assume r: "r \<in> set (ms @ cs)"
    then obtain x where x: "x \<in> set rows" "cw_key x = cw_key r \<or> cw_target x = cw_target r"
      using insert_all_has_key [of r "ms @ cs" "[]"] unfolding all by metis
    moreover have "x = r"
      by (rule corpus_clash_same [OF run(1) assms(3) _ r x(2)]) (use x(1) sub in blast)
    ultimately show "r \<in> set rows" by simp
  qed
  have rows: "set rows = set (ms @ cs)" using sub sup by blast
  have found: "has_content u d ref ch" if "lazy_materialize_by_content_hash u ch rows = Some ref" for ref
    using that unfolding corpus_content [OF run(1)] rows [symmetric] lazy_materialize_by_content_hash_def
    by (auto dest!: find_SomeD)
  moreover have "lazy_materialize_by_content_hash u ch rows \<noteq> None" if "has_content u d ref ch" for ref
    using that find_hash [of _ rows u ch] unfolding corpus_content [OF run(1)] rows [symmetric] by force
  ultimately show ?thesis by fastforce
qed

section \<open>Instances\<close>

definition demo_memory :: "pystr \<Rightarrow> pystr \<Rightarrow> memory_row" where
  "demo_memory i h = \<lparr>mem_id = i, mem_user_id = ''u'', mem_source_id = None, mem_vault_path = ''p'', mem_title = None,
     mem_summary = None, mem_content_hash = h, mem_state = ''active'', mem_created_at = ''2026-01-01'', mem_updated_at = ''2026-01-01''\<rparr>"

definition two_memories :: db where
  "two_memories = empty_db\<lparr>memories := [demo_memory ''m1'' ''h1'', demo_memory ''m2'' ''h2'']\<rparr>"

lemma two_memories_ok: "db_ok two_memories"
  by (simp add: db_ok_def refs_ok_def two_memories_def empty_db_def demo_memory_def memory_key_def)

lemma two_memories_run:
  obtains st rows' where "backfill_crosswalk False None now ''u'' (Some limit) two_memories rows = Inr (st, rows')"
    "batch_limit_reached st \<longleftrightarrow> nat limit < 2"
proof -
  obtain ms cs where mc: "corpus now ''u'' two_memories = (ms, cs)" by (cases "corpus now ''u'' two_memories")
  then have "length (ms @ cs) = 2"
    by (auto simp: corpus_def two_memories_def demo_memory_def empty_db_def)
  moreover have "get_batch_limit None (Some limit) = Inr limit" by (simp add: get_batch_limit_def)
  ultimately show thesis
    by (rule_tac backfill_crosswalk_eq [OF _ mc]) (auto intro: that simp: backfill_effect_def)
qed

lemma backfill_crosswalk_rerun_witness:
  "\<exists>st rows st' rows'. backfill_crosswalk False None ''2026-02-02'' ''u'' (Some 1) two_memories [] = Inr (st, rows) \<and>
    batch_limit_reached st \<and> backfill_crosswalk False None ''2026-02-03'' ''u'' (Some 1) two_memories rows = Inr (st', rows') \<and>
    batch_limit_reached st' \<and> rows' = rows"
proof -
  obtain st rows where 1: "backfill_crosswalk False None ''2026-02-02'' ''u'' (Some 1) two_memories [] = Inr (st, rows)"
    "batch_limit_reached st \<longleftrightarrow> nat 1 < 2" by (rule two_memories_run)
  obtain st' rows' where 2: "backfill_crosswalk False None ''2026-02-03'' ''u'' (Some 1) two_memories rows = Inr (st', rows')"
    "batch_limit_reached st' \<longleftrightarrow> nat 1 < 2" by (rule two_memories_run)
  from backfill_crosswalk_rerun [OF 1(1) 2(1)] 1 2 show ?thesis by auto
qed

lemma backfill_then_lookup_witness:
  "\<exists>st rows ref. backfill_crosswalk False None ''2026-02-02'' ''u'' (Some 10) two_memories [] = Inr (st, rows) \<and>
    lazy_materialize_by_content_hash ''u'' ''h2'' rows = Some ref"
proof -
  obtain st rows where 1: "backfill_crosswalk False None ''2026-02-02'' ''u'' (Some 10) two_memories [] = Inr (st, rows)"
    "batch_limit_reached st \<longleftrightarrow> nat 10 < 2" by (rule two_memories_run)
  have "has_content ''u'' two_memories (ref_of ''memory'' ''m2'') ''h2''"
    by (simp add: has_content_def two_memories_def demo_memory_def)
  moreover have "\<not> batch_limit_reached st" using 1(2) by simp
  ultimately have "lazy_materialize_by_content_hash ''u'' ''h2'' rows \<noteq> None"
    using backfill_then_lookup [OF 1(1) _ two_memories_ok, of "''h2''"] by blast
  with 1(1) show ?thesis by auto
qed

section \<open>Reading the limit\<close>

text \<open>The environment variable written as a decimal number sets the limit to that number, but a value of
  superscript digits passes the check and makes the back-fill raise instead of falling back to the default.\<close>

theorem get_batch_limit_env:
  "get_batch_limit (Some (dec_nat n)) None = Inr (int n) \<and>
   get_batch_limit (Some ''ten'') None = Inr BACKFILL_BATCH_LIMIT_DEFAULT \<and>
   get_batch_limit (Some [CHR 0xB2]) None = Inl (ValueError ''invalid literal for int()'')"
proof (intro conjI)
  have "py_isdigit (dec_nat n)"
    using dec_nat_ascii [of n] dec_nat_nonempty [of n] by (auto simp: py_isdigit_def list_all_iff)
  then show "get_batch_limit (Some (dec_nat n)) None = Inr (int n)"
    by (simp add: get_batch_limit_def strip_spaceless digits_spaceless dec_nat_ascii int_of_dec_nat)
qed (simp_all add: get_batch_limit_def strip_def lstrip_def py_space_def py_isdigit_def ascii_digit_def)

end
