(* ===== verification/Resolver.thy ===== *)
theory Resolver
  imports Prelude
begin

text \<open>
  \<^verbatim>\<open>apex/resolver.py\<close>: from a free-text prompt to ranked candidate subjects. Coverage and Jaccard
  scores are exact rationals. Proved: a subject is a candidate only if it shares a token with the
  prompt, and the candidates are the best ones in the order of the sort key.
\<close>

definition DEFAULT_TOP_K :: int where
  "DEFAULT_TOP_K = 8"

definition MIN_TOKEN_LEN :: nat where
  "MIN_TOKEN_LEN = 2"

definition STOPWORDS :: "pystr list" where
  "STOPWORDS =
    [''a'', ''an'', ''and'', ''are'', ''as'', ''at'', ''be'', ''but'', ''by'', ''did'', ''do'',
     ''does'', ''for'', ''from'', ''had'', ''has'', ''have'', ''how'', ''i'', ''if'', ''in'',
     ''into'', ''is'', ''it'', ''its'', ''me'', ''my'', ''of'', ''on'', ''or'', ''our'', ''so'',
     ''that'', ''the'', ''their'', ''them'', ''then'', ''there'', ''these'', ''they'',
     ''this'', ''to'', ''was'', ''we'', ''were'', ''what'', ''when'', ''which'', ''who'',
     ''why'', ''will'', ''with'', ''you'', ''your'']"

text \<open>\<^verbatim>\<open>re.split(r"[^a-z0-9]+")\<close>; the empty pieces at the ends are dropped by the length test.\<close>

definition token_char :: "char \<Rightarrow> bool" where
  "token_char c \<longleftrightarrow> (let n = (of_char c :: nat) in (97 \<le> n \<and> n \<le> 122) \<or> (48 \<le> n \<and> n \<le> 57))"

function split_runs :: "pystr \<Rightarrow> pystr list" where
  "split_runs s = takeWhile token_char s #
     (case dropWhile token_char s of [] \<Rightarrow> [] | c # r \<Rightarrow> split_runs (dropWhile (\<lambda>x. \<not> token_char x) r))"
  by pat_completeness auto
termination
proof (relation "measure length")
  fix s c r
  assume "dropWhile token_char s = c # r"
  then have "length (c # r) \<le> length s" by (metis length_dropWhile_le)
  moreover have "length (dropWhile (\<lambda>x. \<not> token_char x) r) \<le> length r" by (rule length_dropWhile_le)
  ultimately show "(dropWhile (\<lambda>x. \<not> token_char x) r, s) \<in> measure length" by simp
qed simp

declare split_runs.simps [simp del]

definition tokenize :: "pystr \<Rightarrow> pystr list" where
  "tokenize s = (if s = [] then []
     else remdups (filter (\<lambda>tok. MIN_TOKEN_LEN \<le> length tok \<and> tok \<notin> set STOPWORDS) (split_runs (lower s))))"

record ScoredSubject =
  scored_subject :: pystr
  overlap :: nat
  coverage :: rat
  jaccard :: rat

definition sort_key_of :: "ScoredSubject \<Rightarrow> int \<times> rat \<times> rat \<times> pystr" where
  "sort_key_of s = (- int (overlap s), - coverage s, - jaccard s, scored_subject s)"

definition score :: "pystr list \<Rightarrow> pystr \<Rightarrow> ScoredSubject option" where
  "score prompt_tokens subject =
    (let subject_tokens = tokenize subject;
         n = length (filter (\<lambda>t. t \<in> set subject_tokens) prompt_tokens);
         union = length (remdups (prompt_tokens @ subject_tokens))
     in if subject_tokens = [] \<or> n = 0 then None
        else Some \<lparr>scored_subject = subject, overlap = n, coverage = of_nat n / of_nat (length subject_tokens),
               jaccard = (if union \<noteq> 0 then of_nat n / of_nat union else 0)\<rparr>)"

fun score_all :: "pystr list \<Rightarrow> pystr list \<Rightarrow> pystr list \<Rightarrow> ScoredSubject list" where
  "score_all prompt_tokens seen [] = []"
| "score_all prompt_tokens seen (s # ss) =
    (if s \<in> set seen then score_all prompt_tokens seen ss
     else (case score prompt_tokens s of None \<Rightarrow> [] | Some x \<Rightarrow> [x]) @ score_all prompt_tokens (s # seen) ss)"

text \<open>Python compares the key tuples lexicographically.\<close>

definition key_le :: "ScoredSubject \<Rightarrow> ScoredSubject \<Rightarrow> bool" where
  "key_le a b = (case (sort_key_of a, sort_key_of b) of ((o1, c1, j1, s1), (o2, c2, j2, s2)) \<Rightarrow>
     o1 < o2 \<or> o1 = o2 \<and> (c1 < c2 \<or> c1 = c2 \<and> (j1 < j2 \<or> j1 = j2 \<and> s1 \<le> s2)))"

fun insort :: "ScoredSubject \<Rightarrow> ScoredSubject list \<Rightarrow> ScoredSubject list" where
  "insort x [] = [x]"
| "insort x (y # ys) = (if key_le x y then x # y # ys else y # insort x ys)"

definition sort_scored :: "ScoredSubject list \<Rightarrow> ScoredSubject list" where
  "sort_scored xs = foldr insort xs []"

definition resolve_subjects :: "pystr \<Rightarrow> pystr list \<Rightarrow> int \<Rightarrow> ScoredSubject list" where
  "resolve_subjects prompt subjects top_k =
    (if top_k \<le> 0 then []
     else let prompt_tokens = tokenize prompt in
       if prompt_tokens = [] then []
       else take (nat top_k) (sort_scored (score_all prompt_tokens [] subjects)))"

section \<open>The order\<close>

lemma key_le_refl [simp]: "key_le x x"
  by (simp add: key_le_def split: prod.splits)

lemma key_le_total: "key_le x y \<or> key_le y x"
  by (auto simp: key_le_def split: prod.splits)

lemma key_le_trans: "key_le x y \<Longrightarrow> key_le y z \<Longrightarrow> key_le x z"
  by (auto simp: key_le_def split: prod.splits)

lemma insort_set: "set (insort x ys) = insert x (set ys)"
  by (induction ys) auto

lemma insort_sorted: "sorted_wrt key_le ys \<Longrightarrow> sorted_wrt key_le (insort x ys)"
  by (induction ys) (use key_le_total key_le_trans in \<open>auto simp: insort_set\<close>)

lemma sort_scored_set [simp]: "set (sort_scored xs) = set xs"
  by (induction xs) (auto simp: sort_scored_def insort_set)

lemma sort_scored_sorted: "sorted_wrt key_le (sort_scored xs)"
  by (induction xs) (auto simp: sort_scored_def intro: insort_sorted)

lemma insort_distinct: "distinct (map f (insort x ys)) \<longleftrightarrow> distinct (map f (x # ys))"
  by (induction ys) (auto simp: insort_set)

lemma sort_scored_distinct: "distinct (map f (sort_scored xs)) \<longleftrightarrow> distinct (map f xs)"
proof (induction xs)
  case (Cons x xs)
  have "sort_scored (x # xs) = insort x (sort_scored xs)" by (simp add: sort_scored_def)
  then show ?case using Cons by (simp add: insort_distinct)
qed (simp add: sort_scored_def)

section \<open>The candidates\<close>

text \<open>The tokens two texts share.\<close>

definition shares_token :: "pystr \<Rightarrow> pystr \<Rightarrow> bool" where
  "shares_token prompt subject \<longleftrightarrow> (\<exists>t. t \<in> set (tokenize prompt) \<and> t \<in> set (tokenize subject))"

lemma score_None: "score (tokenize prompt) s = None \<longleftrightarrow> \<not> shares_token prompt s"
  by (auto simp: score_def shares_token_def Let_def filter_empty_conv)

lemma score_subject: "score ts s = Some x \<Longrightarrow> scored_subject x = s"
  by (auto simp: score_def Let_def split: if_splits)

lemma score_all_set: "set (score_all ts seen ss) = {x. \<exists>s \<in> set ss - set seen. score ts s = Some x}"
  by (induction ss arbitrary: seen) (auto split: option.splits)

lemma score_all_distinct: "distinct (map scored_subject (score_all ts seen ss))"
proof (induction ss arbitrary: seen)
  case (Cons s ss)
  have "s \<notin> scored_subject ` set (score_all ts (s # seen) ss)"
    using score_subject by (auto simp: score_all_set)
  with Cons show ?case by (auto split: option.split dest: score_subject)
qed simp

text \<open>All subjects that may be candidates, best first.\<close>

definition ranking :: "pystr \<Rightarrow> pystr list \<Rightarrow> ScoredSubject list" where
  "ranking prompt subjects = sort_scored (score_all (tokenize prompt) [] subjects)"

lemma resolve_ranking: "resolve_subjects prompt subjects top_k = take (nat top_k) (ranking prompt subjects)"
proof (cases "tokenize prompt = []")
  case True
  then have "score (tokenize prompt) s = None" for s
    unfolding score_None by (simp add: shares_token_def)
  then have "set (score_all (tokenize prompt) [] subjects) = {}"
    unfolding score_all_set by simp
  then show ?thesis using True
    by (simp add: resolve_subjects_def ranking_def sort_scored_def)
qed (simp add: resolve_subjects_def ranking_def)

lemma ranking_subjects: "scored_subject ` set (ranking prompt subjects) = {s \<in> set subjects. shares_token prompt s}"
proof -
  have "set (ranking prompt subjects) = {x. \<exists>s \<in> set subjects. score (tokenize prompt) s = Some x}"
    by (simp add: ranking_def score_all_set)
  moreover have "(\<exists>x. score (tokenize prompt) s = Some x) \<longleftrightarrow> shares_token prompt s" for s
    using score_None [of prompt s] by (cases "score (tokenize prompt) s") auto
  ultimately show ?thesis by (auto dest: score_subject) (use score_subject in blast)
qed

text \<open>A subject is among the candidates only if it shares a token with the prompt; no subject is returned
  twice, at most \<open>top_k\<close> are, best first, and one that shares a token is left out only if \<open>top_k\<close> candidates
  all rank at least as high.\<close>

theorem resolve_subjects_best:
  "let cs = resolve_subjects prompt subjects top_k in
    (\<forall>c \<in> set cs. scored_subject c \<in> set subjects \<and> shares_token prompt (scored_subject c)) \<and>
    distinct (map scored_subject cs) \<and> sorted_wrt key_le cs \<and> int (length cs) \<le> max 0 top_k \<and>
    (\<forall>s \<in> set subjects. shares_token prompt s \<longrightarrow> s \<in> scored_subject ` set cs \<or>
      length cs = nat top_k \<and> (\<exists>x. scored_subject x = s \<and> (\<forall>c \<in> set cs. key_le c x)))"
proof -
  define cs where "cs = resolve_subjects prompt subjects top_k"
  define r where "r = ranking prompt subjects"
  have cs: "cs = take (nat top_k) r" by (simp add: cs_def resolve_ranking r_def)
  have subj: "scored_subject ` set r = {s \<in> set subjects. shares_token prompt s}"
    unfolding r_def by (rule ranking_subjects)
  have sorted: "sorted_wrt key_le r" by (simp add: r_def ranking_def sort_scored_sorted)
  have dist: "distinct (map scored_subject r)"
    by (simp add: r_def ranking_def sort_scored_distinct score_all_distinct)
  have "\<forall>c \<in> set cs. scored_subject c \<in> set subjects \<and> shares_token prompt (scored_subject c)"
    using subj set_take_subset [of "nat top_k" r] unfolding cs by blast
  moreover have "distinct (map scored_subject cs)"
    unfolding cs take_map [symmetric] using dist by (rule distinct_take)
  moreover have "sorted_wrt key_le cs" unfolding cs using sorted by (rule sorted_wrt_take)
  moreover have "int (length cs) \<le> max 0 top_k" by (simp add: cs)
  moreover have "s \<in> scored_subject ` set cs \<or>
      length cs = nat top_k \<and> (\<exists>x. scored_subject x = s \<and> (\<forall>c \<in> set cs. key_le c x))"
    if "s \<in> set subjects" "shares_token prompt s" for s
  proof -
    from that have "s \<in> scored_subject ` set r" unfolding subj by simp
    then obtain x where x: "x \<in> set r" "scored_subject x = s" by auto
    have split: "r = cs @ drop (nat top_k) r" by (simp add: cs)
    have "set r = set cs \<union> set (drop (nat top_k) r)" by (metis split set_append)
    then consider "x \<in> set cs" | "x \<in> set (drop (nat top_k) r)" using x(1) by blast
    then show ?thesis
    proof cases
      case 2
      then have "length cs = nat top_k" by (cases "nat top_k \<le> length r") (auto simp: cs)
      moreover have "\<forall>c \<in> set cs. key_le c x"
        using sorted 2 split by (metis sorted_wrt_append)
      ultimately show ?thesis using x(2) by blast
    qed (use x(2) in blast)
  qed
  ultimately show ?thesis unfolding Let_def cs_def [symmetric] by blast
qed

lemma tokenize_demo: "tokenize ''db'' = [''db'']"
  by (simp add: tokenize_def lower_def lower_char_def split_runs.simps token_char_def MIN_TOKEN_LEN_def STOPWORDS_def)

lemma resolve_subjects_best_witness:
  "''db'' \<in> scored_subject ` set (resolve_subjects ''db'' [''db''] 2)"
proof -
  have shares: "shares_token ''db'' ''db''" by (simp add: shares_token_def tokenize_demo)
  have "length (resolve_subjects ''db'' [''db''] 2) \<noteq> 2"
    by (simp add: resolve_ranking ranking_def sort_scored_def split: option.split)
  with shares resolve_subjects_best [of "''db''" "[''db'']" 2] show ?thesis
    unfolding Let_def by force
qed

end
