(* ===== verification/Subject_Index.thy ===== *)
theory Subject_Index
  imports Decimals
begin

text \<open>
  \<^verbatim>\<open>apex/subject_index.py\<close>: the persisted map from subjects to packages, a cache that ingest maintains
  and a read rebuilds when the identities (name, size, mtime) of the packages on disk differ from the
  recorded ones. Proved: what is saved is loaded back, and in any interleaving of ingests, reads, damage to
  the file and changes of the directory no read returns an index of other packages than it saw.
\<close>

section \<open>Data\<close>

record IndexEntry =
  ie_subject :: pystr
  ie_package_id :: pystr
  ie_claim_id :: pystr
  ie_package_file :: pystr

record PackageStat =
  ps_name :: pystr
  ps_size :: int
  ps_mtime_ns :: int

record SubjectIndex =
  si_entries :: "IndexEntry list"
  si_packages :: "PackageStat list"
  si_built_at :: rat

definition index_subjects :: "SubjectIndex \<Rightarrow> pystr list" where
  "index_subjects ix = remdups (map ie_subject (si_entries ix))"

definition packages_for_subject :: "SubjectIndex \<Rightarrow> pystr \<Rightarrow> pystr list" where
  "packages_for_subject ix subject =
    sort (remdups (map ie_package_file (filter (\<lambda>e. ie_subject e = subject) (si_entries ix))))"

definition package_files :: "SubjectIndex \<Rightarrow> pystr list" where
  "package_files ix = map ps_name (si_packages ix)"

definition index_is_empty :: "SubjectIndex \<Rightarrow> bool" where
  "index_is_empty ix = (length (si_packages ix) = 0)"

definition SCHEMA_VERSION :: int where
  "SCHEMA_VERSION = 2"

section \<open>The directory\<close>

text \<open>The names in the directory, each with what \<^verbatim>\<open>stat\<close> gives (\<open>None\<close>: it has vanished).\<close>

type_synonym listing = "(pystr \<times> (int \<times> int) option) list"

definition endswith :: "pystr \<Rightarrow> pystr \<Rightarrow> bool" where
  "endswith s p \<longleftrightarrow> startswith (rev s) (rev p)"

fun stats :: "listing \<Rightarrow> PackageStat list" where
  "stats [] = []"
| "stats ((name, None) # dir) = stats dir"
| "stats ((name, Some (sz, mt)) # dir) = \<lparr>ps_name = name, ps_size = sz, ps_mtime_ns = mt\<rparr> # stats dir"

definition current_packages :: "listing \<Rightarrow> PackageStat list" where
  "current_packages dir = stats (sort_key fst (filter (\<lambda>f. endswith (fst f) ''.aphelion.tar'') dir))"

section \<open>The file\<close>

text \<open>What reading the file gives. \<open>NotUtf8\<close> is a \<^verbatim>\<open>UnicodeDecodeError\<close>, which \<^verbatim>\<open>load_index\<close> does not catch.\<close>

datatype index_file = NoFile | Unreadable | NotUtf8 | Content jtext

text \<open>
  \<^verbatim>\<open>str\<close>, \<^verbatim>\<open>int\<close> and \<^verbatim>\<open>float\<close> of a JSON value; \<open>None\<close> is a \<^verbatim>\<open>TypeError\<close> or \<^verbatim>\<open>ValueError\<close>. The texts that
  \<^verbatim>\<open>repr\<close> gives a float or a container, and what \<^verbatim>\<open>int\<close> and \<^verbatim>\<open>float\<close> read from a text, are a parameter.
\<close>

record coercions =
  repr_of :: "json \<Rightarrow> pystr"
  int_of_text :: "pystr \<Rightarrow> int option"
  float_of_text :: "pystr \<Rightarrow> rat option"

definition to_str :: "coercions \<Rightarrow> json \<Rightarrow> pystr" where
  "to_str c j = (case j of JStr s \<Rightarrow> s | JInt i \<Rightarrow> dec i | JNull \<Rightarrow> ''None''
     | JBool b \<Rightarrow> (if b then ''True'' else ''False'') | _ \<Rightarrow> repr_of c j)"

definition to_int :: "coercions \<Rightarrow> json \<Rightarrow> int option" where
  "to_int c j = (case j of JInt i \<Rightarrow> Some i | JBool b \<Rightarrow> Some (of_bool b)
     | JNum r \<Rightarrow> Some (if r < 0 then - floor (- r) else floor r) | JStr s \<Rightarrow> int_of_text c s | _ \<Rightarrow> None)"

definition to_float :: "coercions \<Rightarrow> json \<Rightarrow> rat option" where
  "to_float c j = (case j of JInt i \<Rightarrow> Some (of_int i) | JBool b \<Rightarrow> Some (of_bool b) | JNum r \<Rightarrow> Some r
     | JStr s \<Rightarrow> float_of_text c s | _ \<Rightarrow> None)"

text \<open>\<^verbatim>\<open>item[k]\<close>: \<open>None\<close> is a \<^verbatim>\<open>KeyError\<close>, or a \<^verbatim>\<open>TypeError\<close> when \<^verbatim>\<open>item\<close> is not an object.\<close>

definition jget :: "pystr \<Rightarrow> json \<Rightarrow> json option" where
  "jget k j = (case j of JObj kvs \<Rightarrow> map_of kvs k | _ \<Rightarrow> None)"

text \<open>Iterating an object yields its keys, a text its characters; neither has items.\<close>

definition jitems :: "json \<Rightarrow> json list option" where
  "jitems j = (case j of JList xs \<Rightarrow> Some xs | JObj kvs \<Rightarrow> Some (map (JStr \<circ> fst) kvs)
     | JStr s \<Rightarrow> Some (map (\<lambda>ch. JStr [ch]) s) | _ \<Rightarrow> None)"

definition entry_of_json :: "coercions \<Rightarrow> json \<Rightarrow> IndexEntry option" where
  "entry_of_json c item =
    Option.bind (jget ''subject'' item) (\<lambda>s. Option.bind (jget ''package_id'' item) (\<lambda>p.
    Option.bind (jget ''claim_id'' item) (\<lambda>cl. Option.bind (jget ''package_file'' item) (\<lambda>f.
      Some \<lparr>ie_subject = to_str c s, ie_package_id = to_str c p, ie_claim_id = to_str c cl, ie_package_file = to_str c f\<rparr>))))"

definition package_of_json :: "coercions \<Rightarrow> json \<Rightarrow> PackageStat option" where
  "package_of_json c item =
    Option.bind (jget ''name'' item) (\<lambda>n. Option.bind (Option.bind (jget ''size'' item) (to_int c)) (\<lambda>s.
    Option.bind (Option.bind (jget ''mtime_ns'' item) (to_int c)) (\<lambda>m.
      Some \<lparr>ps_name = to_str c n, ps_size = s, ps_mtime_ns = m\<rparr>)))"

definition index_of_json :: "coercions \<Rightarrow> json \<Rightarrow> SubjectIndex option" where
  "index_of_json c j =
    (if jget ''schema_version'' j \<notin> {Some (JInt SCHEMA_VERSION), Some (JNum (of_int SCHEMA_VERSION))} then None
     else Option.bind (Option.bind (jget ''entries'' j) jitems) (\<lambda>es. Option.bind (those (map (entry_of_json c) es)) (\<lambda>es'.
       Option.bind (Option.bind (jget ''packages'' j) jitems) (\<lambda>ps. Option.bind (those (map (package_of_json c) ps)) (\<lambda>ps'.
       Option.bind (Option.bind (jget ''built_at'' j) (to_float c)) (\<lambda>b.
         Some \<lparr>si_entries = es', si_packages = ps', si_built_at = b\<rparr>))))))"

definition load_index :: "coercions \<Rightarrow> index_file \<Rightarrow> kernel_error + SubjectIndex option" where
  "load_index c f = (case f of
     NoFile \<Rightarrow> Inr None
   | Unreadable \<Rightarrow> Inr None
   | NotUtf8 \<Rightarrow> Inl (ValueError ''UnicodeDecodeError'')
   | Content (JText j) \<Rightarrow> Inr (index_of_json c j)
   | Content _ \<Rightarrow> Inr None)"

definition json_of_entry :: "IndexEntry \<Rightarrow> json" where
  "json_of_entry e = JObj (sort_key fst [(''subject'', JStr (ie_subject e)), (''package_id'', JStr (ie_package_id e)),
     (''claim_id'', JStr (ie_claim_id e)), (''package_file'', JStr (ie_package_file e))])"

definition json_of_package :: "PackageStat \<Rightarrow> json" where
  "json_of_package p = JObj (sort_key fst [(''name'', JStr (ps_name p)), (''size'', JInt (ps_size p)),
     (''mtime_ns'', JInt (ps_mtime_ns p))])"

definition save_index :: "SubjectIndex \<Rightarrow> index_file" where
  "save_index ix = Content (dumps_sorted [(''schema_version'', JInt SCHEMA_VERSION), (''built_at'', JNum (si_built_at ix)),
     (''packages'', JList (map json_of_package (si_packages ix))), (''entries'', JList (map json_of_entry (si_entries ix)))])"

section \<open>Ingest\<close>

definition added_entries :: "pystr \<Rightarrow> pystr \<Rightarrow> (pystr \<times> pystr) list \<Rightarrow> IndexEntry list" where
  "added_entries package_file package_id claim_subjects =
    map (\<lambda>(cid, subject). \<lparr>ie_subject = subject, ie_package_id = package_id, ie_claim_id = cid, ie_package_file = package_file\<rparr>)
      (filter (\<lambda>(_, subject). subject \<noteq> []) claim_subjects)"

definition merged_index ::
  "SubjectIndex option \<Rightarrow> PackageStat list \<Rightarrow> pystr \<Rightarrow> pystr \<Rightarrow> (pystr \<times> pystr) list \<Rightarrow> rat \<Rightarrow> SubjectIndex" where
  "merged_index existing current package_file package_id claim_subjects now =
    (let on_disk = set (map ps_name current);
         ingested = List.find (\<lambda>p. ps_name p = package_file) current;
         prev_entries = (case existing of None \<Rightarrow> [] | Some ix \<Rightarrow> si_entries ix);
         prev_packages = (case existing of None \<Rightarrow> [] | Some ix \<Rightarrow> si_packages ix);
         base_entries = filter (\<lambda>e. ie_package_file e \<noteq> package_file \<and> ie_package_file e \<in> on_disk) prev_entries;
         base_packages = filter (\<lambda>p. ps_name p \<noteq> package_file \<and> ps_name p \<in> on_disk) prev_packages
     in \<lparr>si_entries = base_entries @ added_entries package_file package_id claim_subjects,
         si_packages = sort_key ps_name (base_packages @ (case ingested of None \<Rightarrow> [] | Some p \<Rightarrow> [p])),
         si_built_at = now\<rparr>)"

definition update_index_for_package ::
  "coercions \<Rightarrow> listing \<Rightarrow> pystr \<Rightarrow> pystr \<Rightarrow> (pystr \<times> pystr) list \<Rightarrow> rat \<Rightarrow> index_file \<Rightarrow> kernel_error + SubjectIndex" where
  "update_index_for_package c dir package_file package_id claim_subjects now f =
    and_then (load_index c f) (\<lambda>existing.
      Inr (merged_index existing (current_packages dir) package_file package_id claim_subjects now))"

section \<open>Read\<close>

datatype trigger = Missing | Corrupt | Stale

text \<open>
  What a read serves, with the index it then tries to save and why it was rebuilt (\<open>None\<close>: fresh).
  \<open>scan\<close> is the result of \<^verbatim>\<open>scan_fn\<close>, \<open>exists\<close> says whether the file is there.
\<close>

definition load_or_rebuild ::
  "coercions \<Rightarrow> listing \<Rightarrow> kernel_error + IndexEntry list \<Rightarrow> bool \<Rightarrow> rat \<Rightarrow> index_file \<Rightarrow>
   kernel_error + SubjectIndex \<times> trigger option" where
  "load_or_rebuild c dir scan exists now f =
    and_then (load_index c f) (\<lambda>existing.
      let current = current_packages dir;
          rebuild = (\<lambda>t. and_then scan (\<lambda>es. Inr (\<lparr>si_entries = es, si_packages = current, si_built_at = now\<rparr>, Some t)))
      in case existing of
          Some ix \<Rightarrow> if si_packages ix = current then Inr (ix, None) else rebuild Stale
        | None \<Rightarrow> rebuild (if exists then Corrupt else Missing))"

section \<open>What is saved is loaded\<close>

lemma those_map: "(\<And>x. x \<in> set xs \<Longrightarrow> f x = Some (g x)) \<Longrightarrow> those (map f xs) = Some (map g xs)"
  by (induction xs) auto

lemma jget_sorted: "distinct (map fst kvs) \<Longrightarrow> jget k (JObj (sort_key fst kvs)) = map_of kvs k"
  unfolding jget_def by (simp add: map_of_sort_key)

lemma entry_roundtrip: "entry_of_json c (json_of_entry e) = Some e"
  unfolding entry_of_json_def json_of_entry_def by (subst jget_sorted, simp)+ (simp add: to_str_def)

lemma package_roundtrip: "package_of_json c (json_of_package p) = Some p"
  unfolding package_of_json_def json_of_package_def by (subst jget_sorted, simp)+ (simp add: to_str_def to_int_def)

lemma load_saved: "load_index c (save_index ix) = Inr (Some ix)"
proof -
  have e: "those (map (entry_of_json c) (map json_of_entry es)) = Some es" for es
    using those_map [of es "entry_of_json c \<circ> json_of_entry" id] by (simp add: entry_roundtrip)
  have p: "those (map (package_of_json c) (map json_of_package ps)) = Some ps" for ps
    using those_map [of ps "package_of_json c \<circ> json_of_package" id] by (simp add: package_roundtrip)
  show ?thesis
    by (simp add: load_index_def save_index_def dumps_sorted_def index_of_json_def jget_def jitems_def to_float_def
      e [unfolded map_map] p [unfolded map_map] del: those.simps)
qed

text \<open>An index that is saved is loaded back unchanged, whatever its subjects and stamps; a file that is not
  UTF-8 makes the load raise instead of returning \<open>None\<close>.\<close>

theorem save_load_index:
  "load_index c (save_index ix) = Inr (Some ix) \<and> load_index c NotUtf8 = Inl (ValueError ''UnicodeDecodeError'')"
  by (simp add: load_saved) (simp add: load_index_def)

section \<open>Freshness\<close>

text \<open>
  The identity of a package determines what a scan finds in it: \<open>entries_of\<close>. An index is right when it
  has exactly the entries of the packages it records.
\<close>

definition index_right :: "(PackageStat \<Rightarrow> IndexEntry list) \<Rightarrow> SubjectIndex \<Rightarrow> bool" where
  "index_right entries_of ix \<longleftrightarrow> distinct (map ps_name (si_packages ix)) \<and>
     set (si_entries ix) = (\<Union>p \<in> set (si_packages ix). set (entries_of p))"

lemma find_distinct:
  assumes "distinct (map ps_name current)" "p \<in> set current"
  shows "List.find (\<lambda>q. ps_name q = ps_name p) current = Some p"
proof (cases "List.find (\<lambda>q. ps_name q = ps_name p) current")
  case None
  then show ?thesis using assms(2) by (auto simp: find_None)
next
  case (Some q)
  then have "q \<in> set current" "ps_name q = ps_name p" by (auto dest: find_SomeD)
  then have "q = p" using assms by (auto simp: distinct_map inj_on_def)
  with Some show ?thesis by simp
qed

locale package_corpus =
  fixes entries_of :: "PackageStat \<Rightarrow> IndexEntry list"
  assumes own_file: "e \<in> set (entries_of p) \<Longrightarrow> ie_package_file e = ps_name p"
begin

lemma merged_right:
  assumes ex: "\<And>ix. existing = Some ix \<Longrightarrow> index_right entries_of ix"
    and dist: "distinct (map ps_name current)" and p: "p \<in> set current" "ps_name p = pf"
    and added: "set (added_entries pf pid cs) = set (entries_of p)"
  shows "index_right entries_of (merged_index existing current pf pid cs now)"
proof -
  define es ps where "es = (case existing of None \<Rightarrow> [] | Some ix \<Rightarrow> si_entries ix)"
    and "ps = (case existing of None \<Rightarrow> [] | Some ix \<Rightarrow> si_packages ix)"
  have prev: "distinct (map ps_name ps)" "set es = (\<Union>p \<in> set ps. set (entries_of p))"
    using ex by (auto simp: es_def ps_def index_right_def split: option.splits)
  have "List.find (\<lambda>q. ps_name q = pf) current = Some p" using find_distinct [OF dist p(1)] p(2) by simp
  then have m: "merged_index existing current pf pid cs now =
    \<lparr>si_entries = filter (\<lambda>e. ie_package_file e \<noteq> pf \<and> ie_package_file e \<in> set (map ps_name current)) es @ added_entries pf pid cs,
     si_packages = sort_key ps_name (filter (\<lambda>q. ps_name q \<noteq> pf \<and> ps_name q \<in> set (map ps_name current)) ps @ [p]),
     si_built_at = now\<rparr>"
    by (simp add: merged_index_def es_def ps_def)
  have "distinct (map ps_name (filter (\<lambda>q. ps_name q \<noteq> pf \<and> ps_name q \<in> set (map ps_name current)) ps @ [p]))"
    using prev(1) p(2) by (auto simp: distinct_map_filter)
  then have "distinct (map ps_name (si_packages (merged_index existing current pf pid cs now)))"
    unfolding m by (auto simp: distinct_map)
  moreover have "set (si_entries (merged_index existing current pf pid cs now)) =
      (\<Union>p \<in> set (si_packages (merged_index existing current pf pid cs now)). set (entries_of p))"
    unfolding m using own_file by (auto simp: prev(2) added)
  ultimately show ?thesis unfolding index_right_def by blast
qed

lemma rebuilt_right:
  assumes "set es = (\<Union>p \<in> set current. set (entries_of p))" "distinct (map ps_name current)"
  shows "index_right entries_of \<lparr>si_entries = es, si_packages = current, si_built_at = now\<rparr>"
  using assms by (simp add: index_right_def)

end

lemma stats_names: "ps_name ` set (stats dir) \<subseteq> fst ` set dir"
  by (induction dir rule: stats.induct) auto

lemma stats_distinct: "distinct (map fst dir) \<Longrightarrow> distinct (map ps_name (stats dir))"
proof (induction dir rule: stats.induct)
  case (3 name sz mt dir)
  then have "name \<notin> ps_name ` set (stats dir)" using stats_names [of dir] by auto
  with 3 show ?case by simp
qed auto

lemma current_packages_distinct: "distinct (map fst dir) \<Longrightarrow> distinct (map ps_name (current_packages dir))"
  unfolding current_packages_def by (rule stats_distinct) (auto simp: distinct_map inj_on_def)

text \<open>
  The cache over time. An index that has been computed is \<open>pending\<close> until its temporary file replaces the
  real one; \<open>served\<close> records what each read listed and returned. The directory may be different at
  every step, and the file may be lost or damaged at any time.
\<close>

record cache =
  ca_file :: index_file
  ca_pending :: "SubjectIndex list"
  ca_served :: "(PackageStat list \<times> SubjectIndex) list"

definition unreadable :: "coercions \<Rightarrow> index_file \<Rightarrow> bool" where
  "unreadable c f \<longleftrightarrow> (case load_index c f of Inr (Some _) \<Rightarrow> False | _ \<Rightarrow> True)"

inductive idx_step :: "coercions \<Rightarrow> (PackageStat \<Rightarrow> IndexEntry list) \<Rightarrow> cache \<Rightarrow> cache \<Rightarrow> bool"
  for c :: coercions and entries_of :: "PackageStat \<Rightarrow> IndexEntry list" where
  ingest: "distinct (map fst dir) \<Longrightarrow> p \<in> set (current_packages dir) \<Longrightarrow>
    set (added_entries (ps_name p) pid cs) = set (entries_of p) \<Longrightarrow>
    update_index_for_package c dir (ps_name p) pid cs now (ca_file s) = Inr ix \<Longrightarrow>
    idx_step c entries_of s (s\<lparr>ca_pending := ix # ca_pending s\<rparr>)"
| replace: "ix \<in> set (ca_pending s) \<Longrightarrow> idx_step c entries_of s (s\<lparr>ca_file := save_index ix\<rparr>)"
| damage: "unreadable c f \<Longrightarrow> idx_step c entries_of s (s\<lparr>ca_file := f\<rparr>)"
| read: "distinct (map fst dir) \<Longrightarrow> set es = (\<Union>p \<in> set (current_packages dir). set (entries_of p)) \<Longrightarrow>
    load_or_rebuild c dir (Inr es) exists now (ca_file s) = Inr (ix, t) \<Longrightarrow>
    idx_step c entries_of s (s\<lparr>ca_pending := (case t of None \<Rightarrow> ca_pending s | Some _ \<Rightarrow> ix # ca_pending s),
      ca_served := (current_packages dir, ix) # ca_served s\<rparr>)"

definition cache_right :: "coercions \<Rightarrow> (PackageStat \<Rightarrow> IndexEntry list) \<Rightarrow> cache \<Rightarrow> bool" where
  "cache_right c entries_of s \<longleftrightarrow> (\<forall>ix. load_index c (ca_file s) = Inr (Some ix) \<longrightarrow> index_right entries_of ix) \<and>
     (\<forall>ix \<in> set (ca_pending s). index_right entries_of ix) \<and>
     (\<forall>(current, ix) \<in> set (ca_served s). si_packages ix = current \<and> index_right entries_of ix)"

context package_corpus begin

lemma read_right:
  assumes "load_or_rebuild c dir (Inr es) exists now f = Inr (ix, t)"
    and "\<And>ix. load_index c f = Inr (Some ix) \<Longrightarrow> index_right entries_of ix"
    and "set es = (\<Union>p \<in> set (current_packages dir). set (entries_of p))" "distinct (map fst dir)"
  shows "si_packages ix = current_packages dir \<and> index_right entries_of ix"
  using assms rebuilt_right [OF assms(3) current_packages_distinct [OF assms(4)]]
  by (auto simp: load_or_rebuild_def and_then_def Let_def split: sum.splits option.splits if_splits)

lemma step_right: "idx_step c entries_of s s' \<Longrightarrow> cache_right c entries_of s \<Longrightarrow> cache_right c entries_of s'"
proof (induction rule: idx_step.induct)
  case (ingest dir p pid cs now s ix)
  from ingest(4) obtain existing where ex: "load_index c (ca_file s) = Inr existing"
    and ix: "ix = merged_index existing (current_packages dir) (ps_name p) pid cs now"
    by (auto simp: update_index_for_package_def and_then_Inr)
  have "index_right entries_of ix"
    unfolding ix
    by (rule merged_right [OF _ current_packages_distinct [OF ingest(1)] ingest(2) refl ingest(3)])
      (use ex ingest(5) in \<open>auto simp: cache_right_def\<close>)
  with ingest(5) show ?case by (simp add: cache_right_def)
next
  case (read dir es exists now s ix t)
  have "si_packages ix = current_packages dir \<and> index_right entries_of ix"
    by (rule read_right [OF read(3) _ read(2,1)]) (use read(4) in \<open>simp add: cache_right_def\<close>)
  with read(4) show ?case by (auto simp: cache_right_def split: option.splits)
qed (auto simp: cache_right_def load_saved unreadable_def split: sum.splits option.splits)

lemma run_right: "(idx_step c entries_of)\<^sup>*\<^sup>* s s' \<Longrightarrow> cache_right c entries_of s \<Longrightarrow> cache_right c entries_of s'"
  by (induction rule: rtranclp_induct) (auto intro: step_right)

end

definition empty_cache :: cache where
  "empty_cache = \<lparr>ca_file = NoFile, ca_pending = [], ca_served = []\<rparr>"

end
