(* ===== verification/Canonical_Json.thy ===== *)
theory Canonical_Json
  imports Hashing Decimals Event_Id "HOL-Library.Multiset"
begin

text \<open>
  \<^verbatim>\<open>apex/canonical_json.py\<close>: normal form and canonical text of a JSON value, as \<^verbatim>\<open>json.dumps\<close> with sorted
  keys, no white space and \<^verbatim>\<open>ensure_ascii=False\<close> writes it. NFC is the parameter of \<open>Hashing\<close>, and so is
  the text of a float (rule 4 of the module forbids floats). Proved: on values without floats whose objects have
  distinct keys the canonical text determines the normal form.
\<close>

section \<open>Normal form\<close>

fun nfc_json :: "digests \<Rightarrow> json \<Rightarrow> kernel_error + json"
  and nfc_list :: "digests \<Rightarrow> json list \<Rightarrow> kernel_error + json list"
  and nfc_items :: "digests \<Rightarrow> (pystr \<times> json) list \<Rightarrow> (pystr \<times> json) list \<Rightarrow> kernel_error + (pystr \<times> json) list" where
  "nfc_json h (JStr s) = Inr (JStr (nfc h s))"
| "nfc_json h (JObj kvs) = and_then (nfc_items h [] kvs) (\<lambda>kvs'. Inr (JObj kvs'))"
| "nfc_json h (JList xs) = and_then (nfc_list h xs) (\<lambda>xs'. Inr (JList xs'))"
| "nfc_json h JNull = Inr JNull"
| "nfc_json h (JBool b) = Inr (JBool b)"
| "nfc_json h (JInt i) = Inr (JInt i)"
| "nfc_json h (JNum r) = Inr (JNum r)"
| "nfc_list h [] = Inr []"
| "nfc_list h (x # xs) = and_then (nfc_json h x) (\<lambda>x'. and_then (nfc_list h xs) (\<lambda>xs'. Inr (x' # xs')))"
| "nfc_items h acc [] = Inr acc"
| "nfc_items h acc ((k, v) # kvs) =
    (if nfc h k \<in> fst ` set acc then Inl (ValueError ''NFC key collision'')
     else and_then (nfc_json h v) (\<lambda>v'. nfc_items h (acc @ [(nfc h k, v')]) kvs))"

section \<open>Text\<close>

definition hex2 :: "nat \<Rightarrow> pystr" where
  "hex2 n = [hexchar (n div 16), hexchar (n mod 16)]"

text \<open>\<^verbatim>\<open>json.encoder.ESCAPE\<close>: the quote, the backslash and the control characters.\<close>

definition escape_char :: "char \<Rightarrow> pystr" where
  "escape_char c = (let n = (of_char c :: nat) in
     if n = 34 then [CHR 0x5C, CHR 0x22] else if n = 92 then [CHR 0x5C, CHR 0x5C]
     else if n = 10 then [CHR 0x5C, CHR ''n''] else if n = 13 then [CHR 0x5C, CHR ''r'']
     else if n = 9 then [CHR 0x5C, CHR ''t''] else if n = 8 then [CHR 0x5C, CHR ''b'']
     else if n = 12 then [CHR 0x5C, CHR ''f'']
     else if n < 32 then [CHR 0x5C, CHR ''u'', CHR ''0'', CHR ''0''] @ hex2 n
     else [c])"

definition quoted :: "pystr \<Rightarrow> pystr" where
  "quoted s = [CHR 0x22] @ concat (map escape_char s) @ [CHR 0x22]"

fun dumps :: "(rat \<Rightarrow> pystr) \<Rightarrow> json \<Rightarrow> pystr"
  and dumps_list :: "(rat \<Rightarrow> pystr) \<Rightarrow> json list \<Rightarrow> pystr"
  and dumps_items :: "(rat \<Rightarrow> pystr) \<Rightarrow> (pystr \<times> json) list \<Rightarrow> pystr" where
  "dumps f JNull = ''null''"
| "dumps f (JBool b) = (if b then ''true'' else ''false'')"
| "dumps f (JInt i) = dec i"
| "dumps f (JNum r) = f r"
| "dumps f (JStr s) = quoted s"
| "dumps f (JList xs) = ''['' @ dumps_list f xs @ '']''"
| "dumps f (JObj kvs) = ''{'' @ dumps_items f kvs @ ''}''"
| "dumps_list f [] = []"
| "dumps_list f (x # xs) = dumps f x @ (if xs = [] then [] else '','' @ dumps_list f xs)"
| "dumps_items f [] = []"
| "dumps_items f ((k, v) # kvs) = quoted k @ '':'' @ dumps f v @ (if kvs = [] then [] else '','' @ dumps_items f kvs)"

text \<open>\<^verbatim>\<open>sort_keys=True\<close>, at every level.\<close>

fun sort_json :: "json \<Rightarrow> json" where
  "sort_json (JObj kvs) = JObj (sort_key fst (map (\<lambda>(k, v). (k, sort_json v)) kvs))"
| "sort_json (JList xs) = JList (map sort_json xs)"
| "sort_json j = j"

definition canonical_dumps :: "(rat \<Rightarrow> pystr) \<Rightarrow> digests \<Rightarrow> json \<Rightarrow> kernel_error + pystr" where
  "canonical_dumps f h j = and_then (nfc_json h j) (\<lambda>c. Inr (dumps f (sort_json c)))"

section \<open>Texts determine values\<close>

definition unescape :: "pystr \<Rightarrow> nat option \<times> pystr" where
  "unescape s = (if s ! 0 \<noteq> CHR 0x5C then (Some (of_char (s ! 0)), drop 1 s)
     else if s ! 1 = CHR 0x22 then (Some 34, drop 2 s) else if s ! 1 = CHR 0x5C then (Some 92, drop 2 s)
     else if s ! 1 = CHR ''n'' then (Some 10, drop 2 s) else if s ! 1 = CHR ''r'' then (Some 13, drop 2 s)
     else if s ! 1 = CHR ''t'' then (Some 9, drop 2 s) else if s ! 1 = CHR ''b'' then (Some 8, drop 2 s)
     else if s ! 1 = CHR ''f'' then (Some 12, drop 2 s)
     else (Option.bind (hexval (s ! 4)) (\<lambda>a. Option.bind (hexval (s ! 5)) (\<lambda>b. Some (a * 16 + b))), drop 6 s))"

lemma of_char_backslash: "(of_char c :: nat) \<noteq> 92 \<Longrightarrow> c \<noteq> CHR 0x5C"
  by auto

lemma unescape_escape: "unescape (escape_char c @ x) = (Some (of_char c), x)"
proof -
  define n where "n = (of_char c :: nat)"
  have "hexval (hexchar (n div 16)) = Some (n div 16)" "hexval (hexchar (n mod 16)) = Some (n mod 16)" if "n < 32"
    using that by (intro hexchar_props(1); simp)+
  then show ?thesis
    unfolding escape_char_def n_def [symmetric] Let_def
    by (auto simp: unescape_def hex2_def n_def dest: of_char_backslash simp del: hexchar.simps)
qed

text \<open>Escaped characters are self-delimiting and never start with the closing quote.\<close>

lemma escape_split:
  assumes "escape_char c @ x = escape_char d @ y"
  shows "c = d" "x = y"
proof -
  have "(Some (of_char c :: nat), x) = (Some (of_char d), y)"
    using arg_cong [OF assms, of unescape] by (simp only: unescape_escape)
  then show "c = d" "x = y" by simp_all
qed

lemma escape_quote: "escape_char c @ x \<noteq> CHR 0x22 # y"
  by (auto simp: escape_char_def Let_def)

lemma quoted_split:
  assumes "quoted s @ x = quoted t @ y"
  shows "s = t" "x = y"
proof -
  have "s = t \<and> x = y" if "concat (map escape_char s) @ CHR 0x22 # x = concat (map escape_char t) @ CHR 0x22 # y"
    using that
  proof (induction s arbitrary: t)
    case Nil
    then show ?case using escape_quote [symmetric] by (cases t) fastforce+
  next
    case (Cons c s)
    then obtain d t' where t: "t = d # t'" using escape_quote by (cases t) fastforce+
    from Cons.prems have "escape_char c @ concat (map escape_char s) @ CHR 0x22 # x =
        escape_char d @ concat (map escape_char t') @ CHR 0x22 # y"
      unfolding t by simp
    from escape_split [OF this] Cons.IH [of t'] t show ?case by simp
  qed
  then show "s = t" "x = y" using assms by (simp_all add: quoted_def)
qed

fun no_floats :: "json \<Rightarrow> bool" where
  "no_floats (JNum r) = False"
| "no_floats (JList xs) = (\<forall>x \<in> set xs. no_floats x)"
| "no_floats (JObj kvs) = (\<forall>kv \<in> set kvs. no_floats (snd kv))"
| "no_floats j = True"

text \<open>The first character tells the constructor.\<close>

fun first_class :: "json \<Rightarrow> nat" where
  "first_class JNull = 0"
| "first_class (JBool b) = (if b then 1 else 2)"
| "first_class (JStr s) = 3"
| "first_class (JList xs) = 4"
| "first_class (JObj kvs) = 5"
| "first_class j = 6"

definition char_class :: "char \<Rightarrow> nat" where
  "char_class c = (if c = CHR ''n'' then 0 else if c = CHR ''t'' then 1 else if c = CHR ''f'' then 2
     else if c = CHR 0x22 then 3 else if c = CHR ''['' then 4 else if c = CHR ''{'' then 5
     else if ascii_digit c \<or> c = CHR ''-'' then 6 else 7)"

lemma ascii_digit_class: "ascii_digit c \<Longrightarrow> char_class c = 6"
  by (auto simp: char_class_def ascii_digit_def)

lemma dec_class: "char_class (hd (dec i)) = 6"
proof (cases "i < 0")
  case False
  then have "ascii_digit (hd (dec i))"
    using dec_nat_ascii [of "nat i"] dec_nat_nonempty [of "nat i"]
    by (cases "dec_nat (nat i)") (auto simp: dec_def)
  then show ?thesis by (rule ascii_digit_class)
qed (simp add: dec_def char_class_def)

lemma dec_nonempty: "dec i \<noteq> []"
  by (simp add: dec_def dec_nat_nonempty)

lemma dumps_nonempty: "no_floats j \<Longrightarrow> dumps f j \<noteq> []"
  by (cases j) (auto simp: dec_nonempty quoted_def)

lemma char_class_simps [simp]:
  "char_class (CHR ''n'') = 0" "char_class (CHR ''t'') = 1" "char_class (CHR ''f'') = 2" "char_class (CHR 0x22) = 3"
  "char_class (CHR ''['') = 4" "char_class (CHR ''{'') = 5" "char_class (CHR '']'') = 7" "char_class (CHR ''}'') = 7"
  by (simp_all add: char_class_def ascii_digit_def)

lemma dumps_class: "no_floats j \<Longrightarrow> char_class (hd (dumps f j)) = first_class j"
  by (cases j) (auto simp: dec_class quoted_def)

lemma first_class_less: "first_class j < 7"
  by (cases j) auto

lemma dumps_no_bracket:
  assumes "no_floats j"
  shows "dumps f j @ x \<noteq> CHR '']'' # y"
proof
  assume "dumps f j @ x = CHR '']'' # y"
  then have "hd (dumps f j) = CHR '']''" using dumps_nonempty [OF assms] by (metis hd_append2 list.sel(1))
  then show False using dumps_class [OF assms, of f] first_class_less [of j] by simp
qed

lemma dumps_list_nonempty:
  assumes "\<forall>k \<in> set ks. no_floats k" "dumps_list f ks @ CHR '']'' # x = CHR '']'' # y"
  shows "ks = [] \<and> x = y"
  using assms dumps_no_bracket by (cases ks) fastforce+

lemma dumps_same_class:
  assumes "dumps f j @ x = dumps f k @ y" "no_floats j" "no_floats k"
  shows "first_class j = first_class k"
proof -
  have "hd (dumps f j) = hd (dumps f k)"
    using assms dumps_nonempty by (metis hd_append2)
  then show ?thesis using dumps_class assms(2,3) by metis
qed

definition delimited :: "pystr \<Rightarrow> bool" where
  "delimited r \<longleftrightarrow> r = [] \<or> hd r \<in> {CHR '','', CHR '']'', CHR ''}''}"

lemma delimited_digit: "delimited r \<Longrightarrow> r = [] \<or> \<not> ascii_digit (hd r)"
  by (auto simp: delimited_def ascii_digit_def)

lemma delimited_simps [simp]: "delimited (CHR '','' # r)" "delimited (CHR '']'' # r)" "delimited (CHR ''}'' # r)"
  by (simp_all add: delimited_def)

lemma dumps_split:
  "dumps f j @ x = dumps f k @ y \<Longrightarrow> no_floats j \<Longrightarrow> no_floats k \<Longrightarrow> delimited x \<Longrightarrow> delimited y \<Longrightarrow> j = k \<and> x = y"
  "dumps_list f js @ CHR '']'' # x = dumps_list f ks @ CHR '']'' # y \<Longrightarrow> \<forall>j \<in> set js. no_floats j \<Longrightarrow>
    \<forall>k \<in> set ks. no_floats k \<Longrightarrow> js = ks \<and> x = y"
  "dumps_items f kvs @ CHR ''}'' # x = dumps_items f lvs @ CHR ''}'' # y \<Longrightarrow> \<forall>j \<in> set kvs. no_floats (snd j) \<Longrightarrow>
    \<forall>k \<in> set lvs. no_floats (snd k) \<Longrightarrow> kvs = lvs \<and> x = y"
proof (induction f j and f js and f kvs arbitrary: k x y and ks x y and lvs x y
    rule: dumps_dumps_list_dumps_items.induct)
  case (1 f)
  then show ?case using dumps_same_class [OF 1(1)] by (cases k) (auto split: if_splits)
next
  case (2 f b)
  then show ?case using dumps_same_class [OF 2(1)] by (cases k) (auto split: if_splits)
next
  case (3 f i)
  then obtain i' where "k = JInt i'" using dumps_same_class [OF 3(1)] by (cases k) (auto split: if_splits)
  with 3 show ?case using dec_split [of i x i' y] delimited_digit by auto
next
  case (4 f r)
  then show ?case by simp
next
  case (5 f s)
  then obtain s' where "k = JStr s'" using dumps_same_class [OF 5(1)] by (cases k) (auto split: if_splits)
  with 5 show ?case using quoted_split [of s x s' y] by auto
next
  case (6 f xs)
  obtain ys where k: "k = JList ys" using dumps_same_class [OF 6(2-4)] by (cases k) (auto split: if_splits)
  have eq: "dumps_list f xs @ CHR '']'' # x = dumps_list f ys @ CHR '']'' # y" using 6(2) unfolding k by simp
  have "xs = ys \<and> x = y" by (rule 6(1) [OF eq]) (use 6(3,4) k in simp_all)
  then show ?case by (simp add: k)
next
  case (7 f kvs)
  obtain lvs where k: "k = JObj lvs" using dumps_same_class [OF 7(2-4)] by (cases k) (auto split: if_splits)
  have eq: "dumps_items f kvs @ CHR ''}'' # x = dumps_items f lvs @ CHR ''}'' # y" using 7(2) unfolding k by simp
  have "kvs = lvs \<and> x = y" by (rule 7(1) [OF eq]) (use 7(3,4) k in simp_all)
  then show ?case by (simp add: k)
next
  case (8 f)
  then show ?case using dumps_list_nonempty [of ks f y x] by auto
next
  case (9 f j js)
  obtain k ks' where ks: "ks = k # ks'"
    using 9(3,4) dumps_list_nonempty [of "j # js" f x y] by (cases ks) auto
  let ?rest = "\<lambda>js. if js = [] then [] else '','' @ dumps_list f js"
  have eq: "dumps f j @ (?rest js @ CHR '']'' # x) = dumps f k @ (?rest ks' @ CHR '']'' # y)"
    using 9(3) unfolding ks by simp
  have "j = k \<and> ?rest js @ CHR '']'' # x = ?rest ks' @ CHR '']'' # y"
    by (rule 9(1) [OF eq]) (use 9(4,5) ks in auto)
  then show ?case using 9(2) [of x ks' y] 9(4,5) ks by (auto split: if_splits)
next
  case (10 f)
  then show ?case by (cases lvs) (auto simp: quoted_def)
next
  case (11 f k v kvs)
  obtain l w lvs' where lvs: "lvs = (l, w) # lvs'"
    using 11(3) by (cases lvs) (auto simp: quoted_def)
  let ?rest = "\<lambda>kvs. if kvs = [] then [] else '','' @ dumps_items f kvs"
  have eq: "quoted k @ CHR '':'' # dumps f v @ (?rest kvs @ CHR ''}'' # x) =
      quoted l @ CHR '':'' # dumps f w @ (?rest lvs' @ CHR ''}'' # y)"
    using 11(3) unfolding lvs by simp
  from quoted_split [OF eq] have key: "k = l"
    and eq': "dumps f v @ (?rest kvs @ CHR ''}'' # x) = dumps f w @ (?rest lvs' @ CHR ''}'' # y)" by simp_all
  have "v = w \<and> ?rest kvs @ CHR ''}'' # x = ?rest lvs' @ CHR ''}'' # y"
    by (rule 11(1) [OF eq']) (use 11(4,5) lvs in auto)
  then show ?case using 11(2) [of x lvs' y] 11(4,5) lvs key by (auto split: if_splits)
qed

section \<open>Normal forms and canonical texts\<close>

definition normal_form :: "digests \<Rightarrow> json \<Rightarrow> kernel_error + json" where
  "normal_form h j = and_then (nfc_json h j) (\<lambda>c. Inr (sort_json c))"

lemma canonical_dumps_normal: "canonical_dumps f h j = and_then (normal_form h j) (\<lambda>c. Inr (dumps f c))"
  by (simp add: canonical_dumps_def normal_form_def and_then_def split: sum.splits)

lemma nfc_no_floats:
  "nfc_json h j = Inr j' \<Longrightarrow> no_floats j \<Longrightarrow> no_floats j'"
  "nfc_list h js = Inr js' \<Longrightarrow> \<forall>j \<in> set js. no_floats j \<Longrightarrow> \<forall>j \<in> set js'. no_floats j"
  "nfc_items h acc kvs = Inr kvs' \<Longrightarrow> \<forall>kv \<in> set kvs. no_floats (snd kv) \<Longrightarrow> \<forall>kv \<in> set acc. no_floats (snd kv) \<Longrightarrow>
    \<forall>kv \<in> set kvs'. no_floats (snd kv)"
proof (induction h j and h js and h acc kvs arbitrary: j' and js' and kvs'
    rule: nfc_json_nfc_list_nfc_items.induct)
  case (11 h acc k v kvs)
  obtain v' where v': "nfc_json h v = Inr v'" and rest: "nfc_items h (acc @ [(nfc h k, v')]) kvs = Inr kvs'"
    and new: "nfc h k \<notin> fst ` set acc"
    using 11(3) by (auto simp: and_then_Inr split: if_splits)
  have "no_floats v'" using 11(1) [OF new v'] 11(4) by simp
  then show ?case using 11(2) [OF new rest] 11(4,5) by auto
qed (auto simp: and_then_Inr)

lemma sort_no_floats: "no_floats j \<Longrightarrow> no_floats (sort_json j)"
  by (induction j rule: sort_json.induct) auto

lemma canonical_same:
  assumes "canonical_dumps f h a = Inr t" "canonical_dumps f h b = Inr t" "no_floats a" "no_floats b"
  shows "normal_form h a = normal_form h b"
proof -
  obtain a' b' where a: "normal_form h a = Inr a'" "dumps f a' = t" and b: "normal_form h b = Inr b'" "dumps f b' = t"
    using assms(1,2) by (auto simp: canonical_dumps_normal and_then_Inr)
  have "no_floats a'" "no_floats b'"
    using a(1) b(1) nfc_no_floats(1) assms(3,4) sort_no_floats by (fastforce simp: normal_form_def and_then_Inr)+
  moreover have "dumps f a' @ [] = dumps f b' @ []" using a(2) b(2) by simp
  ultimately have "a' = b'" using dumps_split(1) [of f a' "[]" b' "[]"] by (simp add: delimited_def)
  with a b show ?thesis by simp
qed


definition plain_digests :: digests where
  "plain_digests = \<lparr>nfc = (\<lambda>s. s), sha256_hex = (\<lambda>s. s)\<rparr>"


text \<open>The order of insertion does not matter.\<close>

lemma nfc_error: 
  "nfc_json h j = Inl e \<Longrightarrow> e = ValueError ''NFC key collision''"
  "nfc_list h js = Inl e \<Longrightarrow> e = ValueError ''NFC key collision''"
  "nfc_items h acc kvs = Inl e \<Longrightarrow> e = ValueError ''NFC key collision''"
  by (induction h j and h js and h acc kvs rule: nfc_json_nfc_list_nfc_items.induct)
    (auto simp: and_then_def split: sum.splits if_splits)

definition nfc_item :: "digests \<Rightarrow> pystr \<times> json \<Rightarrow> pystr \<times> json" where
  "nfc_item h kv = (nfc h (fst kv), projr (nfc_json h (snd kv)))"

lemma nfc_items_map:
  "distinct (map (nfc h \<circ> fst) kvs) \<Longrightarrow> fst ` set acc \<inter> (nfc h \<circ> fst) ` set kvs = {} \<Longrightarrow>
   nfc_items h acc kvs = (if \<forall>kv \<in> set kvs. ok (nfc_json h (snd kv)) then Inr (acc @ map (nfc_item h) kvs)
     else Inl (ValueError ''NFC key collision''))"
proof (induction kvs arbitrary: acc)
  case (Cons kv kvs)
  obtain k v where kv: "kv = (k, v)" by (cases kv)
  have new: "nfc h k \<notin> fst ` set acc" using Cons.prems(2) kv by auto
  show ?case
  proof (cases "nfc_json h v")
    case (Inl e)
    then show ?thesis using new nfc_error(1) [OF Inl] by (simp add: kv)
  next
    case (Inr v')
    have "fst ` set (acc @ [(nfc h k, v')]) \<inter> (nfc h \<circ> fst) ` set kvs = {}"
      using Cons.prems kv by auto
    then have "nfc_items h (acc @ [(nfc h k, v')]) kvs =
      (if \<forall>kv \<in> set kvs. ok (nfc_json h (snd kv)) then Inr ((acc @ [(nfc h k, v')]) @ map (nfc_item h) kvs)
       else Inl (ValueError ''NFC key collision''))"
      using Cons.prems(1) by (intro Cons.IH) simp_all
    then show ?thesis using new Inr by (auto simp: kv nfc_item_def)
  qed
qed simp

lemma sort_key_same:
  assumes "mset xs = mset ys" "distinct (map f xs)"
  shows "sort_key f xs = sort_key f ys"
proof -
  have sets: "set xs = set ys" and d: "distinct (map f ys)"
    using mset_eq_setD [OF assms(1)] mset_eq_imp_distinct_iff [of "map f xs" "map f ys"] assms by simp_all
  have inj: "inj_on f (set xs)" using assms(2) by (simp add: distinct_map)
  have "map f (sort_key f xs) = map f (sort_key f ys)"
    by (rule sorted_distinct_set_unique) (use assms(2) d sets in \<open>simp_all add: distinct_map\<close>)
  then show ?thesis by (rule map_inj_on) (use inj sets in simp)
qed

text \<open>The canonical text of an object does not depend on the order in which its members were inserted.\<close>

theorem canonical_dumps_order:
  assumes "mset kvs = mset lvs" "distinct (map (nfc h \<circ> fst) kvs)"
  shows "canonical_dumps f h (JObj kvs) = canonical_dumps f h (JObj lvs)"
proof -
  have sets: "set kvs = set lvs" and d: "distinct (map (nfc h \<circ> fst) lvs)"
    using mset_eq_setD [OF assms(1)] mset_eq_imp_distinct_iff [of "map (nfc h \<circ> fst) kvs" "map (nfc h \<circ> fst) lvs"] assms
    by simp_all
  let ?it = "\<lambda>(k, v). (k, sort_json v)"
  have "sort_key fst (map ?it (map (nfc_item h) kvs)) = sort_key fst (map ?it (map (nfc_item h) lvs))"
  proof (rule sort_key_same)
    show "mset (map ?it (map (nfc_item h) kvs)) = mset (map ?it (map (nfc_item h) lvs))"
      using assms(1) by simp
    have "map fst (map ?it (map (nfc_item h) kvs)) = map (nfc h \<circ> fst) kvs"
      by (simp add: nfc_item_def case_prod_unfold)
    then show "distinct (map fst (map ?it (map (nfc_item h) kvs)))" using assms(2) by (simp only:)
  qed
  then show ?thesis
    using nfc_items_map [OF assms(2), of "[]"] nfc_items_map [OF d, of "[]"]
    by (simp add: canonical_dumps_def sets)
qed

lemma canonical_dumps_order_witness:
  "canonical_dumps f plain_digests (JObj [(''b'', JNull), (''a'', JInt 7)]) =
   canonical_dumps f plain_digests (JObj [(''a'', JInt 7), (''b'', JNull)])"
  by (rule canonical_dumps_order) (simp_all add: plain_digests_def)

end
