(* ===== verification/Audit_Row.thy ===== *)
theory Audit_Row
  imports Canonical_Json
begin

text \<open>
  \<^verbatim>\<open>apex/audit_writer.py\<close>: the schema of an audit row, as a check over a JSON object (an association list
  with distinct keys) that returns the cleaned row or the first violation in the order of the code.
\<close>

section \<open>Errors\<close>

datatype audit_error = RowInvalid pystr | Unhashable | NotCanonical | DbUsage | DbWrite | DbIntegrity | DbError

type_synonym row = "(pystr \<times> json) list"

section \<open>Formats\<close>

definition lower_hex :: "char \<Rightarrow> bool" where
  "lower_hex c \<longleftrightarrow> (let n = (of_char c :: nat) in (48 \<le> n \<and> n \<le> 57) \<or> (97 \<le> n \<and> n \<le> 102))"

definition is_sha256_hex :: "pystr \<Rightarrow> bool" where
  "is_sha256_hex s \<longleftrightarrow> length s = 64 \<and> list_all lower_hex s"

text \<open>\<^verbatim>\<open>re.match(r"^[0-9a-f]{64}$")\<close>: \<open>$\<close> also matches before a final newline.\<close>

definition matches_sha256_hex :: "pystr \<Rightarrow> bool" where
  "matches_sha256_hex s \<longleftrightarrow> is_sha256_hex s \<or> (\<exists>t \<in> {take 64 s}. is_sha256_hex t \<and> s = t @ [CHR 0x0A])"

definition validate_sha256_hex :: "json \<Rightarrow> pystr \<Rightarrow> audit_error + unit" where
  "validate_sha256_hex v field = (case v of
     JStr s \<Rightarrow> if matches_sha256_hex s then Inr () else Inl (RowInvalid field)
   | _ \<Rightarrow> Inl (RowInvalid field))"

definition num2 :: "pystr \<Rightarrow> nat" where
  "num2 s = nat (int_of_digits s)"

definition leap_year :: "nat \<Rightarrow> bool" where
  "leap_year y \<longleftrightarrow> 4 dvd y \<and> (\<not> 100 dvd y \<or> 400 dvd y)"

definition days_in_month :: "nat \<Rightarrow> nat \<Rightarrow> nat" where
  "days_in_month y m = (if m = 2 then (if leap_year y then 29 else 28) else if m \<in> {4, 6, 9, 11} then 30 else 31)"

text \<open>
  \<^verbatim>\<open>datetime.strptime(s, "%Y-%m-%dT%H:%M:%SZ")\<close> on a text of 20 characters, where every field has its full
  width. Its pattern ignores case and lets a day be a blank and a digit; a second of 60 or 61 matches but is
  rejected by \<^verbatim>\<open>datetime\<close>, as are day 30 of February and year 0.
\<close>

definition strptime_20 :: "pystr \<Rightarrow> bool" where
  "strptime_20 s \<longleftrightarrow> (let f = (\<lambda>a n. take n (drop a s));
       day = (if s ! 8 = CHR '' '' then [s ! 9] else f 8 2);
       y = num2 (f 0 4); m = num2 (f 5 2); d = num2 day
     in list_all ascii_digit (f 0 4 @ f 5 2 @ day @ f 11 2 @ f 14 2 @ f 17 2) \<and>
        s ! 4 = CHR ''-'' \<and> s ! 7 = CHR ''-'' \<and> s ! 10 \<in> {CHR ''T'', CHR ''t''} \<and>
        s ! 13 = CHR '':'' \<and> s ! 16 = CHR '':'' \<and> s ! 19 \<in> {CHR ''Z'', CHR ''z''} \<and>
        1 \<le> y \<and> 1 \<le> m \<and> m \<le> 12 \<and> 1 \<le> d \<and> d \<le> days_in_month y m \<and>
        num2 (f 11 2) \<le> 23 \<and> num2 (f 14 2) \<le> 59 \<and> num2 (f 17 2) \<le> 59)"

section \<open>The schema\<close>

definition REQUIRED_FIELDS :: "pystr list" where
  "REQUIRED_FIELDS = [''claim_id'', ''envelope_message_id'', ''outcome'', ''package_id'', ''session_id'', ''signer_id'',
     ''signer_manifest_digest'', ''source'', ''ts'']"

definition OPTIONAL_FIELDS :: "pystr list" where
  "OPTIONAL_FIELDS = [''aphelion_hash'', ''local_hash'', ''reason_code'']"

definition OUTCOME_VALUES :: "pystr list" where
  "OUTCOME_VALUES = [''hit'', ''miss'', ''divergence'', ''error'']"

definition SOURCE_VALUES :: "pystr list" where
  "SOURCE_VALUES = [''aphelion'', ''parallax'']"

definition REASON_CODE_PREFIXES :: "pystr list" where
  "REASON_CODE_PREFIXES = [''pkg.'', ''signer.'', ''cache.'', ''network.'', ''disk.'', ''claim.'']"

definition check :: "bool \<Rightarrow> pystr \<Rightarrow> audit_error + unit" where
  "check b field = (if b then Inr () else Inl (RowInvalid field))"

text \<open>\<^verbatim>\<open>first (x : xs) \<close> runs the checks in order.\<close>

fun checks :: "(audit_error + unit) list \<Rightarrow> audit_error + unit" where
  "checks [] = Inr ()"
| "checks (r # rs) = and_then r (\<lambda>_. checks rs)"

definition validate_required :: "row \<Rightarrow> audit_error + unit" where
  "validate_required row = checks (map (\<lambda>name. check (map_of row name \<noteq> None) name) REQUIRED_FIELDS)"

definition validate_enum :: "pystr \<Rightarrow> pystr list \<Rightarrow> row \<Rightarrow> audit_error + unit" where
  "validate_enum field vals row = (case map_of row field of
     Some (JStr s) \<Rightarrow> check (s \<in> set vals) field
   | Some (JList _) \<Rightarrow> Inl Unhashable
   | Some (JObj _) \<Rightarrow> Inl Unhashable
   | _ \<Rightarrow> Inl (RowInvalid field))"

definition validate_outcome :: "row \<Rightarrow> audit_error + unit" where
  "validate_outcome = validate_enum ''outcome'' OUTCOME_VALUES"

definition validate_source :: "row \<Rightarrow> audit_error + unit" where
  "validate_source = validate_enum ''source'' SOURCE_VALUES"

definition validate_reason_code :: "row \<Rightarrow> audit_error + unit" where
  "validate_reason_code row = (case map_of row ''reason_code'' of
     None \<Rightarrow> Inr ()
   | Some (JStr rc) \<Rightarrow> check (list_ex (startswith rc) REASON_CODE_PREFIXES) ''reason_code''
   | Some _ \<Rightarrow> Inl (RowInvalid ''reason_code''))"

text \<open>\<^verbatim>\<open>row.get(field, "")\<close> with a check of a non-empty text.\<close>

definition validate_text :: "(pystr \<Rightarrow> audit_error + unit) \<Rightarrow> pystr \<Rightarrow> row \<Rightarrow> audit_error + unit" where
  "validate_text f field row = (case map_of row field of
     None \<Rightarrow> Inr ()
   | Some (JStr s) \<Rightarrow> if s = [] then Inr () else f s
   | Some _ \<Rightarrow> Inl (RowInvalid field))"

definition validate_uuid :: "nat \<Rightarrow> pystr \<Rightarrow> row \<Rightarrow> audit_error + unit" where
  "validate_uuid v field = validate_text
     (\<lambda>s. case parse_uuid s of None \<Rightarrow> Inl (RowInvalid field) | Some n \<Rightarrow> check (uuid_version n = Some v) field) field"

definition valid_ts :: "pystr \<Rightarrow> bool" where
  "valid_ts s \<longleftrightarrow> length s = 20 \<and> last s = CHR ''Z'' \<and> strptime_20 s"

definition validate_field_formats :: "row \<Rightarrow> audit_error + unit" where
  "validate_field_formats row = checks
     [validate_text (\<lambda>_. Inr ()) ''session_id'' row,
      validate_text (\<lambda>_. Inr ()) ''signer_id'' row,
      validate_uuid 7 ''claim_id'' row,
      validate_uuid 7 ''package_id'' row,
      validate_uuid 4 ''envelope_message_id'' row,
      validate_text (\<lambda>s. check (valid_ts s) ''ts'') ''ts'' row,
      validate_text (\<lambda>s. validate_sha256_hex (JStr s) ''signer_manifest_digest'') ''signer_manifest_digest'' row]"

definition validate_divergence_hashes :: "row \<Rightarrow> audit_error + unit" where
  "validate_divergence_hashes row = checks (map
     (\<lambda>field. case map_of row field of None \<Rightarrow> Inr () | Some v \<Rightarrow> validate_sha256_hex v field) [''aphelion_hash'', ''local_hash''])"

definition validate_optional_pairing :: "row \<Rightarrow> audit_error + unit" where
  "validate_optional_pairing row =
    (let present = (\<lambda>k. map_of row k \<noteq> None);
         outcome_in = (\<lambda>vs. \<exists>v \<in> set vs. map_of row ''outcome'' = Some (JStr v))
     in checks
       [check (\<not> ((present ''aphelion_hash'' \<or> present ''local_hash'') \<and> \<not> outcome_in [''divergence''])) ''aphelion_hash/local_hash'',
        check (\<not> (outcome_in [''divergence''] \<and> \<not> (present ''aphelion_hash'' \<and> present ''local_hash''))) ''divergence'',
        check (\<not> (present ''reason_code'' \<and> \<not> outcome_in [''error'', ''divergence''])) ''reason_code'',
        check (\<not> (outcome_in [''error'', ''divergence''] \<and> \<not> present ''reason_code'')) ''outcome''])"

definition validate_nonempty :: "row \<Rightarrow> audit_error + unit" where
  "validate_nonempty row = checks (map
     (\<lambda>name. check (\<not> (map_of row name = Some (JStr []) \<and> name \<notin> {''signer_id'', ''signer_manifest_digest''})) name) REQUIRED_FIELDS)"

definition canonicalize_row :: "row \<Rightarrow> audit_error + row" where
  "canonicalize_row row =
    (if list_ex (\<lambda>(k, _). k \<notin> set REQUIRED_FIELDS \<union> set OPTIONAL_FIELDS) row then Inl (RowInvalid ''unknown field'')
     else let cleaned = filter (\<lambda>(_, v). v \<noteq> JNull) row in
       and_then (checks [validate_required cleaned, validate_outcome cleaned, validate_source cleaned,
           validate_reason_code cleaned, validate_field_formats cleaned, validate_optional_pairing cleaned,
           validate_divergence_hashes cleaned, validate_nonempty cleaned])
         (\<lambda>_. Inr cleaned))"

definition row_sha256_hex :: "digests \<Rightarrow> row \<Rightarrow> kernel_error + pystr" where
  "row_sha256_hex h row = and_then (canonical_dumps (\<lambda>_. []) h (JObj row)) (\<lambda>t. Inr (sha256_hex h t))"

definition assert_audit_row_committed :: "bool \<Rightarrow> kernel_error + unit" where
  "assert_audit_row_committed committed =
    (if committed then Inr () else Inl (RuntimeError ''envelope emit attempted before audit row commit''))"

section \<open>What is accepted\<close>

lemma check_Inr [simp]: "check b f = Inr () \<longleftrightarrow> b"
  by (simp add: check_def)

lemma checks_Inr [simp]: "checks rs = Inr () \<longleftrightarrow> (\<forall>r \<in> set rs. r = Inr ())"
  by (induction rs) (auto simp: and_then_Inr)

abbreviation text_of :: "row \<Rightarrow> pystr \<Rightarrow> pystr \<Rightarrow> bool" where
  "text_of row k s \<equiv> map_of row k = Some (JStr s)"

definition uuid_text :: "nat \<Rightarrow> pystr \<Rightarrow> bool" where
  "uuid_text v s \<longleftrightarrow> (\<exists>n. parse_uuid s = Some n \<and> uuid_version n = Some v)"

definition known_keys :: "row \<Rightarrow> bool" where
  "known_keys row \<longleftrightarrow> fst ` set row \<subseteq> set REQUIRED_FIELDS \<union> set OPTIONAL_FIELDS"

text \<open>The schema in one formula.\<close>

definition audit_row_spec :: "row \<Rightarrow> bool" where
  "audit_row_spec row \<longleftrightarrow>
    known_keys row \<and>
    (\<exists>claim emid outcome pkg session signer digest src ts.
       text_of row ''claim_id'' claim \<and> uuid_text 7 claim \<and> text_of row ''envelope_message_id'' emid \<and> uuid_text 4 emid \<and>
       text_of row ''outcome'' outcome \<and> outcome \<in> set OUTCOME_VALUES \<and> text_of row ''package_id'' pkg \<and> uuid_text 7 pkg \<and>
       text_of row ''session_id'' session \<and> session \<noteq> [] \<and> text_of row ''signer_id'' signer \<and>
       text_of row ''signer_manifest_digest'' digest \<and> (digest = [] \<or> matches_sha256_hex digest) \<and>
       text_of row ''source'' src \<and> src \<in> set SOURCE_VALUES \<and> text_of row ''ts'' ts \<and> valid_ts ts \<and>
       (case map_of row ''reason_code'' of
          None \<Rightarrow> outcome \<notin> {''error'', ''divergence''}
        | Some v \<Rightarrow> outcome \<in> {''error'', ''divergence''} \<and>
            (\<exists>rc. v = JStr rc \<and> (\<exists>p \<in> set REASON_CODE_PREFIXES. startswith rc p))) \<and>
       (\<forall>k \<in> {''aphelion_hash'', ''local_hash''}. case map_of row k of
          None \<Rightarrow> outcome \<noteq> ''divergence''
        | Some v \<Rightarrow> outcome = ''divergence'' \<and> (\<exists>s. v = JStr s \<and> matches_sha256_hex s)))"

lemma parse_uuid_nonempty: "parse_uuid s = Some n \<Longrightarrow> s \<noteq> []"
  by (auto simp: parse_uuid_def strip_braces_def)

lemma enum_Inr: "validate_enum k vals row = Inr () \<longleftrightarrow> (\<exists>s. text_of row k s \<and> s \<in> set vals)"
  by (auto simp: validate_enum_def split: option.splits json.splits)

lemma text_Inr: "validate_text f k row = Inr () \<longleftrightarrow> map_of row k = None \<or> (\<exists>s. text_of row k s \<and> (s = [] \<or> f s = Inr ()))"
  by (auto simp: validate_text_def split: option.splits json.splits if_splits)

lemma uuid_Inr: "validate_uuid v k row = Inr () \<longleftrightarrow> map_of row k = None \<or> (\<exists>s. text_of row k s \<and> (s = [] \<or> uuid_text v s))"
  unfolding validate_uuid_def text_Inr by (auto simp: uuid_text_def split: option.splits)

lemma sha_Inr: "validate_sha256_hex v f = Inr () \<longleftrightarrow> (\<exists>s. v = JStr s \<and> matches_sha256_hex s)"
  by (auto simp: validate_sha256_hex_def split: json.splits)

lemma reason_Inr: "validate_reason_code row = Inr () \<longleftrightarrow> (case map_of row ''reason_code'' of None \<Rightarrow> True
    | Some v \<Rightarrow> \<exists>rc. v = JStr rc \<and> (\<exists>p \<in> set REASON_CODE_PREFIXES. startswith rc p))"
  by (auto simp: validate_reason_code_def list_ex_iff split: option.splits json.splits)

lemma required_Inr: "validate_required row = Inr () \<longleftrightarrow> (\<forall>k \<in> set REQUIRED_FIELDS. map_of row k \<noteq> None)"
  by (simp add: validate_required_def)

lemma nonempty_Inr: "validate_nonempty row = Inr () \<longleftrightarrow>
    (\<forall>k \<in> {''claim_id'', ''envelope_message_id'', ''outcome'', ''package_id'', ''session_id'', ''source'', ''ts''}.
      \<not> text_of row k [])"
  unfolding validate_nonempty_def checks_Inr REQUIRED_FIELDS_def by simp

lemma formats_Inr: "validate_field_formats row = Inr () \<longleftrightarrow>
    (\<forall>k \<in> {''session_id'', ''signer_id''}. map_of row k = None \<or> (\<exists>s. text_of row k s)) \<and>
    (\<forall>(k, v) \<in> {(''claim_id'', 7), (''package_id'', 7), (''envelope_message_id'', 4)}.
      map_of row k = None \<or> (\<exists>s. text_of row k s \<and> (s = [] \<or> uuid_text v s))) \<and>
    (map_of row ''ts'' = None \<or> (\<exists>s. text_of row ''ts'' s \<and> (s = [] \<or> valid_ts s))) \<and>
    (map_of row ''signer_manifest_digest'' = None \<or>
      (\<exists>s. text_of row ''signer_manifest_digest'' s \<and> (s = [] \<or> matches_sha256_hex s)))"
  unfolding validate_field_formats_def checks_Inr by (auto simp: text_Inr uuid_Inr sha_Inr)

lemmas validate_Inr = required_Inr enum_Inr reason_Inr formats_Inr nonempty_Inr

text \<open>The row the checks accept satisfies the formula, and the other way round.\<close>

definition accepted :: "row \<Rightarrow> bool" where
  "accepted row \<longleftrightarrow> checks [validate_required row, validate_outcome row, validate_source row,
     validate_reason_code row, validate_field_formats row, validate_optional_pairing row,
     validate_divergence_hashes row, validate_nonempty row] = Inr ()"

lemma accepted_parts: "accepted row \<longleftrightarrow>
    validate_required row = Inr () \<and> validate_outcome row = Inr () \<and> validate_source row = Inr () \<and>
    validate_reason_code row = Inr () \<and> validate_field_formats row = Inr () \<and> validate_optional_pairing row = Inr () \<and>
    validate_divergence_hashes row = Inr () \<and> validate_nonempty row = Inr ()"
  unfolding accepted_def checks_Inr by simp

lemma pairing_Inr:
  assumes "text_of row ''outcome'' outcome"
  shows "validate_optional_pairing row = Inr () \<longleftrightarrow>
    (outcome = ''divergence'' \<longrightarrow> map_of row ''aphelion_hash'' \<noteq> None \<and> map_of row ''local_hash'' \<noteq> None) \<and>
    (outcome \<noteq> ''divergence'' \<longrightarrow> map_of row ''aphelion_hash'' = None \<and> map_of row ''local_hash'' = None) \<and>
    (map_of row ''reason_code'' \<noteq> None \<longleftrightarrow> outcome \<in> {''error'', ''divergence''})"
  unfolding validate_optional_pairing_def Let_def checks_Inr using assms by auto

lemma divergence_Inr: "validate_divergence_hashes row = Inr () \<longleftrightarrow>
    (\<forall>k \<in> {''aphelion_hash'', ''local_hash''}. case map_of row k of None \<Rightarrow> True | Some v \<Rightarrow> \<exists>s. v = JStr s \<and> matches_sha256_hex s)"
  unfolding validate_divergence_hashes_def checks_Inr by (auto simp: sha_Inr split: option.splits)

lemma uuid_text_nonempty: "uuid_text v s \<Longrightarrow> s \<noteq> []"
  using parse_uuid_nonempty by (auto simp: uuid_text_def)

lemma valid_ts_nonempty: "valid_ts s \<Longrightarrow> s \<noteq> []"
  by (auto simp: valid_ts_def)

lemma accepted_spec:
  assumes "accepted row" "known_keys row"
  shows "audit_row_spec row"
proof -
  note v = assms(1) [unfolded accepted_parts]
  have req: "map_of row k \<noteq> None" if "k \<in> set REQUIRED_FIELDS" for k
    using v that by (simp add: required_Inr)
  have ne: "\<not> text_of row k []" if "k \<in> set REQUIRED_FIELDS" "k \<noteq> ''signer_id''" "k \<noteq> ''signer_manifest_digest''" for k
    using v that by (auto simp: nonempty_Inr REQUIRED_FIELDS_def)
  have f: "k \<in> {''session_id'', ''signer_id''} \<Longrightarrow> \<exists>s. text_of row k s"
    "(k, n) \<in> {(''claim_id'', 7), (''package_id'', 7), (''envelope_message_id'', 4)} \<Longrightarrow>
      \<exists>s. text_of row k s \<and> (s = [] \<or> uuid_text n s)" for k n
    using v req [of k] by (fastforce simp: formats_Inr REQUIRED_FIELDS_def)+
  obtain claim pkg emid where ids: "text_of row ''claim_id'' claim" "uuid_text 7 claim" "text_of row ''package_id'' pkg"
    "uuid_text 7 pkg" "text_of row ''envelope_message_id'' emid" "uuid_text 4 emid"
    using f(2) [of "''claim_id''" 7] f(2) [of "''package_id''" 7] f(2) [of "''envelope_message_id''" 4]
      ne [of "''claim_id''"] ne [of "''package_id''"] ne [of "''envelope_message_id''"]
    by (auto simp: REQUIRED_FIELDS_def)
  obtain session signer where s: "text_of row ''session_id'' session" "session \<noteq> []" "text_of row ''signer_id'' signer"
    using f(1) [of "''session_id''"] f(1) [of "''signer_id''"] ne [of "''session_id''"] by (auto simp: REQUIRED_FIELDS_def)
  obtain ts digest where t: "text_of row ''ts'' ts" "valid_ts ts" "text_of row ''signer_manifest_digest'' digest"
    "digest = [] \<or> matches_sha256_hex digest"
    using v req [of "''ts''"] ne [of "''ts''"] req [of "''signer_manifest_digest''"]
    by (auto simp: formats_Inr REQUIRED_FIELDS_def)
  obtain outcome src where o: "text_of row ''outcome'' outcome" "outcome \<in> set OUTCOME_VALUES"
    "text_of row ''source'' src" "src \<in> set SOURCE_VALUES"
    using v by (auto simp: validate_outcome_def validate_source_def enum_Inr)
  have pair: "(outcome = ''divergence'' \<longrightarrow> map_of row ''aphelion_hash'' \<noteq> None \<and> map_of row ''local_hash'' \<noteq> None)"
    "(outcome \<noteq> ''divergence'' \<longrightarrow> map_of row ''aphelion_hash'' = None \<and> map_of row ''local_hash'' = None)"
    "(map_of row ''reason_code'' \<noteq> None \<longleftrightarrow> outcome \<in> {''error'', ''divergence''})"
    using v pairing_Inr [OF o(1)] by blast+
  have rc: "case map_of row ''reason_code'' of None \<Rightarrow> outcome \<notin> {''error'', ''divergence''}
    | Some v \<Rightarrow> outcome \<in> {''error'', ''divergence''} \<and> (\<exists>rc. v = JStr rc \<and> (\<exists>p \<in> set REASON_CODE_PREFIXES. startswith rc p))"
    using v pair(3) by (auto simp: reason_Inr split: option.splits)
  have dh: "\<forall>k \<in> {''aphelion_hash'', ''local_hash''}. case map_of row k of None \<Rightarrow> outcome \<noteq> ''divergence''
    | Some v \<Rightarrow> outcome = ''divergence'' \<and> (\<exists>s. v = JStr s \<and> matches_sha256_hex s)"
    using v pair(1,2) by (auto simp: divergence_Inr split: option.splits)
  show ?thesis
    unfolding audit_row_spec_def
    by (rule conjI [OF assms(2)], rule exI [of _ claim], rule exI [of _ emid], rule exI [of _ outcome], rule exI [of _ pkg],
      rule exI [of _ session], rule exI [of _ signer], rule exI [of _ digest], rule exI [of _ src], rule exI [of _ ts])
      (intro conjI ids s t o rc dh)
qed

lemma spec_accepted:
  assumes "audit_row_spec row"
  shows "accepted row"
proof -
  obtain claim emid outcome pkg session signer digest src ts where
    ids: "text_of row ''claim_id'' claim" "uuid_text 7 claim" "text_of row ''package_id'' pkg"
    "uuid_text 7 pkg" "text_of row ''envelope_message_id'' emid" "uuid_text 4 emid"
    and s: "text_of row ''session_id'' session" "session \<noteq> []" "text_of row ''signer_id'' signer"
    and t: "text_of row ''ts'' ts" "valid_ts ts" "text_of row ''signer_manifest_digest'' digest"
    "digest = [] \<or> matches_sha256_hex digest"
    and o: "text_of row ''outcome'' outcome" "outcome \<in> set OUTCOME_VALUES"
    "text_of row ''source'' src" "src \<in> set SOURCE_VALUES"
    and rc: "case map_of row ''reason_code'' of None \<Rightarrow> outcome \<notin> {''error'', ''divergence''}
    | Some v \<Rightarrow> outcome \<in> {''error'', ''divergence''} \<and> (\<exists>rc. v = JStr rc \<and> (\<exists>p \<in> set REASON_CODE_PREFIXES. startswith rc p))"
    and dh: "\<forall>k \<in> {''aphelion_hash'', ''local_hash''}. case map_of row k of None \<Rightarrow> outcome \<noteq> ''divergence''
    | Some v \<Rightarrow> outcome = ''divergence'' \<and> (\<exists>s. v = JStr s \<and> matches_sha256_hex s)"
    using assms unfolding audit_row_spec_def by (elim conjE exE) (rule that)
  have "validate_required row = Inr ()"
    unfolding required_Inr REQUIRED_FIELDS_def by (simp add: ids(1,3,5) s(1,3) t(1,3) o(1,3))
  moreover have "validate_outcome row = Inr ()" "validate_source row = Inr ()"
    using o by (simp_all add: validate_outcome_def validate_source_def enum_Inr)
  moreover have "validate_reason_code row = Inr ()" using rc by (auto simp: reason_Inr split: option.splits)
  moreover have "validate_field_formats row = Inr ()" using ids s t by (simp add: formats_Inr)
  moreover have "validate_optional_pairing row = Inr ()"
    using rc dh by (subst pairing_Inr [OF o(1)]) (auto split: option.splits)
  moreover have "validate_divergence_hashes row = Inr ()" using dh by (auto simp: divergence_Inr split: option.splits)
  moreover have "validate_nonempty row = Inr ()"
  proof -
    have "outcome \<noteq> []" "src \<noteq> []" using o(2,4) by (auto simp: OUTCOME_VALUES_def SOURCE_VALUES_def)
    then show ?thesis
      unfolding nonempty_Inr REQUIRED_FIELDS_def
      by (simp add: ids(1,3,5) s(1,2) t(1) o(1,3) uuid_text_nonempty [OF ids(2)] uuid_text_nonempty [OF ids(4)]
        uuid_text_nonempty [OF ids(6)] valid_ts_nonempty [OF t(2)])
  qed
  ultimately show ?thesis by (simp add: accepted_parts)
qed

definition cleaned :: "row \<Rightarrow> row" where
  "cleaned row = filter (\<lambda>(_, v). v \<noteq> JNull) row"

lemma list_ex_known: "list_ex (\<lambda>(k, _). k \<notin> set REQUIRED_FIELDS \<union> set OPTIONAL_FIELDS) row \<longleftrightarrow> \<not> known_keys row"
  by (force simp: list_ex_iff known_keys_def)

lemma canonicalize_accepted:
  "canonicalize_row row = Inr c \<longleftrightarrow> known_keys row \<and> c = cleaned row \<and> accepted (cleaned row)"
  unfolding canonicalize_row_def list_ex_known accepted_def cleaned_def [symmetric] Let_def and_then_Inr
  by (auto simp: and_then_Inr simp del: checks_Inr checks.simps)

lemma cleaned_keys: "known_keys row \<Longrightarrow> known_keys (cleaned row)"
  by (auto simp: known_keys_def cleaned_def)

lemma canonicalize_spec: "canonicalize_row row = Inr c \<Longrightarrow> audit_row_spec c"
  using accepted_spec cleaned_keys by (auto simp: canonicalize_accepted)

text \<open>The validator accepts exactly the rows of the schema: after dropping null fields every required field is a
  text of its format, the optional ones appear exactly with the outcomes they belong to, and no other key is present
  even with a null value; it returns that row, and accepts its own result unchanged.\<close>

theorem canonicalize_row_spec:
  "(canonicalize_row row = Inr c \<longleftrightarrow>
     known_keys row \<and> c = cleaned row \<and> audit_row_spec c) \<and>
   (canonicalize_row row = Inr c \<longrightarrow> canonicalize_row c = Inr c)"
proof -
  have sub: "known_keys (cleaned row)" if "known_keys row" using that by (rule cleaned_keys)
  have idem: "cleaned (cleaned row) = cleaned row" by (simp add: cleaned_def)
  have iff: "accepted (cleaned row) \<longleftrightarrow> audit_row_spec (cleaned row)" if "known_keys row"
    using accepted_spec [of "cleaned row"] spec_accepted [of "cleaned row"] sub [OF that] by blast
  show ?thesis
  proof (cases "known_keys row \<and> c = cleaned row")
    case True
    with sub iff show ?thesis unfolding canonicalize_accepted by (auto simp: idem)
  qed (auto simp: canonicalize_accepted)
qed

text \<open>A row of the kind the read path writes.\<close>

definition demo_row :: row where
  "demo_row = [(''claim_id'', JStr (uuid_str 0x01890a5dac96774bbcceb302099a8057)),
     (''package_id'', JStr (uuid_str 0x01890a5dac96774bbcceb302099a8058)),
     (''envelope_message_id'', JStr (uuid_str 0x936da01f9abd4d9d80c702af85c822a8)), (''ts'', JStr ''2026-05-09T14:23:11Z''),
     (''outcome'', JStr ''hit''), (''source'', JStr ''aphelion''), (''session_id'', JStr ''u''), (''signer_id'', JStr []),
     (''signer_manifest_digest'', JStr []), (''reason_code'', JNull)]"

lemma demo_versions: "uuid_version 0x01890a5dac96774bbcceb302099a8057 = Some 7" "uuid_version 0x01890a5dac96774bbcceb302099a8058 = Some 7"
  "uuid_version 0x936da01f9abd4d9d80c702af85c822a8 = Some 4"
  by (simp_all add: uuid_version_def)

lemma demo_ts: "valid_ts ''2026-05-09T14:23:11Z''"
  by code_simp

lemma demo_row_spec: "audit_row_spec (cleaned demo_row)"
  unfolding audit_row_spec_def cleaned_def demo_row_def
  by (simp add: known_keys_def REQUIRED_FIELDS_def OUTCOME_VALUES_def SOURCE_VALUES_def uuid_text_def parse_uuid_str demo_versions demo_ts)

lemma canonicalize_row_spec_witness: "canonicalize_row demo_row = Inr (cleaned demo_row) \<and> canonicalize_row (cleaned demo_row) = Inr (cleaned demo_row)"
proof -
  have "known_keys demo_row" by (simp add: known_keys_def demo_row_def REQUIRED_FIELDS_def OPTIONAL_FIELDS_def)
  then show ?thesis using canonicalize_row_spec [of demo_row "cleaned demo_row"] demo_row_spec by blast
qed

end
