(* ===== verification/Audit_Db.thy ===== *)
theory Audit_Db
  imports Audit_Row
begin

text \<open>
  \<^verbatim>\<open>apex/audit_db.py\<close>: the append-only table of audit rows, its constraints, the writer of one row and the
  writer of a batch. What SQLite does at \<^verbatim>\<open>BEGIN\<close>, \<^verbatim>\<open>INSERT\<close> and \<^verbatim>\<open>COMMIT\<close> (locked, disk full) is the argument
  \<open>storage\<close>; a statement of a transaction that is rolled back leaves the table as it was. The schema-version
  gate of \<^verbatim>\<open>open_audit_db\<close> is modelled over the version table.
\<close>

section \<open>The table\<close>

record stored_row =
  st_required :: "(pystr \<times> json) list"
  st_optional :: "(pystr \<times> json) list"

type_synonym audit_table = "stored_row list"

definition stored_emid :: "stored_row \<Rightarrow> json option" where
  "stored_emid r = map_of (st_required r) ''envelope_message_id''"

definition columns_of :: "row \<Rightarrow> stored_row" where
  "columns_of row = \<lparr>st_required = map (\<lambda>c. (c, the (map_of row c))) REQUIRED_FIELDS,
     st_optional = List.map_filter (\<lambda>c. map_option (Pair c) (map_of row c)) OPTIONAL_FIELDS\<rparr>"

text \<open>\<^verbatim>\<open>ts LIKE '____-__-__T__:__:__Z'\<close>; LIKE ignores the case of ASCII letters.\<close>

definition like_ts :: "pystr \<Rightarrow> bool" where
  "like_ts s \<longleftrightarrow> length s = 20 \<and> s ! 4 = CHR ''-'' \<and> s ! 7 = CHR ''-'' \<and> s ! 10 \<in> {CHR ''T'', CHR ''t''} \<and>
     s ! 13 = CHR '':'' \<and> s ! 16 = CHR '':'' \<and> s ! 19 \<in> {CHR ''Z'', CHR ''z''}"

definition column :: "row \<Rightarrow> pystr \<Rightarrow> (pystr \<Rightarrow> bool) \<Rightarrow> bool" where
  "column row c P \<longleftrightarrow> (case map_of row c of Some (JStr s) \<Rightarrow> P s | _ \<Rightarrow> False)"

definition constraints_ok :: "row \<Rightarrow> bool" where
  "constraints_ok row \<longleftrightarrow> column row ''outcome'' (\<lambda>s. s \<in> set OUTCOME_VALUES) \<and>
     column row ''signer_manifest_digest'' (\<lambda>s. length s = 64 \<or> s = []) \<and>
     column row ''source'' (\<lambda>s. s \<in> set SOURCE_VALUES) \<and> column row ''ts'' like_ts"

definition insert_row :: "row \<Rightarrow> audit_table \<Rightarrow> audit_error + audit_table" where
  "insert_row row tab =
    (if \<not> constraints_ok row \<or> list_ex (\<lambda>r. stored_emid r = map_of row ''envelope_message_id'') tab then Inl DbIntegrity
     else Inr (tab @ [columns_of row]))"

section \<open>Writers\<close>

record storage =
  in_transaction :: bool
  begin_ok :: bool
  insert_ok :: "nat \<Rightarrow> bool"
  commit_ok :: bool

definition write_audit_row :: "storage \<Rightarrow> row \<Rightarrow> audit_table \<Rightarrow> (audit_error + unit) \<times> audit_table" where
  "write_audit_row io row tab =
    (if in_transaction io then (Inl DbUsage, tab)
     else case canonicalize_row row of Inl e \<Rightarrow> (Inl e, tab)
     | Inr _ \<Rightarrow>
       if \<not> begin_ok io then (Inl DbWrite, tab)
       else if \<not> insert_ok io 0 then (Inl DbError, tab)
       else case insert_row row tab of Inl e \<Rightarrow> (Inl e, tab)
         | Inr tab' \<Rightarrow> if commit_ok io then (Inr (), tab') else (Inl DbWrite, tab))"

fun insert_rows :: "storage \<Rightarrow> nat \<Rightarrow> row list \<Rightarrow> audit_table \<Rightarrow> audit_error + audit_table" where
  "insert_rows io i [] tab = Inr tab"
| "insert_rows io i (row # rows) tab =
    and_then (canonicalize_row row) (\<lambda>_. if \<not> insert_ok io i then Inl DbError
      else and_then (insert_row row tab) (insert_rows io (Suc i) rows))"

definition write_audit_rows_atomic :: "storage \<Rightarrow> row list \<Rightarrow> audit_table \<Rightarrow> (audit_error + unit) \<times> audit_table" where
  "write_audit_rows_atomic io rows tab =
    (if rows = [] then (Inr (), tab)
     else if in_transaction io then (Inl DbUsage, tab)
     else if \<not> begin_ok io then (Inl DbWrite, tab)
     else case insert_rows io 0 rows tab of Inl e \<Rightarrow> (Inl e, tab)
       | Inr tab' \<Rightarrow> if commit_ok io then (Inr (), tab') else (Inl DbWrite, tab))"

section \<open>The schema version\<close>

definition CURRENT_SCHEMA_VERSION :: int where
  "CURRENT_SCHEMA_VERSION = 1"

definition verify_schema_version :: "int list \<Rightarrow> kernel_error + unit" where
  "verify_schema_version versions =
    (if versions = [] then Inl (RuntimeError ''audit_db_schema_version table is empty after bootstrap'')
     else if foldr max versions (hd versions) \<noteq> CURRENT_SCHEMA_VERSION then Inl (RuntimeError ''schema_version mismatch'')
     else Inr ())"

text \<open>\<open>None\<close>: the version table does not exist yet.\<close>

definition verify_schema_version_if_present :: "int list option \<Rightarrow> kernel_error + unit" where
  "verify_schema_version_if_present t = (case t of None \<Rightarrow> Inr () | Some vs \<Rightarrow> verify_schema_version vs)"

definition apply_schema :: "int list option \<Rightarrow> int list" where
  "apply_schema t = (let vs = (case t of None \<Rightarrow> [] | Some vs \<Rightarrow> vs) in
     if CURRENT_SCHEMA_VERSION \<in> set vs then vs else vs @ [CURRENT_SCHEMA_VERSION])"

text \<open>The gates of \<^verbatim>\<open>open_audit_db\<close> after the connection is open; \<open>checks_pass\<close> is the outcome of the
  quick check and the write probe.\<close>

definition open_gates :: "bool \<Rightarrow> bool \<Rightarrow> int list option \<Rightarrow> (kernel_error + unit) \<times> int list option" where
  "open_gates validate checks_pass t =
    (if validate \<and> \<not> checks_pass then (Inl (RuntimeError ''EX_CONFIG''), t)
     else case verify_schema_version_if_present t of Inl e \<Rightarrow> (Inl e, t)
     | Inr _ \<Rightarrow> (case verify_schema_version (apply_schema t) of Inl e \<Rightarrow> (Inl e, Some (apply_schema t))
         | Inr _ \<Rightarrow> (Inr (), Some (apply_schema t))))"

section \<open>All or nothing\<close>

lemma insert_row_Inr: "insert_row row tab = Inr tab' \<Longrightarrow> tab' = tab @ [columns_of row]"
  by (simp add: insert_row_def split: if_splits)

lemma insert_rows_Inr: "insert_rows io i rows tab = Inr tab' \<Longrightarrow> tab' = tab @ map columns_of rows \<and>
    (\<forall>row \<in> set rows. ok (canonicalize_row row))"
proof (induction rows arbitrary: i tab)
  case (Cons row rows)
  then obtain c tab1 where s: "canonicalize_row row = Inr c" "insert_row row tab = Inr tab1" "insert_rows io (Suc i) rows tab1 = Inr tab'"
    by (auto simp: and_then_Inr split: if_splits)
  from insert_row_Inr [OF s(2)] Cons.IH [OF s(3)] s(1) show ?case by simp
qed simp

text \<open>Primary uniqueness of the message id.\<close>

definition table_ok :: "audit_table \<Rightarrow> bool" where
  "table_ok tab \<longleftrightarrow> distinct (map stored_emid tab) \<and> list_all (\<lambda>r. stored_emid r \<noteq> None) tab"

lemma columns_emid: "map_of row ''envelope_message_id'' = Some v \<Longrightarrow> stored_emid (columns_of row) = Some v"
  by (simp add: stored_emid_def columns_of_def REQUIRED_FIELDS_def)

text \<open>A field of the cleaned row is the field of the row itself.\<close>

lemma cleaned_field: "distinct (map fst row) \<Longrightarrow> map_of (cleaned row) k = Some v \<Longrightarrow> map_of row k = Some v"
proof -
  assume d: "distinct (map fst row)" and "map_of (cleaned row) k = Some v"
  then have "(k, v) \<in> set row" using map_of_SomeD by (fastforce simp: cleaned_def)
  with d show ?thesis by simp
qed

lemma accepted_emid:
  assumes "canonicalize_row row = Inr c" "distinct (map fst row)"
  shows "\<exists>s. map_of row ''envelope_message_id'' = Some (JStr s)"
proof -
  have "audit_row_spec c" "c = cleaned row"
    using assms(1) canonicalize_spec by (auto simp: canonicalize_accepted)
  then obtain s where "text_of (cleaned row) ''envelope_message_id'' s" unfolding audit_row_spec_def by blast
  from cleaned_field [OF assms(2) this] show ?thesis by blast
qed

lemma insert_row_ok:
  assumes "insert_row row tab = Inr tab'" "table_ok tab" "map_of row ''envelope_message_id'' = Some (JStr s)"
  shows "table_ok tab'"
proof -
  have tab': "tab' = tab @ [columns_of row]" using assms(1) by (rule insert_row_Inr)
  have "\<forall>r \<in> set tab. stored_emid r \<noteq> Some (JStr s)"
    using assms(1,3) by (auto simp: insert_row_def list_ex_iff split: if_splits)
  then show ?thesis
    using assms(2) columns_emid [OF assms(3)] by (auto simp: tab' table_ok_def)
qed

lemma insert_rows_ok:
  "insert_rows io i rows tab = Inr tab' \<Longrightarrow> table_ok tab \<Longrightarrow> \<forall>row \<in> set rows. distinct (map fst row) \<Longrightarrow> table_ok tab'"
proof (induction rows arbitrary: i tab)
  case (Cons row rows)
  obtain c tab1 where s: "canonicalize_row row = Inr c" "insert_row row tab = Inr tab1" "insert_rows io (Suc i) rows tab1 = Inr tab'"
    using Cons.prems(1) by (auto simp: and_then_Inr split: if_splits)
  obtain t where "map_of row ''envelope_message_id'' = Some (JStr t)"
    using accepted_emid [OF s(1)] Cons.prems(3) by auto
  from insert_row_ok [OF s(2) Cons.prems(2) this] Cons.IH [OF s(3)] Cons.prems(3) show ?case by simp
qed simp

text \<open>C11: a batch is written completely or not at all: when the call returns, the table has grown by exactly the
  rows of the batch in order, each of which passes the schema check; when it raises, for whatever reason, the table
  is the one before the call; message ids stay unique.\<close>

theorem write_audit_rows_all_or_nothing:
  assumes "write_audit_rows_atomic io rows tab = (res, tab')" "\<forall>row \<in> set rows. distinct (map fst row)" "table_ok tab"
  shows "table_ok tab' \<and> (case res of Inl e \<Rightarrow> tab' = tab
    | Inr _ \<Rightarrow> tab' = tab @ map columns_of rows \<and> (\<forall>row \<in> set rows. ok (canonicalize_row row)))"
proof (cases "insert_rows io 0 rows tab")
  case (Inl e)
  then show ?thesis using assms by (auto simp: write_audit_rows_atomic_def split: if_splits)
next
  case (Inr tab1)
  with insert_rows_Inr [OF Inr] insert_rows_ok [OF Inr assms(3,2)] assms show ?thesis
    by (auto simp: write_audit_rows_atomic_def split: if_splits)
qed

definition good_storage :: storage where
  "good_storage = \<lparr>in_transaction = False, begin_ok = True, insert_ok = (\<lambda>_. True), commit_ok = True\<rparr>"

definition demo_row2 :: row where
  "demo_row2 = map (\<lambda>(k, v). (k, if k = ''envelope_message_id'' then JStr (uuid_str 0x936da01f9abd4d9d80c702af85c822a9) else v)) demo_row"

text \<open>The second row of the batch repeats the message id of the first.\<close>

lemma write_audit_rows_all_or_nothing_witness:
  "\<exists>res. write_audit_rows_atomic good_storage [demo_row, demo_row] [] = (res, []) \<and> \<not> ok res"
proof -
  obtain res tab' where run: "write_audit_rows_atomic good_storage [demo_row, demo_row] [] = (res, tab')"
    by (cases "write_audit_rows_atomic good_storage [demo_row, demo_row] []")
  have d: "distinct (map fst demo_row)" by (simp add: demo_row_def)
  have ok: "table_ok []" by (simp add: table_ok_def)
  have d': "\<forall>row \<in> set [demo_row, demo_row]. distinct (map fst row)" using d by simp
  note all = write_audit_rows_all_or_nothing [OF run d' ok]
  have "\<not> ok res"
  proof
    assume "ok res"
    then have "table_ok [columns_of demo_row, columns_of demo_row]" using all by (cases res) auto
    then show False by (simp add: table_ok_def)
  qed
  moreover have "tab' = []" using all calculation by (cases res) auto
  ultimately show ?thesis using run by blast
qed

section \<open>What passes the check but not the table\<close>

definition newline_digest :: pystr where
  "newline_digest = replicate 64 CHR ''a'' @ [CHR 0x0A]"

lemma newline_digest_matches: "matches_sha256_hex newline_digest" "length newline_digest = 65"
  by (simp_all add: newline_digest_def matches_sha256_hex_def is_sha256_hex_def lower_hex_def list_all_iff)

lemma constraints_digest:
  "constraints_ok row \<Longrightarrow> map_of row ''signer_manifest_digest'' = Some (JStr d) \<Longrightarrow> length d = 64 \<or> d = []"
  by (simp add: constraints_ok_def column_def)

text \<open>The validator accepts a signer digest with a trailing newline, and the write of such a row raises the
  integrity error of the table although no message id is repeated; the hashes of a divergence have no constraint in
  the table, so there the newline is stored.\<close>

theorem newline_digest_not_storable:
  assumes "audit_row_spec row" "cleaned row = row" "map_of row ''signer_manifest_digest'' = Some (JStr newline_digest)"
  shows "canonicalize_row row = Inr row \<and> write_audit_row good_storage row tab = (Inl DbIntegrity, tab)"
proof -
  have k: "known_keys row" using assms(1) by (simp add: audit_row_spec_def)
  have c: "canonicalize_row row = Inr row"
    using spec_accepted [OF assms(1)] assms(2) k by (simp add: canonicalize_accepted)
  have "\<not> constraints_ok row"
    using assms(3) newline_digest_matches(2) constraints_digest [of row newline_digest] by auto
  with c show ?thesis by (simp add: write_audit_row_def good_storage_def insert_row_def)
qed

text \<open>An accepted time stamp need not be ISO 8601: the day may be written with a blank and the T in lower case,
  and the constraint of the table accepts that too.\<close>

theorem ts_not_iso: "valid_ts ''2026-05- 9t14:23:11Z'' \<and> like_ts ''2026-05- 9t14:23:11Z''"
  by (simp add: valid_ts_def like_ts_def strptime_20_def num2_def int_of_digits_def ascii_digit_def days_in_month_def leap_year_def)

lemma valid_ts_like: "valid_ts s \<Longrightarrow> like_ts s"
  by (auto simp: valid_ts_def strptime_20_def like_ts_def Let_def)

text \<open>Every row the validator accepts whose digest has no trailing newline and whose message id is new is
  stored when the storage works: the table's constraints never reject what the validator accepts.\<close>

theorem accepted_row_stored:
  assumes "canonicalize_row row = Inr row" "\<nexists>d. map_of row ''signer_manifest_digest'' = Some (JStr (d @ [CHR 0x0A]))"
    and "\<forall>r \<in> set tab. stored_emid r \<noteq> map_of row ''envelope_message_id''"
  shows "write_audit_row good_storage row tab = (Inr (), tab @ [columns_of row])"
proof -
  have "audit_row_spec row" using assms(1) by (rule canonicalize_spec)
  then obtain oc src ts digest where f: "text_of row ''outcome'' oc" "oc \<in> set OUTCOME_VALUES" "text_of row ''source'' src"
    "src \<in> set SOURCE_VALUES" "text_of row ''ts'' ts" "valid_ts ts" "text_of row ''signer_manifest_digest'' digest"
    "digest = [] \<or> matches_sha256_hex digest"
    unfolding audit_row_spec_def by blast
  have "length digest = 64 \<or> digest = []"
    using f(7,8) assms(2) by (auto simp: matches_sha256_hex_def is_sha256_hex_def)
  then have "constraints_ok row" by (simp add: constraints_ok_def column_def f valid_ts_like [OF f(6)])
  moreover have "\<not> list_ex (\<lambda>r. stored_emid r = map_of row ''envelope_message_id'') tab"
    using assms(3) by (auto simp: list_ex_iff)
  ultimately have "insert_row row tab = Inr (tab @ [columns_of row])" by (simp add: insert_row_def)
  then show ?thesis by (simp add: write_audit_row_def good_storage_def assms(1))
qed

lemma demo_row_canonical: "canonicalize_row (cleaned demo_row) = Inr (cleaned demo_row)"
proof -
  have "audit_row_spec (cleaned demo_row)" by (rule demo_row_spec)
  moreover have "known_keys (cleaned demo_row)"
    using calculation by (simp add: audit_row_spec_def)
  moreover have "cleaned (cleaned demo_row) = cleaned demo_row" by (simp add: cleaned_def)
  ultimately show ?thesis using spec_accepted by (simp add: canonicalize_accepted)
qed

lemma accepted_row_stored_witness:
  "write_audit_row good_storage (cleaned demo_row) [] = (Inr (), [columns_of (cleaned demo_row)])"
  using accepted_row_stored [OF demo_row_canonical, of "[]"] by (simp add: cleaned_def demo_row_def)

lemma newline_digest_not_storable_witness:
  "\<exists>row. canonicalize_row row = Inr row \<and> write_audit_row good_storage row [] = (Inl DbIntegrity, [])"
proof -
  define row where "row = map (\<lambda>(k, v). (k, if k = ''signer_manifest_digest'' then JStr newline_digest else v)) (cleaned demo_row)"
  have "audit_row_spec row"
    unfolding audit_row_spec_def row_def cleaned_def demo_row_def
    by (simp add: known_keys_def REQUIRED_FIELDS_def OUTCOME_VALUES_def SOURCE_VALUES_def uuid_text_def parse_uuid_str demo_versions
      demo_ts newline_digest_matches)
  moreover have "cleaned row = row" "map_of row ''signer_manifest_digest'' = Some (JStr newline_digest)"
    by (simp_all add: row_def cleaned_def demo_row_def)
  ultimately show ?thesis using newline_digest_not_storable [of row "[]"] by blast
qed

end
