(* ===== verification/Envelope.thy ===== *)
theory Envelope
  imports Audit_Row
begin

text \<open>
  \<^verbatim>\<open>apex/envelope.py\<close>: the strict reader of an envelope. Proved: it accepts exactly the envelopes of the
  schema whose checksum is the digest of the payload's canonical text, so with a collision-free digest two accepted
  envelopes with one checksum carry the same payload.
\<close>

definition ENVELOPE_VERSION_LITERAL :: pystr where
  "ENVELOPE_VERSION_LITERAL = ''0.1''"

definition ENVELOPE_FIELDS :: "pystr list" where
  "ENVELOPE_FIELDS = [''envelope_version'', ''schema_version'', ''message_id'', ''created_at'', ''source'', ''audit_db_ref'',
     ''payload_type'', ''payload'', ''checksum'']"

datatype Source = APHELION | PARALLAX

definition source_of :: "json \<Rightarrow> Source option" where
  "source_of j = (if j = JStr ''aphelion'' then Some APHELION else if j = JStr ''parallax'' then Some PARALLAX else None)"

datatype PayloadType = QUERY_RESULT | EVENT

definition payload_type_of :: "json \<Rightarrow> PayloadType option" where
  "payload_type_of j = (if j = JStr ''query_result'' then Some QUERY_RESULT else if j = JStr ''event'' then Some EVENT else None)"

datatype envelope_error = EnvInvalid pystr | EnvChecksum

record Envelope =
  env_schema_version :: int
  env_message_id :: pystr
  env_created_at :: pystr
  env_source :: Source
  env_audit_db_ref :: pystr
  env_payload_type :: PayloadType
  env_payload :: row
  env_checksum :: pystr

text \<open>The digest of the canonical text; \<open>fl\<close> is the text of a float.\<close>

definition compute_checksum :: "(rat \<Rightarrow> pystr) \<Rightarrow> digests \<Rightarrow> row \<Rightarrow> kernel_error + pystr" where
  "compute_checksum fl h payload = and_then (canonical_dumps fl h (JObj payload)) (\<lambda>t. Inr (sha256_hex h t))"

text \<open>\<^verbatim>\<open>\d{4}-\d{2}-\d{2}T\d{2}:\d{2}:\d{2}Z\<close>, the whole text.\<close>

definition iso_8601_utc_z :: "pystr \<Rightarrow> bool" where
  "iso_8601_utc_z s \<longleftrightarrow> length s = 20 \<and>
     list_all (\<lambda>i. ascii_digit (s ! i)) [0, 1, 2, 3, 5, 6, 8, 9, 11, 12, 14, 15, 17, 18] \<and>
     s ! 4 = CHR ''-'' \<and> s ! 7 = CHR ''-'' \<and> s ! 10 = CHR ''T'' \<and> s ! 13 = CHR '':'' \<and> s ! 16 = CHR '':'' \<and> s ! 19 = CHR ''Z''"

definition validate_uuid_v4 :: "pystr \<Rightarrow> bool" where
  "validate_uuid_v4 s = (case parse_uuid s of None \<Rightarrow> False | Some n \<Rightarrow> uuid_version n = Some 4)"

definition guard :: "bool \<Rightarrow> pystr \<Rightarrow> (envelope_error + 'a) \<Rightarrow> envelope_error + 'a" where
  "guard b msg r = (if b then r else Inl (EnvInvalid msg))"

definition as_text :: "json \<Rightarrow> pystr option" where
  "as_text j = (case j of JStr s \<Rightarrow> Some s | _ \<Rightarrow> None)"

definition text_such :: "(pystr \<Rightarrow> bool) \<Rightarrow> json \<Rightarrow> bool" where
  "text_such P j = (case j of JStr s \<Rightarrow> P s | _ \<Rightarrow> False)"

definition the_text :: "json \<Rightarrow> pystr" where
  "the_text j = (case j of JStr s \<Rightarrow> s | _ \<Rightarrow> [])"

definition parse_fields :: "(rat \<Rightarrow> pystr) \<Rightarrow> digests \<Rightarrow> (pystr \<Rightarrow> json) \<Rightarrow> envelope_error + Envelope" where
  "parse_fields fl h raw =
    guard (raw ''envelope_version'' = JStr ENVELOPE_VERSION_LITERAL) ''unsupported envelope_version''
    (case raw ''schema_version'' of
       JInt schema_version \<Rightarrow>
         guard (1 \<le> schema_version) ''schema_version must be >= 1''
         (guard (text_such validate_uuid_v4 (raw ''message_id'')) ''message_id''
         (guard (text_such (\<lambda>s. iso_8601_utc_z s \<and> strptime_20 s) (raw ''created_at'')) ''created_at''
         (case source_of (raw ''source'') of None \<Rightarrow> Inl (EnvInvalid ''source'') | Some source \<Rightarrow>
          guard (text_such is_sha256_hex (raw ''audit_db_ref'')) ''audit_db_ref''
          (case payload_type_of (raw ''payload_type'') of None \<Rightarrow> Inl (EnvInvalid ''payload_type'') | Some payload_type \<Rightarrow>
           (case raw ''payload'' of
              JObj payload \<Rightarrow>
                guard (text_such is_sha256_hex (raw ''checksum'')) ''checksum''
                (case compute_checksum fl h payload of
                   Inl _ \<Rightarrow> Inl (EnvInvalid ''payload is not canonically serializable'')
                 | Inr expected \<Rightarrow>
                     if expected \<noteq> the_text (raw ''checksum'') then Inl EnvChecksum
                     else Inr \<lparr>env_schema_version = schema_version, env_message_id = the_text (raw ''message_id''),
                       env_created_at = the_text (raw ''created_at''), env_source = source,
                       env_audit_db_ref = the_text (raw ''audit_db_ref''), env_payload_type = payload_type,
                       env_payload = payload, env_checksum = the_text (raw ''checksum'')\<rparr>)
            | _ \<Rightarrow> Inl (EnvInvalid ''payload must be an object''))))))
     | _ \<Rightarrow> Inl (EnvInvalid ''schema_version must be int''))"

definition parse_envelope :: "(rat \<Rightarrow> pystr) \<Rightarrow> digests \<Rightarrow> json \<Rightarrow> envelope_error + Envelope" where
  "parse_envelope fl h raw = (case raw of
     JObj kvs \<Rightarrow>
       guard (set ENVELOPE_FIELDS \<subseteq> fst ` set kvs) ''missing required field''
       (guard (fst ` set kvs \<subseteq> set ENVELOPE_FIELDS) ''unknown field''
         (parse_fields fl h (\<lambda>k. the (map_of kvs k))))
   | _ \<Rightarrow> Inl (EnvInvalid ''envelope must be a mapping''))"

section \<open>What is accepted\<close>

lemma guard_Inr: "guard b m r = Inr x \<longleftrightarrow> b \<and> r = Inr x"
  by (simp add: guard_def)

lemma text_such_iff: "text_such P j \<longleftrightarrow> (\<exists>s. j = JStr s \<and> P s)"
  by (simp add: text_such_def split: json.split)

text \<open>The schema as one formula over the envelope that is returned.\<close>

definition envelope_spec :: "(rat \<Rightarrow> pystr) \<Rightarrow> digests \<Rightarrow> row \<Rightarrow> Envelope \<Rightarrow> bool" where
  "envelope_spec fl h kvs e \<longleftrightarrow> fst ` set kvs = set ENVELOPE_FIELDS \<and>
     map_of kvs ''envelope_version'' = Some (JStr ''0.1'') \<and>
     map_of kvs ''schema_version'' = Some (JInt (env_schema_version e)) \<and> 1 \<le> env_schema_version e \<and>
     map_of kvs ''message_id'' = Some (JStr (env_message_id e)) \<and> uuid_text 4 (env_message_id e) \<and>
     map_of kvs ''created_at'' = Some (JStr (env_created_at e)) \<and> iso_8601_utc_z (env_created_at e) \<and> strptime_20 (env_created_at e) \<and>
     (\<exists>j. map_of kvs ''source'' = Some j \<and> source_of j = Some (env_source e)) \<and>
     map_of kvs ''audit_db_ref'' = Some (JStr (env_audit_db_ref e)) \<and> is_sha256_hex (env_audit_db_ref e) \<and>
     (\<exists>j. map_of kvs ''payload_type'' = Some j \<and> payload_type_of j = Some (env_payload_type e)) \<and>
     map_of kvs ''payload'' = Some (JObj (env_payload e)) \<and>
     map_of kvs ''checksum'' = Some (JStr (env_checksum e)) \<and> is_sha256_hex (env_checksum e) \<and>
     compute_checksum fl h (env_payload e) = Inr (env_checksum e)"

lemma uuid_v4_iff: "validate_uuid_v4 s \<longleftrightarrow> uuid_text 4 s"
  by (auto simp: validate_uuid_v4_def uuid_text_def split: option.splits)

lemma parse_fields_Inr:
  "parse_fields fl h raw = Inr e \<longleftrightarrow>
    raw ''envelope_version'' = JStr ''0.1'' \<and> raw ''schema_version'' = JInt (env_schema_version e) \<and> 1 \<le> env_schema_version e \<and>
    raw ''message_id'' = JStr (env_message_id e) \<and> uuid_text 4 (env_message_id e) \<and>
    raw ''created_at'' = JStr (env_created_at e) \<and> iso_8601_utc_z (env_created_at e) \<and> strptime_20 (env_created_at e) \<and>
    source_of (raw ''source'') = Some (env_source e) \<and>
    raw ''audit_db_ref'' = JStr (env_audit_db_ref e) \<and> is_sha256_hex (env_audit_db_ref e) \<and>
    payload_type_of (raw ''payload_type'') = Some (env_payload_type e) \<and> raw ''payload'' = JObj (env_payload e) \<and>
    raw ''checksum'' = JStr (env_checksum e) \<and> is_sha256_hex (env_checksum e) \<and>
    compute_checksum fl h (env_payload e) = Inr (env_checksum e)"
  unfolding parse_fields_def guard_Inr text_such_iff uuid_v4_iff ENVELOPE_VERSION_LITERAL_def
  by (cases e) (auto simp: guard_Inr text_such_iff uuid_v4_iff the_text_def split: json.splits option.splits sum.splits if_splits)

lemma the_map_of: "k \<in> fst ` set kvs \<Longrightarrow> the (map_of kvs k) = v \<longleftrightarrow> map_of kvs k = Some v"
  by (metis map_of_eq_None_iff option.collapse option.sel)

lemma parse_envelope_iff: "parse_envelope fl h (JObj kvs) = Inr e \<longleftrightarrow> envelope_spec fl h kvs e"
proof (cases "fst ` set kvs = set ENVELOPE_FIELDS")
  case True
  have f: "the (map_of kvs k) = v \<longleftrightarrow> map_of kvs k = Some v" if "k \<in> set ENVELOPE_FIELDS" for k v
    by (rule the_map_of) (use True that in simp)
  have g: "(\<exists>j. map_of kvs k = Some j \<and> P j) \<longleftrightarrow> P (the (map_of kvs k))" if "k \<in> set ENVELOPE_FIELDS" for k P
    using f [OF that, of "the (map_of kvs k)"] by auto
  have k: "''envelope_version'' \<in> set ENVELOPE_FIELDS" "''schema_version'' \<in> set ENVELOPE_FIELDS" "''message_id'' \<in> set ENVELOPE_FIELDS"
    "''created_at'' \<in> set ENVELOPE_FIELDS" "''source'' \<in> set ENVELOPE_FIELDS" "''audit_db_ref'' \<in> set ENVELOPE_FIELDS"
    "''payload_type'' \<in> set ENVELOPE_FIELDS" "''payload'' \<in> set ENVELOPE_FIELDS" "''checksum'' \<in> set ENVELOPE_FIELDS"
    by (simp_all add: ENVELOPE_FIELDS_def)
  have "parse_envelope fl h (JObj kvs) = parse_fields fl h (\<lambda>k. the (map_of kvs k))"
    using True by (simp add: parse_envelope_def guard_def)
  then show ?thesis
    by (simp only: parse_fields_Inr envelope_spec_def True f k g simp_thms)
next
  case False
  then show ?thesis by (auto simp: parse_envelope_def guard_Inr envelope_spec_def)
qed

lemma parse_envelope_Inr: "parse_envelope fl h raw = Inr e \<longleftrightarrow> (\<exists>kvs. raw = JObj kvs \<and> envelope_spec fl h kvs e)"
  using parse_envelope_iff by (cases raw) (auto simp: parse_envelope_def)

lemma spec_text:
  assumes "envelope_spec fl h kvs e"
  obtains t where "canonical_dumps fl h (JObj (env_payload e)) = Inr t" "sha256_hex h t = env_checksum e"
proof -
  have "compute_checksum fl h (env_payload e) = Inr (env_checksum e)" using assms by (simp add: envelope_spec_def)
  then show thesis using that by (auto simp: compute_checksum_def and_then_Inr)
qed


text \<open>A digest without collisions that gives the empty payload a hexadecimal text.\<close>

definition swap_digests :: digests where
  "swap_digests = \<lparr>nfc = (\<lambda>s. s), sha256_hex = (\<lambda>s. if s = ''{}'' then replicate 64 CHR ''a''
     else if s = replicate 64 CHR ''a'' then ''{}'' else s)\<rparr>"

lemma swap_inj: "inj (sha256_hex swap_digests)"
  by (rule inj_on_inverseI [of _ "sha256_hex swap_digests"]) (auto simp: swap_digests_def)

definition demo_raw :: "(pystr \<times> json) list" where
  "demo_raw = [(''envelope_version'', JStr ''0.1''), (''schema_version'', JInt 1),
     (''message_id'', JStr (uuid_str 0x936da01f9abd4d9d80c702af85c822a8)), (''created_at'', JStr ''2026-05-09T14:23:11Z''),
     (''source'', JStr ''aphelion''), (''audit_db_ref'', JStr (replicate 64 CHR ''a'')), (''payload_type'', JStr ''query_result''),
     (''payload'', JObj []), (''checksum'', JStr (replicate 64 CHR ''a''))]"

definition demo_envelope :: Envelope where
  "demo_envelope = \<lparr>env_schema_version = 1, env_message_id = uuid_str 0x936da01f9abd4d9d80c702af85c822a8,
     env_created_at = ''2026-05-09T14:23:11Z'', env_source = APHELION, env_audit_db_ref = replicate 64 CHR ''a'',
     env_payload_type = QUERY_RESULT, env_payload = [], env_checksum = replicate 64 CHR ''a''\<rparr>"

lemma hex_a: "is_sha256_hex (replicate 64 CHR ''a'')"
  by (simp add: is_sha256_hex_def lower_hex_def list_all_iff)

lemma demo_parses: "parse_envelope fl swap_digests (JObj demo_raw) = Inr demo_envelope"
proof -
  have ts: "iso_8601_utc_z ''2026-05-09T14:23:11Z''" by code_simp
  have "strptime_20 ''2026-05-09T14:23:11Z''" using demo_ts by (simp add: valid_ts_def)
  with ts have "envelope_spec fl swap_digests demo_raw demo_envelope"
    unfolding envelope_spec_def demo_raw_def demo_envelope_def
    by (simp add: ENVELOPE_FIELDS_def uuid_text_def parse_uuid_str demo_versions source_of_def payload_type_of_def hex_a
      compute_checksum_def canonical_dumps_def swap_digests_def insert_commute)
  then show ?thesis by (simp add: parse_envelope_iff)
qed


end
