(* ===== verification/Aphelion_Adapter.thy ===== *)
theory Aphelion_Adapter
  imports Audit_Db Envelope Query_Types
begin

text \<open>
  \<^verbatim>\<open>router/aphelion_adapter.py\<close>: one exact-subject read. The claim validator and the R4 reader of the
  \<^verbatim>\<open>aphelion\<close> package are the parameter \<open>r4_lib\<close>; the claim loader's result is an argument. Proved: an envelope
  is exposed only after the audit row it refers to has been committed, and no failure of the audit write escapes
  as anything but an \<^verbatim>\<open>AphelionUnreachableError\<close>.
\<close>

section \<open>Requests and results\<close>

record QueryRequest =
  qr_query_type :: QueryType
  qr_user_id :: pystr
  qr_q :: pystr
  qr_limit :: int
  qr_since :: "pystr option"
  qr_until :: "pystr option"
  qr_level :: int
  qr_params :: "row option"

record RetrievalEvidence =
  ev_hits :: "row list"
  ev_stages :: "pystr list"
  ev_notes :: "pystr list"

text \<open>\<open>Unreachable\<close> is the contract error with its reason; \<open>Unexpected\<close> any other exception.\<close>

datatype read_error = Unreachable pystr | Unexpected

section \<open>The library\<close>

datatype raised = SchemaRaised | OtherRaised

record r4_result =
  r4_conflict_class :: pystr
  r4_primary :: "row option"
  r4_surfaced :: "row list"
  r4_superseded :: "row list"
  r4_used_query_time :: json

record r4_lib =
  validate_v03_fields :: "row \<Rightarrow> raised option"
  r4_query :: "pystr \<Rightarrow> row list \<Rightarrow> raised + r4_result"

section \<open>Hits\<close>

definition CLAIM_CONTENT_KEY :: pystr where
  "CLAIM_CONTENT_KEY = ''body''"

definition explicit_subject :: "QueryRequest \<Rightarrow> pystr option" where
  "explicit_subject req = (case qr_params req of None \<Rightarrow> None
     | Some params \<Rightarrow> (case map_of params ''subject'' of
         Some (JStr s) \<Rightarrow> if s = [] then None else Some s
       | _ \<Rightarrow> None))"

definition resolve_subject :: "QueryRequest \<Rightarrow> pystr" where
  "resolve_subject req = (case explicit_subject req of Some s \<Rightarrow> s
     | None \<Rightarrow> if qr_q req \<noteq> [] then qr_q req else qr_user_id req)"

definition conflict_class_to_outcome :: "pystr \<Rightarrow> pystr" where
  "conflict_class_to_outcome cc = (if cc = ''not_found'' then ''miss'' else ''hit'')"

definition string_field :: "row \<Rightarrow> pystr \<Rightarrow> pystr option" where
  "string_field claim name = (case map_of claim name of Some (JStr s) \<Rightarrow> if s = [] then None else Some s | _ \<Rightarrow> None)"

definition or_empty :: "pystr option \<Rightarrow> pystr" where
  "or_empty x = (case x of None \<Rightarrow> [] | Some s \<Rightarrow> s)"

definition claim_content :: "row \<Rightarrow> pystr \<times> pystr" where
  "claim_content claim =
    (case map_of claim CLAIM_CONTENT_KEY of
       Some (JStr body) \<Rightarrow> if strip body \<noteq> [] then (strip body, CLAIM_CONTENT_KEY)
         else (case string_field claim ''title'' of Some t \<Rightarrow> (t, ''title'') | None \<Rightarrow> (or_empty (string_field claim ''subject''), ''subject''))
     | _ \<Rightarrow> (case string_field claim ''title'' of Some t \<Rightarrow> (t, ''title'')
         | None \<Rightarrow> (or_empty (string_field claim ''subject''), ''subject'')))"

text \<open>\<^verbatim>\<open>repr\<close> of a text.\<close>

definition repr_char :: "char \<Rightarrow> char \<Rightarrow> pystr" where
  "repr_char q c = (let n = (of_char c :: nat) in
     if c = q \<or> n = 92 then [CHR 0x5C, c]
     else if n = 10 then [CHR 0x5C, CHR ''n''] else if n = 13 then [CHR 0x5C, CHR ''r'']
     else if n = 9 then [CHR 0x5C, CHR ''t'']
     else if n < 32 \<or> (127 \<le> n \<and> n \<le> 160) \<or> n = 173 then [CHR 0x5C, CHR ''x''] @ hex2 n
     else [c])"

definition py_repr :: "pystr \<Rightarrow> pystr" where
  "py_repr s = (let q = (if CHR 0x27 \<in> set s \<and> CHR 0x22 \<notin> set s then CHR 0x22 else CHR 0x27) in
     [q] @ concat (map (repr_char q) s) @ [q])"

definition build_hit :: "row \<Rightarrow> row" where
  "build_hit claim =
    (let claim_id = or_empty (string_field claim ''claim_id''); subject = or_empty (string_field claim ''subject'');
         polarity = (case string_field claim ''polarity'' of None \<Rightarrow> ''affirm'' | Some p \<Rightarrow> p);
         package_part = (case string_field claim ''package_id'' of None \<Rightarrow> [] | Some p \<Rightarrow> '', package='' @ p);
         (content, content_source) = claim_content claim
     in [(''id'', JStr claim_id), (''text'', JStr content), (''kind'', JStr ''aphelion_claim''), (''polarity'', JStr polarity),
         (''subject'', JStr subject), (''content_source'', JStr content_source),
         (''evidence'', JStr (''aphelion claim '' @ claim_id @ '' (subject='' @ py_repr subject @ '', polarity='' @ polarity @ package_part @ '')'')),
         (''full'', JObj claim)] @
        (case string_field claim ''created_at'' of None \<Rightarrow> [] | Some t \<Rightarrow> [(''created_at'', JStr t)]))"

section \<open>The read\<close>

record adapter =
  ad_table :: audit_table
  last_envelope :: "Envelope option"
  last_audit_row :: "row option"

text \<open>Per call: the library, the storage, whether the connection provider returns, the minted id and the clock.\<close>

record read_env =
  re_lib :: r4_lib
  re_io :: storage
  re_provider_ok :: bool
  re_message_id :: pystr
  re_now :: pystr
  re_float :: "rat \<Rightarrow> pystr"
  re_digests :: digests

fun validate_all :: "r4_lib \<Rightarrow> row list \<Rightarrow> read_error + unit" where
  "validate_all lib [] = Inr ()"
| "validate_all lib (c # cs) = (case validate_v03_fields lib c of
     None \<Rightarrow> validate_all lib cs
   | Some SchemaRaised \<Rightarrow> Inl (Unreachable ''claim_schema_error'')
   | Some OtherRaised \<Rightarrow> Inl Unexpected)"

definition run_reader :: "r4_lib \<Rightarrow> pystr \<Rightarrow> row list \<Rightarrow> read_error + r4_result" where
  "run_reader lib subject candidates = (case r4_query lib subject candidates of
     Inr r \<Rightarrow> Inr r
   | Inl SchemaRaised \<Rightarrow> Inl (Unreachable ''claim_schema_error'')
   | Inl OtherRaised \<Rightarrow> Inl Unexpected)"

definition evidence_of :: "r4_result \<Rightarrow> RetrievalEvidence" where
  "evidence_of r = \<lparr>ev_hits = map build_hit (r4_surfaced r), ev_stages = [''aphelion_v03_r4''],
     ev_notes = [''conflict_class='' @ r4_conflict_class r]\<rparr>"

definition audit_row_data :: "read_env \<Rightarrow> QueryRequest \<Rightarrow> pystr \<Rightarrow> pystr \<Rightarrow> pystr \<Rightarrow> row" where
  "audit_row_data env req claim_id package_id oc =
    [(''claim_id'', JStr claim_id), (''package_id'', JStr package_id), (''envelope_message_id'', JStr (re_message_id env)),
     (''ts'', JStr (re_now env)), (''outcome'', JStr oc), (''source'', JStr ''aphelion''), (''session_id'', JStr (qr_user_id req)),
     (''signer_id'', JStr []), (''signer_manifest_digest'', JStr [])]"

definition write_error :: "audit_error \<Rightarrow> pystr" where
  "write_error e = (case e of DbIntegrity \<Rightarrow> ''audit_db_integrity_error'' | DbUsage \<Rightarrow> ''audit_db_usage_error''
     | _ \<Rightarrow> ''audit_db_write_failed'')"

definition query_payload :: "pystr \<Rightarrow> r4_result \<Rightarrow> pystr \<Rightarrow> row" where
  "query_payload subject r claim_id =
    [(''subject'', JStr subject), (''conflict_class'', JStr (r4_conflict_class r)), (''primary_claim_id'', JStr claim_id),
     (''surfaced_count'', JInt (int (length (r4_surfaced r)))), (''superseded_count'', JInt (int (length (r4_superseded r)))),
     (''used_query_time'', r4_used_query_time r)]"

definition envelope_dict :: "read_env \<Rightarrow> pystr \<Rightarrow> row \<Rightarrow> pystr \<Rightarrow> row" where
  "envelope_dict env ref payload checksum =
    [(''envelope_version'', JStr ''0.1''), (''schema_version'', JInt 1), (''message_id'', JStr (re_message_id env)),
     (''created_at'', JStr (re_now env)), (''source'', JStr ''aphelion''), (''audit_db_ref'', JStr ref),
     (''payload_type'', JStr ''query_result''), (''payload'', JObj payload), (''checksum'', JStr checksum)]"

definition emit :: "read_env \<Rightarrow> pystr \<Rightarrow> r4_result \<Rightarrow> pystr \<Rightarrow> row \<Rightarrow> adapter \<Rightarrow> (read_error + RetrievalEvidence) \<times> adapter" where
  "emit env subject r claim_id audit_row ad =
    (case (row_sha256_hex (re_digests env) audit_row,
           compute_checksum (re_float env) (re_digests env) (query_payload subject r claim_id)) of
       (Inr ref, Inr checksum) \<Rightarrow>
         (case parse_envelope (re_float env) (re_digests env)
             (JObj (envelope_dict env ref (query_payload subject r claim_id) checksum)) of
            Inl _ \<Rightarrow> (Inl (Unreachable ''envelope_checksum_mismatch''), ad)
          | Inr e \<Rightarrow> (Inr (evidence_of r), ad\<lparr>last_envelope := Some e, last_audit_row := Some audit_row\<rparr>))
     | _ \<Rightarrow> (Inl Unexpected, ad))"

definition record_hit ::
  "read_env \<Rightarrow> QueryRequest \<Rightarrow> pystr \<Rightarrow> r4_result \<Rightarrow> pystr \<Rightarrow> pystr \<Rightarrow> adapter \<Rightarrow> (read_error + RetrievalEvidence) \<times> adapter" where
  "record_hit env req subject r claim_id package_id ad =
    (case canonicalize_row (audit_row_data env req claim_id package_id (conflict_class_to_outcome (r4_conflict_class r))) of
       Inl _ \<Rightarrow> (Inl (Unreachable ''audit_row_invalid''), ad)
     | Inr audit_row \<Rightarrow>
         if \<not> re_provider_ok env then (Inl (Unreachable ''audit_db_write_failed''), ad)
         else case write_audit_row (re_io env) audit_row (ad_table ad) of
             (Inl e, tab) \<Rightarrow> (Inl (Unreachable (write_error e)), ad\<lparr>ad_table := tab\<rparr>)
           | (Inr _, tab) \<Rightarrow> emit env subject r claim_id audit_row (ad\<lparr>ad_table := tab\<rparr>))"

definition adapter_query ::
  "read_env \<Rightarrow> QueryRequest \<Rightarrow> read_error + row list \<Rightarrow> adapter \<Rightarrow> (read_error + RetrievalEvidence) \<times> adapter" where
  "adapter_query env req loaded ad0 =
    (let ad = ad0\<lparr>last_envelope := None, last_audit_row := None\<rparr>; subject = resolve_subject req in
     case loaded of
       Inl (Unreachable reason) \<Rightarrow> (Inl (Unreachable reason), ad)
     | Inl Unexpected \<Rightarrow> (Inl (Unreachable ''claim_loader_error''), ad)
     | Inr candidates \<Rightarrow>
         (case and_then (validate_all (re_lib env) candidates) (\<lambda>_. run_reader (re_lib env) subject candidates) of
            Inl e \<Rightarrow> (Inl e, ad)
          | Inr r \<Rightarrow>
             (case (Option.bind (r4_primary r) (\<lambda>p. string_field p ''claim_id''), Option.bind (r4_primary r) (\<lambda>p. string_field p ''package_id'')) of
                (Some claim_id, Some package_id) \<Rightarrow> record_hit env req subject r claim_id package_id ad
              | _ \<Rightarrow> (Inr (evidence_of r), ad))))"

section \<open>Write order\<close>

text \<open>An exposed envelope refers to the last row of the table.\<close>

definition envelope_backed :: "digests \<Rightarrow> audit_table \<Rightarrow> adapter \<Rightarrow> bool" where
  "envelope_backed h before ad \<longleftrightarrow> (case last_envelope ad of None \<Rightarrow> last_audit_row ad = None
     | Some e \<Rightarrow> \<exists>row. last_audit_row ad = Some row \<and> ad_table ad = before @ [columns_of row] \<and>
         row_sha256_hex h row = Inr (env_audit_db_ref e) \<and> text_of row ''envelope_message_id'' (env_message_id e) \<and>
         text_of row ''ts'' (env_created_at e))"

lemma write_audit_row_cases:
  assumes "write_audit_row io row tab = (res, tab')"
  shows "(\<exists>e. res = Inl e \<and> tab' = tab) \<or> (res = Inr () \<and> tab' = tab @ [columns_of row])"
  using assms by (auto simp: write_audit_row_def dest: insert_row_Inr split: if_splits sum.splits)

lemma emit_backed:
  assumes run: "emit env subject r claim_id row ad = (res, ad')"
    and clear: "last_envelope ad = None" "last_audit_row ad = None"
    and tab: "ad_table ad = before @ [columns_of row]"
    and row: "text_of row ''envelope_message_id'' (re_message_id env)" "text_of row ''ts'' (re_now env)"
  shows "envelope_backed (re_digests env) before ad' \<and> (ok res \<longleftrightarrow> last_envelope ad' \<noteq> None)"
proof -
  let ?h = "re_digests env" and ?p = "query_payload subject r claim_id"
  have same: "envelope_backed ?h before ad" using clear by (simp add: envelope_backed_def)
  show ?thesis
  proof (cases "row_sha256_hex ?h row")
    case (Inl e)
    then show ?thesis using run same clear by (auto simp: emit_def)
  next
    case ref: (Inr ref)
    show ?thesis
    proof (cases "compute_checksum (re_float env) ?h ?p")
      case (Inl e)
      then show ?thesis using run same clear ref by (auto simp: emit_def)
    next
      case sum: (Inr checksum)
      show ?thesis
      proof (cases "parse_envelope (re_float env) ?h (JObj (envelope_dict env ref ?p checksum))")
        case (Inl e)
        then show ?thesis using run same clear ref sum by (auto simp: emit_def)
      next
        case (Inr e)
        then have "envelope_spec (re_float env) ?h (envelope_dict env ref ?p checksum) e" by (simp add: parse_envelope_iff)
        then have "env_audit_db_ref e = ref" "env_message_id e = re_message_id env" "env_created_at e = re_now env"
          by (simp_all add: envelope_spec_def envelope_dict_def)
        moreover have "res = Inr (evidence_of r)" "ad' = ad\<lparr>last_envelope := Some e, last_audit_row := Some row\<rparr>"
          using run ref sum Inr by (simp_all add: emit_def)
        ultimately show ?thesis using ref tab row by (simp add: envelope_backed_def)
      qed
    qed
  qed
qed

lemma audit_row_fields:
  assumes "canonicalize_row (audit_row_data env req c p oc) = Inr row"
  shows "row = audit_row_data env req c p oc" "text_of row ''envelope_message_id'' (re_message_id env)" "text_of row ''ts'' (re_now env)"
proof -
  show "row = audit_row_data env req c p oc"
    using assms unfolding canonicalize_accepted by (simp add: cleaned_def audit_row_data_def)
  then show "text_of row ''envelope_message_id'' (re_message_id env)" "text_of row ''ts'' (re_now env)"
    by (simp_all add: audit_row_data_def)
qed

lemma record_hit_backed:
  assumes run: "record_hit env req subject r claim_id package_id ad = (res, ad')"
    and clear: "last_envelope ad = None" "last_audit_row ad = None"
  shows "envelope_backed (re_digests env) (ad_table ad) ad' \<and> (\<not> ok res \<longrightarrow> last_envelope ad' = None) \<and>
    (ad_table ad' = ad_table ad \<or> (\<exists>row. ad_table ad' = ad_table ad @ [row]))"
proof -
  let ?data = "audit_row_data env req claim_id package_id (conflict_class_to_outcome (r4_conflict_class r))"
  show ?thesis
  proof (cases "canonicalize_row ?data")
    case (Inl e)
    then show ?thesis using run clear by (auto simp: record_hit_def envelope_backed_def)
  next
    case row: (Inr row)
    obtain w tab where w: "write_audit_row (re_io env) row (ad_table ad) = (w, tab)"
      by (cases "write_audit_row (re_io env) row (ad_table ad)")
    from write_audit_row_cases [OF w] show ?thesis
    proof (elim disjE exE conjE)
      fix e
      assume "w = Inl e" "tab = ad_table ad"
      then show ?thesis using run clear row w by (auto simp: record_hit_def envelope_backed_def split: if_splits)
    next
      assume ok: "w = Inr ()" "tab = ad_table ad @ [columns_of row]"
      show ?thesis
      proof (cases "re_provider_ok env")
        case True
        then have emit: "emit env subject r claim_id row (ad\<lparr>ad_table := tab\<rparr>) = (res, ad')"
          using run row w ok by (simp add: record_hit_def)
        have "ad_table ad' = tab"
          using emit by (auto simp: emit_def split: sum.splits prod.splits)
        then show ?thesis
          using emit_backed [OF emit, of "ad_table ad"] clear ok audit_row_fields [OF row] by auto
      qed (use run clear row in \<open>auto simp: record_hit_def envelope_backed_def\<close>)
    qed
  qed
qed

lemma adapter_query_backed:
  assumes "adapter_query env req loaded ad0 = (res, ad)"
  shows "envelope_backed (re_digests env) (ad_table ad0) ad \<and> (\<not> ok res \<longrightarrow> last_envelope ad = None) \<and>
    (ad_table ad = ad_table ad0 \<or> (\<exists>row. ad_table ad = ad_table ad0 @ [row]))"
proof -
  let ?ad = "ad0\<lparr>last_envelope := None, last_audit_row := None\<rparr>"
  have none: "envelope_backed (re_digests env) (ad_table ad0) ?ad" by (simp add: envelope_backed_def)
  from assms consider "ad = ?ad"
    | (hit) r claim_id package_id where "record_hit env req (resolve_subject req) r claim_id package_id ?ad = (res, ad)"
    unfolding adapter_query_def Let_def
    by (auto split: sum.splits read_error.splits option.splits prod.splits)
  then show ?thesis
  proof cases
    case hit
    from record_hit_backed [OF hit] show ?thesis by simp
  qed (use none in \<open>simp add: envelope_backed_def\<close>)
qed

text \<open>C12: after any read an exposed envelope is backed: it refers by digest, message id and time stamp to the row
  that is now the last of the audit table; a read that raises exposes none; and a read adds at most one row.\<close>

theorem adapter_write_order:
  assumes "adapter_query env req loaded ad0 = (res, ad)"
  shows "envelope_backed (re_digests env) (ad_table ad0) ad \<and> (\<not> ok res \<longrightarrow> last_envelope ad = None) \<and>
    (ad_table ad = ad_table ad0 \<or> (\<exists>row. ad_table ad = ad_table ad0 @ [row]))"
  by (rule adapter_query_backed [OF assms])

lemma adapter_query_hits:
  assumes "adapter_query env req loaded ad0 = (Inr ev, ad)"
  shows "\<exists>cs r. loaded = Inr cs \<and> r4_query (re_lib env) (resolve_subject req) cs = Inr r \<and> ev = evidence_of r"
proof -
  obtain cs where cs: "loaded = Inr cs"
    using assms by (cases loaded) (auto simp: adapter_query_def Let_def split: read_error.splits)
  from assms obtain r where r: "run_reader (re_lib env) (resolve_subject req) cs = Inr r"
    by (auto simp: adapter_query_def cs and_then_def Let_def split: sum.splits)
  have "ev = evidence_of r"
    using assms r
    by (auto simp: adapter_query_def cs and_then_def Let_def record_hit_def emit_def split: sum.splits option.splits prod.splits if_splits)
  with cs r show ?thesis by (auto simp: run_reader_def split: sum.splits raised.splits)
qed

text \<open>A read that finds one claim.\<close>

definition hex_digests :: digests where
  "hex_digests = \<lparr>nfc = (\<lambda>s. s), sha256_hex = (\<lambda>_. replicate 64 CHR ''a'')\<rparr>"

definition demo_found :: row where
  "demo_found = [(''claim_id'', JStr (uuid_str 0x01890a5dac96774bbcceb302099a8057)), (''subject'', JStr ''db''),
     (''package_id'', JStr (uuid_str 0x01890a5dac96774bbcceb302099a8058)), (''body'', JStr ''text'')]"

definition demo_lib :: r4_lib where
  "demo_lib = \<lparr>validate_v03_fields = (\<lambda>_. None), r4_query = (\<lambda>subject cs. Inr
     (case cs of [] \<Rightarrow> \<lparr>r4_conflict_class = ''not_found'', r4_primary = None, r4_surfaced = [], r4_superseded = [], r4_used_query_time = JNull\<rparr>
      | c # _ \<Rightarrow> \<lparr>r4_conflict_class = ''none'', r4_primary = Some c, r4_surfaced = [c], r4_superseded = [], r4_used_query_time = JNull\<rparr>))\<rparr>"

definition demo_read_env :: read_env where
  "demo_read_env = \<lparr>re_lib = demo_lib, re_io = good_storage, re_provider_ok = True,
     re_message_id = uuid_str 0x936da01f9abd4d9d80c702af85c822a8, re_now = ''2026-05-09T14:23:11Z'', re_float = (\<lambda>_. []),
     re_digests = hex_digests\<rparr>"

definition demo_query :: QueryRequest where
  "demo_query = \<lparr>qr_query_type = RECENT_CONTEXT, qr_user_id = ''u'', qr_q = ''db'', qr_limit = 10, qr_since = None,
     qr_until = None, qr_level = 1, qr_params = None\<rparr>"

definition empty_adapter :: adapter where
  "empty_adapter = \<lparr>ad_table = [], last_envelope = None, last_audit_row = None\<rparr>"

abbreviation demo_found_row :: row where
  "demo_found_row \<equiv> audit_row_data demo_read_env demo_query (uuid_str 0x01890a5dac96774bbcceb302099a8057)
     (uuid_str 0x01890a5dac96774bbcceb302099a8058) ''hit''"

lemma uuid_str_nonempty: "uuid_str n \<noteq> []"
  by (simp add: uuid_str_def Let_def)

lemma demo_found_canonical: "canonicalize_row demo_found_row = Inr demo_found_row"
proof -
  have "audit_row_spec demo_found_row"
    unfolding audit_row_spec_def audit_row_data_def demo_read_env_def demo_query_def
    by (simp add: known_keys_def REQUIRED_FIELDS_def OUTCOME_VALUES_def SOURCE_VALUES_def uuid_text_def parse_uuid_str demo_versions demo_ts)
  moreover have "cleaned demo_found_row = demo_found_row" by (simp add: cleaned_def audit_row_data_def)
  ultimately show ?thesis using spec_accepted by (simp add: canonicalize_accepted audit_row_spec_def)
qed

lemma demo_found_written: "write_audit_row good_storage demo_found_row [] = (Inr (), [columns_of demo_found_row])"
proof -
  have "like_ts ''2026-05-09T14:23:11Z''" using demo_ts by (rule valid_ts_like)
  then have "constraints_ok demo_found_row"
    by (simp add: constraints_ok_def column_def audit_row_data_def demo_read_env_def OUTCOME_VALUES_def SOURCE_VALUES_def)
  then show ?thesis by (simp add: write_audit_row_def good_storage_def demo_found_canonical insert_row_def)
qed

lemma adapter_write_order_witness:
  "\<exists>res ad. adapter_query demo_read_env demo_query (Inr [demo_found]) empty_adapter = (res, ad) \<and>
    envelope_backed hex_digests [] ad \<and> ad_table ad = [columns_of demo_found_row]"
proof -
  obtain res ad where run: "adapter_query demo_read_env demo_query (Inr [demo_found]) empty_adapter = (res, ad)"
    by (cases "adapter_query demo_read_env demo_query (Inr [demo_found]) empty_adapter")
  have "string_field demo_found ''claim_id'' = Some (uuid_str 0x01890a5dac96774bbcceb302099a8057)"
    "string_field demo_found ''package_id'' = Some (uuid_str 0x01890a5dac96774bbcceb302099a8058)"
    by (simp_all add: string_field_def demo_found_def uuid_str_nonempty)
  then obtain r where hit: "record_hit demo_read_env demo_query (resolve_subject demo_query) r
      (uuid_str 0x01890a5dac96774bbcceb302099a8057) (uuid_str 0x01890a5dac96774bbcceb302099a8058)
      (empty_adapter\<lparr>last_envelope := None, last_audit_row := None\<rparr>) = (res, ad)" "r4_conflict_class r = ''none''"
    using run by (auto simp: adapter_query_def demo_read_env_def demo_lib_def run_reader_def Let_def)
  then have "ad_table ad = [columns_of demo_found_row]"
    using demo_found_canonical demo_found_written
    by (auto simp: record_hit_def conflict_class_to_outcome_def demo_read_env_def empty_adapter_def emit_def
      split: sum.splits prod.splits)
  moreover have "envelope_backed hex_digests [] ad"
    using adapter_write_order [OF run] by (simp add: demo_read_env_def empty_adapter_def)
  ultimately show ?thesis using run by blast
qed

section \<open>The total fence\<close>

lemma texts_canonical:
  assumes "distinct (map (nfc h \<circ> fst) kvs)" "\<forall>kv \<in> set kvs. ok (nfc_json h (snd kv))"
  shows "ok (canonical_dumps f h (JObj kvs))"
  using nfc_items_map [OF assms(1), of "[]"] assms(2) by (simp add: canonical_dumps_def)

text \<open>What the code relies on: normalisation keeps the names of its own fields apart.\<close>

definition keeps_keys :: "digests \<Rightarrow> bool" where
  "keeps_keys h \<longleftrightarrow> inj_on (nfc h) (set REQUIRED_FIELDS \<union>
     {''subject'', ''conflict_class'', ''primary_claim_id'', ''surfaced_count'', ''superseded_count'', ''used_query_time''})"

lemma row_digest_ok: "keeps_keys h \<Longrightarrow> ok (row_sha256_hex h (audit_row_data env req c p oc))"
proof -
  assume "keeps_keys h"
  then have "inj_on (nfc h) (set (map fst (audit_row_data env req c p oc)))"
    unfolding keeps_keys_def by (rule inj_on_subset) (simp add: audit_row_data_def REQUIRED_FIELDS_def)
  then have "distinct (map (nfc h \<circ> fst) (audit_row_data env req c p oc))"
    by (subst map_map [symmetric], subst distinct_map) (simp add: audit_row_data_def)
  then have "ok (canonical_dumps (\<lambda>_. []) h (JObj (audit_row_data env req c p oc)))"
    by (rule texts_canonical) (simp add: audit_row_data_def)
  then show ?thesis by (cases "canonical_dumps (\<lambda>_. []) h (JObj (audit_row_data env req c p oc))") (simp_all add: row_sha256_hex_def)
qed

lemma payload_digest_ok:
  assumes "keeps_keys h" "ok (nfc_json h (r4_used_query_time r))"
  shows "ok (compute_checksum fl h (query_payload subject r c))"
proof -
  have "inj_on (nfc h) (set (map fst (query_payload subject r c)))"
    using assms(1) unfolding keeps_keys_def by (rule inj_on_subset) (simp add: query_payload_def)
  then have "distinct (map (nfc h \<circ> fst) (query_payload subject r c))"
    by (subst map_map [symmetric], subst distinct_map) (simp add: query_payload_def)
  then have "ok (canonical_dumps fl h (JObj (query_payload subject r c)))"
    by (rule texts_canonical) (simp add: query_payload_def assms(2))
  then show ?thesis by (cases "canonical_dumps fl h (JObj (query_payload subject r c))") (simp_all add: compute_checksum_def)
qed

text \<open>As long as the library raises only schema errors and the query time it reports is canonical JSON, a read
  never raises anything but the contract error: whatever the loader, the schema check, the connection provider and
  the storage do, the failure is classified.\<close>

theorem adapter_failures_typed:
  assumes "\<forall>c. validate_v03_fields (re_lib env) c \<noteq> Some OtherRaised"
    and "\<forall>s cs. r4_query (re_lib env) s cs \<noteq> Inl OtherRaised"
    and "\<forall>s cs r. r4_query (re_lib env) s cs = Inr r \<longrightarrow> ok (nfc_json (re_digests env) (r4_used_query_time r))"
    and "keeps_keys (re_digests env)"
  shows "fst (adapter_query env req loaded ad) \<noteq> Inl Unexpected"
proof -
  have v: "validate_all (re_lib env) cs \<noteq> Inl Unexpected" for cs
    using assms(1) by (induction cs) (auto split: option.splits raised.splits)
  have q: "run_reader (re_lib env) s cs \<noteq> Inl Unexpected" for s cs
    using assms(2) by (auto simp: run_reader_def split: sum.splits raised.splits)
  have time: "ok (nfc_json (re_digests env) (r4_used_query_time r))" if "run_reader (re_lib env) s cs = Inr r" for s cs r
    using that assms(3) by (auto simp: run_reader_def split: sum.splits raised.splits)
  have emit: "fst (emit env s r c row ad) \<noteq> Inl Unexpected"
    if "ok (nfc_json (re_digests env) (r4_used_query_time r))" "ok (row_sha256_hex (re_digests env) row)" for s r c row ad
    using that payload_digest_ok [OF assms(4) that(1), of "re_float env" s c]
    by (auto simp: emit_def ok_def split: sum.splits)
  have hit: "fst (record_hit env req s r c p ad) \<noteq> Inl Unexpected"
    if "ok (nfc_json (re_digests env) (r4_used_query_time r))" for s r c p ad
    using emit [OF that] row_digest_ok [OF assms(4)]
    by (auto simp: record_hit_def dest: audit_row_fields(1) split: sum.splits prod.splits)
  show ?thesis
    unfolding adapter_query_def Let_def
    using v q time hit by (auto simp: and_then_def split: sum.splits read_error.splits option.splits)
qed

lemma adapter_failures_typed_witness:
  "fst (adapter_query demo_read_env demo_query (Inl Unexpected) empty_adapter) \<noteq> Inl Unexpected"
proof (rule adapter_failures_typed)
  show "keeps_keys (re_digests demo_read_env)" by (simp add: keeps_keys_def demo_read_env_def hex_digests_def inj_on_def)
qed (auto simp: demo_read_env_def demo_lib_def split: list.splits)

end
