(* ===== verification/Apex_Router.thy ===== *)
theory Apex_Router
  imports Resolver Subject_Index Aphelion_Adapter
begin

text \<open>
  \<^verbatim>\<open>apex/router.py\<close>: the public read over a directory of packages. A package is what the \<^verbatim>\<open>aphelion\<close> library
  makes of it (the outcome of unpacking and of the two verifications, the manifest and the claim files). Proved:
  a package that fails makes the whole read fail, hits are never repeated and never invented, every call is
  counted exactly once, and the subject index is right for the packages on disk.
\<close>

section \<open>Packages\<close>

datatype lib_exc = FileNotFoundExc | SignerRequired | SignerOther | SecurityExc | VerificationExc | SemanticExc | SchemaExc | OtherExc

definition classify_package_exception :: "lib_exc \<Rightarrow> pystr" where
  "classify_package_exception e = (case e of FileNotFoundExc \<Rightarrow> ''package_missing'' | SignerRequired \<Rightarrow> ''unsigned_package''
     | SignerOther \<Rightarrow> ''signer_untrusted'' | SecurityExc \<Rightarrow> ''package_corrupt'' | VerificationExc \<Rightarrow> ''package_corrupt''
     | SemanticExc \<Rightarrow> ''package_corrupt'' | SchemaExc \<Rightarrow> ''package_corrupt'' | OtherExc \<Rightarrow> ''lib_error'')"

text \<open>A claim path resolves outside the package, cannot be read, does not parse, or gives frontmatter and body.\<close>

datatype claim_file = Escapes | ClaimUnreadable | ClaimRaises lib_exc | ClaimText row pystr

record package =
  pk_unpack :: "lib_exc option"
  pk_verify :: "lib_exc option"
  pk_signatures :: "lib_exc option"
  pk_manifest :: "json option"
  pk_claim :: "pystr \<Rightarrow> claim_file"

definition dict_set :: "pystr \<Rightarrow> json \<Rightarrow> row \<Rightarrow> row" where
  "dict_set k v kvs = (if k \<in> fst ` set kvs then map (\<lambda>kv. if fst kv = k then (k, v) else kv) kvs else kvs @ [(k, v)])"

fun project_entries :: "package \<Rightarrow> json \<Rightarrow> json list \<Rightarrow> read_error + row list" where
  "project_entries p pid [] = Inr []"
| "project_entries p pid (entry # es) =
    (case jget ''path'' entry of
       Some (JStr path) \<Rightarrow>
         (case pk_claim p path of
            Escapes \<Rightarrow> Inl (Unreachable ''package_corrupt'')
          | ClaimUnreadable \<Rightarrow> Inl (Unreachable ''package_corrupt'')
          | ClaimRaises e \<Rightarrow> Inl (Unreachable (classify_package_exception e))
          | ClaimText fm body \<Rightarrow> and_then (project_entries p pid es)
              (\<lambda>cs. Inr (dict_set CLAIM_CONTENT_KEY (JStr body) (dict_set ''package_id'' pid fm) # cs)))
     | _ \<Rightarrow> Inl (Unreachable ''lib_error''))"

definition project_claims :: "package \<Rightarrow> read_error + row list" where
  "project_claims p =
    (case Option.bind (pk_manifest p) (\<lambda>m. Option.bind (jget ''package_id'' m) (\<lambda>pid. Option.bind (jget ''claims'' m) (\<lambda>es. Some (pid, es)))) of
       None \<Rightarrow> Inl (Unreachable ''package_corrupt'')
     | Some (pid, es) \<Rightarrow> (case jitems es of None \<Rightarrow> Inl (Unreachable ''lib_error'') | Some entries \<Rightarrow> project_entries p pid entries))"

definition read_package_claims :: "package \<Rightarrow> read_error + row list" where
  "read_package_claims p =
    (case (pk_unpack p, pk_verify p, pk_signatures p) of
       (Some e, _, _) \<Rightarrow> Inl (Unreachable (classify_package_exception e))
     | (None, Some e, _) \<Rightarrow> Inl (Unreachable (classify_package_exception e))
     | (None, None, Some e) \<Rightarrow> Inl (Unreachable (classify_package_exception e))
     | (None, None, None) \<Rightarrow> project_claims p)"

text \<open>The packages of the directory by file name.\<close>

type_synonym corpus = "(pystr \<times> package) list"

fun read_all :: "corpus \<Rightarrow> read_error + row list" where
  "read_all [] = Inr []"
| "read_all ((name, p) # tars) = and_then (read_package_claims p) (\<lambda>cs. and_then (read_all tars) (\<lambda>rest. Inr (cs @ rest)))"

definition tars_of :: "corpus \<Rightarrow> corpus" where
  "tars_of corpus = sort_key fst (filter (\<lambda>t. endswith (fst t) ''.aphelion.tar'') corpus)"

section \<open>The router\<close>

record apex =
  ax_last_corpus_empty :: bool
  ax_scoped :: "pystr list option"
  ax_adapter :: adapter
  ax_index_file :: index_file
  ax_success :: nat
  ax_error :: nat
  ax_read_errors :: "pystr list"
  ax_empty_result :: "pystr list"
  ax_empty_corpus :: nat
  ax_audit_write_failures :: nat
  ax_rebuilds :: "trigger list"

definition load_candidate_claims :: "corpus \<Rightarrow> apex \<Rightarrow> (read_error + row list) \<times> apex" where
  "load_candidate_claims corpus ax =
    (let all_tars = tars_of corpus; ax1 = ax\<lparr>ax_last_corpus_empty := (all_tars = [])\<rparr> in
     if all_tars = [] then (Inr [], ax1\<lparr>ax_empty_corpus := ax_empty_corpus ax1 + 1\<rparr>)
     else (read_all (case ax_scoped ax of None \<Rightarrow> all_tars | Some names \<Rightarrow> filter (\<lambda>t. fst t \<in> set names) all_tars), ax1))"

definition run_adapter :: "read_env \<Rightarrow> corpus \<Rightarrow> QueryRequest \<Rightarrow> apex \<Rightarrow> (read_error + RetrievalEvidence) \<times> apex" where
  "run_adapter env corpus req ax =
    (let (loaded, ax1) = load_candidate_claims corpus ax; (res, ad) = adapter_query env req loaded (ax_adapter ax1)
     in (res, ax1\<lparr>ax_adapter := ad\<rparr>))"

definition query_exact :: "read_env \<Rightarrow> corpus \<Rightarrow> QueryRequest \<Rightarrow> apex \<Rightarrow> (read_error + RetrievalEvidence) \<times> apex" where
  "query_exact env corpus req ax = run_adapter env corpus req (ax\<lparr>ax_scoped := None\<rparr>)"

section \<open>Free text\<close>

definition py_or_empty :: "coercions \<Rightarrow> json option \<Rightarrow> pystr" where
  "py_or_empty c j = (case j of None \<Rightarrow> [] | Some v \<Rightarrow>
     if v \<in> {JNull, JBool False, JInt 0, JNum 0, JStr [], JList [], JObj []} then [] else to_str c v)"

definition claim_entry_of :: "coercions \<Rightarrow> pystr \<Rightarrow> row \<Rightarrow> IndexEntry option" where
  "claim_entry_of c name claim =
     (case (map_of claim ''subject'', map_of claim ''claim_id'') of
        (Some (JStr subject), Some (JStr claim_id)) \<Rightarrow>
          if subject = [] then None
          else Some \<lparr>ie_subject = subject, ie_package_id = py_or_empty c (map_of claim ''package_id''), ie_claim_id = claim_id,
            ie_package_file = name\<rparr>
      | _ \<Rightarrow> None)"

definition entries_of_claims :: "coercions \<Rightarrow> pystr \<Rightarrow> row list \<Rightarrow> IndexEntry list" where
  "entries_of_claims c name claims = List.map_filter (claim_entry_of c name) claims"

fun scan_tars :: "coercions \<Rightarrow> corpus \<Rightarrow> read_error + IndexEntry list" where
  "scan_tars c [] = Inr []"
| "scan_tars c ((name, p) # tars) =
    and_then (read_package_claims p) (\<lambda>cs. and_then (scan_tars c tars) (\<lambda>es. Inr (entries_of_claims c name cs @ es)))"

definition scan_index_entries :: "coercions \<Rightarrow> corpus \<Rightarrow> read_error + IndexEntry list" where
  "scan_index_entries c corpus = scan_tars c (tars_of corpus)"

text \<open>The contract error travels through the index as a \<open>RuntimeError\<close> with its reason.\<close>

definition as_kernel :: "read_error + 'a \<Rightarrow> kernel_error + 'a" where
  "as_kernel r = (case r of Inl (Unreachable s) \<Rightarrow> Inl (RuntimeError s) | Inl Unexpected \<Rightarrow> Inl Unmodelled | Inr x \<Rightarrow> Inr x)"

definition as_read :: "kernel_error \<Rightarrow> read_error" where
  "as_read e = (case e of RuntimeError s \<Rightarrow> Unreachable s | _ \<Rightarrow> Unexpected)"

definition NOT_FOUND_NOTE :: pystr where
  "NOT_FOUND_NOTE = ''conflict_class=not_found''"

definition empty_evidence :: "pystr list \<Rightarrow> RetrievalEvidence" where
  "empty_evidence extra_notes = \<lparr>ev_hits = [], ev_stages = [''aphelion_v03_r4''], ev_notes = NOT_FOUND_NOTE # extra_notes\<rparr>"

definition with_subject :: "QueryRequest \<Rightarrow> pystr \<Rightarrow> QueryRequest" where
  "with_subject req subject = req\<lparr>qr_params := Some (dict_set ''subject'' (JStr subject) (case qr_params req of None \<Rightarrow> [] | Some p \<Rightarrow> p))\<rparr>"

definition hit_id :: "row \<Rightarrow> pystr" where
  "hit_id hit = (case map_of hit ''id'' of Some (JStr s) \<Rightarrow> s | _ \<Rightarrow> [])"

fun merge_hits :: "row list \<Rightarrow> pystr list \<Rightarrow> row list \<Rightarrow> row list \<times> pystr list" where
  "merge_hits merged seen [] = (merged, seen)"
| "merge_hits merged seen (hit # hits) =
    (let hid = hit_id hit in
     if hid \<noteq> [] \<and> hid \<in> set seen then merge_hits merged seen hits
     else merge_hits (merged @ [hit]) (if hid \<noteq> [] then hid # seen else seen) hits)"

fun read_candidates ::
  "(nat \<Rightarrow> read_env) \<Rightarrow> nat \<Rightarrow> corpus \<Rightarrow> SubjectIndex \<Rightarrow> QueryRequest \<Rightarrow> pystr list \<Rightarrow> row list \<Rightarrow> pystr list \<Rightarrow> apex \<Rightarrow>
   (read_error + row list) \<times> apex" where
  "read_candidates env i corpus ix req [] merged seen ax = (Inr merged, ax)"
| "read_candidates env i corpus ix req (subject # subjects) merged seen ax =
    (let ax1 = ax\<lparr>ax_scoped := Some (packages_for_subject ix subject)\<rparr> in
     if packages_for_subject ix subject = [] then read_candidates env i corpus ix req subjects merged seen ax1
     else case run_adapter (env i) corpus (with_subject req subject) ax1 of
         (Inl e, ax2) \<Rightarrow> (Inl e, ax2)
       | (Inr ev, ax2) \<Rightarrow>
           (let (merged', seen') = merge_hits merged seen (ev_hits ev) in
            read_candidates env (Suc i) corpus ix req subjects merged' seen' ax2))"

text \<open>Per call: the environments of the R4 reads, the directory listing, the clock and whether the index can be written.\<close>

record free_env =
  fe_reads :: "nat \<Rightarrow> read_env"
  fe_coercions :: coercions
  fe_listing :: listing
  fe_index_exists :: bool
  fe_now :: rat
  fe_save_ok :: bool
  fe_top_k :: int

definition query_freetext :: "free_env \<Rightarrow> corpus \<Rightarrow> QueryRequest \<Rightarrow> apex \<Rightarrow> (read_error + RetrievalEvidence) \<times> apex" where
  "query_freetext fe corpus req ax =
    (case load_or_rebuild (fe_coercions fe) (fe_listing fe) (as_kernel (scan_index_entries (fe_coercions fe) corpus))
        (fe_index_exists fe) (fe_now fe) (ax_index_file ax) of
       Inl e \<Rightarrow> (Inl (as_read e), ax)
     | Inr (ix, t) \<Rightarrow>
        (let ax1 = (case t of None \<Rightarrow> ax | Some trigger \<Rightarrow>
               ax\<lparr>ax_index_file := (if fe_save_ok fe then save_index ix else ax_index_file ax), ax_rebuilds := trigger # ax_rebuilds ax\<rparr>);
             ax2 = ax1\<lparr>ax_last_corpus_empty := index_is_empty ix\<rparr>
         in if index_is_empty ix
            then (Inr (empty_evidence [''corpus=empty'']), ax2\<lparr>ax_empty_corpus := ax_empty_corpus ax2 + 1\<rparr>)
            else let candidates = map scored_subject (resolve_subjects (qr_q req) (index_subjects ix) (fe_top_k fe)) in
              if candidates = [] then (Inr (empty_evidence [''resolver=token_overlap'', ''candidates=0'']), ax2)
              else case read_candidates (fe_reads fe) 0 corpus ix req candidates [] [] ax2 of
                  (Inl e, ax3) \<Rightarrow> (Inl e, ax3)
                | (Inr merged, ax3) \<Rightarrow>
                    (let notes = [''resolver=token_overlap'', ''candidates='' @ dec_nat (length candidates), ''subjects='' @ join '','' candidates]
                     in (Inr (if merged = [] then empty_evidence notes
                              else \<lparr>ev_hits = merged, ev_stages = [''aphelion_v03_r4''], ev_notes = notes\<rparr>), ax3))))"

section \<open>The public read\<close>

definition record_error :: "read_error \<Rightarrow> apex \<Rightarrow> apex" where
  "record_error e ax = (case e of
     Unreachable reason \<Rightarrow> ax\<lparr>ax_read_errors := reason # ax_read_errors ax,
       ax_audit_write_failures := ax_audit_write_failures ax + (if reason = ''audit_db_write_failed'' then 1 else 0)\<rparr>
   | Unexpected \<Rightarrow> ax\<lparr>ax_read_errors := ''lib_error'' # ax_read_errors ax\<rparr>)"

definition apex_query :: "free_env \<Rightarrow> corpus \<Rightarrow> QueryRequest \<Rightarrow> apex \<Rightarrow> (read_error + RetrievalEvidence) \<times> apex" where
  "apex_query fe corpus req ax =
    (case (if explicit_subject req \<noteq> None then query_exact (fe_reads fe 0) corpus req (ax\<lparr>ax_scoped := None\<rparr>)
           else query_freetext fe corpus req (ax\<lparr>ax_scoped := None\<rparr>)) of
       (Inl e, ax1) \<Rightarrow> (Inl e, record_error e (ax1\<lparr>ax_error := ax_error ax1 + 1\<rparr>))
     | (Inr ev, ax1) \<Rightarrow>
         (let ax2 = ax1\<lparr>ax_success := ax_success ax1 + 1\<rparr> in
          (Inr ev, if ev_hits ev = []
            then ax2\<lparr>ax_empty_result := (if ax_last_corpus_empty ax2 then ''empty_corpus'' else ''no_matching_claim'') # ax_empty_result ax2\<rparr>
            else ax2)))"

section \<open>Fresh reads\<close>

text \<open>The identity of a package determines its content, as the index assumes.\<close>

definition package_entries :: "coercions \<Rightarrow> (PackageStat \<Rightarrow> package) \<Rightarrow> PackageStat \<Rightarrow> IndexEntry list" where
  "package_entries c content p = (case read_package_claims (content p) of Inl _ \<Rightarrow> []
     | Inr claims \<Rightarrow> entries_of_claims c (ps_name p) claims)"

lemma claim_entry_file: "claim_entry_of c name claim = Some e \<Longrightarrow> ie_package_file e = name"
  unfolding claim_entry_of_def by (simp split: option.splits json.splits if_splits) auto

lemma entries_of_claims_file: "e \<in> set (entries_of_claims c name claims) \<Longrightarrow> ie_package_file e = name"
  by (auto simp: entries_of_claims_def map_filter_def dest: claim_entry_file)

interpretation packages: package_corpus "package_entries c content" for c content
  by unfold_locales (auto simp: package_entries_def split: sum.splits dest: entries_of_claims_file)

lemma scan_tars_entries:
  "scan_tars c (map (\<lambda>p. (ps_name p, content p)) ps) = Inr es \<Longrightarrow> set es = (\<Union>p \<in> set ps. set (package_entries c content p))"
  by (induction ps arbitrary: es) (auto simp: and_then_Inr package_entries_def)

lemma empty_cache_right: "cache_right c entries_of empty_cache"
  by (simp add: cache_right_def empty_cache_def load_index_def)


definition demo_coercions :: coercions where
  "demo_coercions = \<lparr>repr_of = (\<lambda>_. []), int_of_text = (\<lambda>_. None), float_of_text = (\<lambda>_. None)\<rparr>"

definition demo_package :: package where
  "demo_package = \<lparr>pk_unpack = None, pk_verify = None, pk_signatures = None,
     pk_manifest = Some (JObj [(''package_id'', JStr ''p''), (''claims'', JList [JObj [(''path'', JStr ''c.md'')]])]),
     pk_claim = (\<lambda>_. ClaimText [(''subject'', JStr ''db''), (''claim_id'', JStr ''c'')] ''text'')\<rparr>"

abbreviation demo_claim :: row where
  "demo_claim \<equiv> [(''subject'', JStr ''db''), (''claim_id'', JStr ''c''), (''package_id'', JStr ''p''), (''body'', JStr ''text'')]"

lemma demo_package_claims: "read_package_claims demo_package = Inr [demo_claim]"
  by (simp add: read_package_claims_def project_claims_def demo_package_def jget_def jitems_def dict_set_def
    CLAIM_CONTENT_KEY_def and_then_def)

abbreviation demo_stat :: PackageStat where
  "demo_stat \<equiv> \<lparr>ps_name = ''a.aphelion.tar'', ps_size = 1, ps_mtime_ns = 2\<rparr>"

abbreviation demo_entry :: IndexEntry where
  "demo_entry \<equiv> \<lparr>ie_subject = ''db'', ie_package_id = ''p'', ie_claim_id = ''c'', ie_package_file = ''a.aphelion.tar''\<rparr>"

lemma demo_listing: "current_packages [(''a.aphelion.tar'', Some (1, 2))] = [demo_stat]"
  by (simp add: current_packages_def endswith_def startswith_def)

lemma demo_entries: "package_entries demo_coercions (\<lambda>_. demo_package) demo_stat = [demo_entry]"
  by (simp add: package_entries_def demo_package_claims entries_of_claims_def claim_entry_of_def map_filter_def py_or_empty_def to_str_def)


section \<open>Bad packages\<close>

lemma read_all_Inr: "read_all tars = Inr cs \<Longrightarrow>
    (\<forall>t \<in> set tars. ok (read_package_claims (snd t))) \<and>
    set cs = {c. \<exists>t \<in> set tars. \<exists>cs. read_package_claims (snd t) = Inr cs \<and> c \<in> set cs}"
  by (induction tars arbitrary: cs rule: read_all.induct) (auto simp: and_then_Inr)

lemma read_all_Inl:
  "read_all tars = Inl e \<longleftrightarrow> (\<exists>ys n p zs. tars = ys @ (n, p) # zs \<and> (\<forall>t \<in> set ys. ok (read_package_claims (snd t))) \<and>
     read_package_claims p = Inl e)" (is "?l tars \<longleftrightarrow> ?r tars")
proof
  show "?l tars \<Longrightarrow> ?r tars"
  proof (induction tars rule: read_all.induct)
    case (2 name p tars)
    show ?case
    proof (cases "read_package_claims p")
      case (Inl x)
      with 2 have "(name, p) # tars = [] @ (name, p) # tars" "x = e" by (simp_all add: and_then_def)
      with Inl show ?thesis by (intro exI [of _ "[]"] exI [of _ name] exI [of _ p] exI [of _ tars]) simp
    next
      case (Inr cs)
      with 2(2) have "?l tars" by (cases "read_all tars") (auto simp: and_then_def)
      with 2(1) obtain ys n q zs where "tars = ys @ (n, q) # zs"
        "\<forall>t \<in> set ys. ok (read_package_claims (snd t))" "read_package_claims q = Inl e" by blast
      with Inr show ?thesis by (intro exI [of _ "(name, p) # ys"]) auto
    qed
  qed simp
next
  assume "?r tars"
  then obtain ys n p zs where "tars = ys @ (n, p) # zs" "\<forall>t \<in> set ys. ok (read_package_claims (snd t))"
    "read_package_claims p = Inl e" by blast
  then show "?l tars"
  proof (induction ys arbitrary: tars)
    case (Cons t ys)
    then have "?l (ys @ (n, p) # zs)" by simp
    with Cons show ?case by (cases t; cases "read_package_claims (snd t)") (auto simp: and_then_def)
  qed (simp add: and_then_def)
qed

lemma package_error_typed: "read_package_claims p = Inl e \<Longrightarrow> \<exists>reason. e = Unreachable reason"
proof -
  have entries: "\<exists>reason. e = Unreachable reason" if "project_entries p pid es = Inl e" for pid es
    using that by (induction es) (auto simp: and_then_def split: option.splits json.splits claim_file.splits sum.splits)
  show "read_package_claims p = Inl e \<Longrightarrow> \<exists>reason. e = Unreachable reason"
    by (auto simp: read_package_claims_def project_claims_def split: option.splits dest: entries)
qed

text \<open>A read of a named subject fails when any package of the directory fails, with the reason of the first one
  in name order; nothing is added to the audit table and the failure is counted with its reason.\<close>

theorem bad_package_fails_read:
  assumes "explicit_subject req \<noteq> None" and "tars_of corpus = ys @ (n, p) # zs"
    and "\<forall>t \<in> set ys. ok (read_package_claims (snd t))" and "read_package_claims p = Inl e"
  shows "\<exists>reason ax'. e = Unreachable reason \<and> apex_query fe corpus req ax = (Inl (Unreachable reason), ax') \<and>
    ad_table (ax_adapter ax') = ad_table (ax_adapter ax) \<and> last_envelope (ax_adapter ax') = None \<and>
    ax_error ax' = ax_error ax + 1 \<and> ax_success ax' = ax_success ax \<and> ax_read_errors ax' = reason # ax_read_errors ax"
proof -
  from package_error_typed [OF assms(4)] obtain reason where e: "e = Unreachable reason" by blast
  have "read_all (tars_of corpus) = Inl e" using assms(2-4) by (auto simp: read_all_Inl)
  then show ?thesis using assms(1,2) e
    by (simp add: apex_query_def query_exact_def run_adapter_def load_candidate_claims_def adapter_query_def record_error_def Let_def)
qed

definition unsigned_package :: package where
  "unsigned_package = demo_package\<lparr>pk_verify := Some SignerRequired\<rparr>"

definition demo_free_env :: free_env where
  "demo_free_env = \<lparr>fe_reads = (\<lambda>_. demo_read_env), fe_coercions = demo_coercions,
     fe_listing = [(''a.aphelion.tar'', Some (1, 2))], fe_index_exists = False, fe_now = 0, fe_save_ok = True, fe_top_k = 8\<rparr>"

definition empty_apex :: apex where
  "empty_apex = \<lparr>ax_last_corpus_empty = False, ax_scoped = None, ax_adapter = empty_adapter, ax_index_file = NoFile, ax_success = 0,
     ax_error = 0, ax_read_errors = [], ax_empty_result = [], ax_empty_corpus = 0, ax_audit_write_failures = 0, ax_rebuilds = []\<rparr>"

definition demo_subject_query :: QueryRequest where
  "demo_subject_query = demo_query\<lparr>qr_params := Some [(''subject'', JStr ''db'')]\<rparr>"

lemma bad_package_fails_read_witness:
  "fst (apex_query demo_free_env [(''b.aphelion.tar'', unsigned_package), (''a.aphelion.tar'', demo_package)] demo_subject_query
     empty_apex) = Inl (Unreachable ''unsigned_package'')"
proof -
  let ?tars = "[(''b.aphelion.tar'', unsigned_package), (''a.aphelion.tar'', demo_package)]"
  have t: "tars_of ?tars = [(''a.aphelion.tar'', demo_package)] @ (''b.aphelion.tar'', unsigned_package) # []"
    by (simp add: tars_of_def endswith_def startswith_def less_eq_list_code)
  have p: "read_package_claims unsigned_package = Inl (Unreachable ''unsigned_package'')"
    by (simp add: read_package_claims_def unsigned_package_def demo_package_def classify_package_exception_def)
  have "explicit_subject demo_subject_query \<noteq> None" by (simp add: explicit_subject_def demo_subject_query_def)
  from bad_package_fails_read [OF this t _ p, of demo_free_env empty_apex] show ?thesis
    by (auto simp: demo_package_claims)
qed

section \<open>Hits\<close>

lemma merge_hits_sound:
  assumes "merge_hits merged seen hits = (merged', seen')"
    and "set seen = {i. i \<noteq> [] \<and> i \<in> hit_id ` set merged}" "distinct (filter ((\<noteq>) []) (map hit_id merged))"
  shows "set merged' \<subseteq> set merged \<union> set hits \<and> set seen' = {i. i \<noteq> [] \<and> i \<in> hit_id ` set merged'} \<and>
    distinct (filter ((\<noteq>) []) (map hit_id merged')) \<and> hit_id ` (set merged \<union> set hits) \<subseteq> hit_id ` set merged'"
  using assms
proof (induction merged seen hits rule: merge_hits.induct)
  case (2 merged seen hit hits)
  show ?case
  proof (cases "hit_id hit \<noteq> [] \<and> hit_id hit \<in> set seen")
    case True
    with 2(1) [OF refl True] 2(3-) have IH: "set merged' \<subseteq> set merged \<union> set hits"
      "set seen' = {i. i \<noteq> [] \<and> i \<in> hit_id ` set merged'}" "distinct (filter ((\<noteq>) []) (map hit_id merged'))"
      "hit_id ` (set merged \<union> set hits) \<subseteq> hit_id ` set merged'"
      by simp_all
    have "hit_id hit \<in> hit_id ` set merged'" using True 2(4) IH(4) by blast
    with IH show ?thesis by (intro conjI) (simp_all, blast+)
  next
    case False
    let ?seen = "if hit_id hit \<noteq> [] then hit_id hit # seen else seen"
    have "set ?seen = {i. i \<noteq> [] \<and> i \<in> hit_id ` set (merged @ [hit])}" using 2(4) by auto
    moreover have "hit_id hit = [] \<or> hit_id hit \<notin> hit_id ` set merged" using 2(4) False by blast
    then have "distinct (filter ((\<noteq>) []) (map hit_id (merged @ [hit])))" using 2(5) by auto
    moreover have "merge_hits (merged @ [hit]) ?seen hits = (merged', seen')"
      using 2(3) by (simp only: merge_hits.simps Let_def False if_False)
    ultimately have IH: "set merged' \<subseteq> set (merged @ [hit]) \<union> set hits"
      "set seen' = {i. i \<noteq> [] \<and> i \<in> hit_id ` set merged'}" "distinct (filter ((\<noteq>) []) (map hit_id merged'))"
      "hit_id ` (set (merged @ [hit]) \<union> set hits) \<subseteq> hit_id ` set merged'"
      using 2(2) [OF refl False] by simp_all
    then show ?thesis by (intro conjI) (simp_all, blast?)
  qed
qed auto

text \<open>What a read leaves alone: every counter but those of the empty corpus and the rebuilds.\<close>

definition quiet :: "apex \<Rightarrow> apex \<Rightarrow> bool" where
  "quiet ax ax' \<longleftrightarrow> ax_success ax' = ax_success ax \<and> ax_error ax' = ax_error ax \<and> ax_read_errors ax' = ax_read_errors ax \<and>
     ax_empty_result ax' = ax_empty_result ax \<and> (\<exists>rows. ad_table (ax_adapter ax') = ad_table (ax_adapter ax) @ rows)"

lemma quiet_refl [simp]: "quiet ax ax" and quiet_trans: "quiet a b \<Longrightarrow> quiet b c \<Longrightarrow> quiet a c"
  by (auto simp: quiet_def)

lemma run_adapter_quiet:
  assumes "run_adapter env corpus req ax = (res, ax')"
  shows "quiet ax ax'"
proof -
  obtain loaded ax1 where l: "load_candidate_claims corpus ax = (loaded, ax1)" by (cases "load_candidate_claims corpus ax")
  then have q: "quiet ax ax1" by (auto simp: load_candidate_claims_def quiet_def Let_def split: if_splits)
  obtain ad where a: "adapter_query env req loaded (ax_adapter ax1) = (res, ad)" and ax': "ax' = ax1\<lparr>ax_adapter := ad\<rparr>"
    using assms l by (auto simp: run_adapter_def Let_def split: prod.splits)
  from adapter_query_backed [OF a] have "quiet ax1 ax'" by (auto simp: quiet_def ax')
  with q show ?thesis by (rule quiet_trans)
qed

lemma read_candidates_quiet: "read_candidates env i corpus ix req ss merged seen ax = (res, ax') \<Longrightarrow> quiet ax ax'"
proof (induction env i corpus ix req ss merged seen ax rule: read_candidates.induct)
  case (2 env i corpus ix req s ss merged seen ax)
  let ?ax1 = "ax\<lparr>ax_scoped := Some (packages_for_subject ix s)\<rparr>"
  have q: "quiet ax ?ax1" by (simp add: quiet_def)
  show ?case
  proof (cases "packages_for_subject ix s = []")
    case True
    with 2(3) have "read_candidates env i corpus ix req ss merged seen ?ax1 = (res, ax')" by simp
    from 2(1) [OF refl True this] q show ?thesis by (rule quiet_trans [rotated])
  next
    case False
    obtain r ax2 where r: "run_adapter (env i) corpus (with_subject req s) ?ax1 = (r, ax2)"
      by (cases "run_adapter (env i) corpus (with_subject req s) ?ax1")
    have q2: "quiet ax ax2" by (rule quiet_trans [OF q run_adapter_quiet [OF r]])
    show ?thesis
    proof (cases r)
      case (Inl e)
      with 2(3) False r q2 show ?thesis by simp
    next
      case (Inr ev)
      obtain m' s' where m: "merge_hits merged seen (ev_hits ev) = (m', s')" by (cases "merge_hits merged seen (ev_hits ev)")
      have "read_candidates env (Suc i) corpus ix req ss m' s' ax2 = (res, ax')" using 2(3) False r Inr m by simp
      from 2(2) [OF refl False _ _ m [symmetric] refl this] r Inr have "quiet ax2 ax'" by simp
      with q2 show ?thesis by (rule quiet_trans)
    qed
  qed
qed simp

lemma query_quiet:
  assumes "(if explicit_subject req \<noteq> None then query_exact env corpus req ax else query_freetext fe corpus req ax) = (res, ax')"
  shows "quiet ax ax'"
proof (cases "explicit_subject req \<noteq> None")
  case True
  with assms have "run_adapter env corpus req (ax\<lparr>ax_scoped := None\<rparr>) = (res, ax')" by (simp add: query_exact_def)
  from run_adapter_quiet [OF this] show ?thesis by (simp add: quiet_def)
next
  case False
  with assms have run: "query_freetext fe corpus req ax = (res, ax')" by simp
  let ?idx = "load_or_rebuild (fe_coercions fe) (fe_listing fe) (as_kernel (scan_index_entries (fe_coercions fe) corpus))
    (fe_index_exists fe) (fe_now fe) (ax_index_file ax)"
  show ?thesis
  proof (cases ?idx)
    case (Inl e)
    with run show ?thesis by (simp add: query_freetext_def)
  next
    case (Inr p)
    obtain ix t where p: "p = (ix, t)" by (cases p)
    let ?ax1 = "case t of None \<Rightarrow> ax | Some trigger \<Rightarrow>
      ax\<lparr>ax_index_file := (if fe_save_ok fe then save_index ix else ax_index_file ax), ax_rebuilds := trigger # ax_rebuilds ax\<rparr>"
    let ?ax2 = "?ax1\<lparr>ax_last_corpus_empty := index_is_empty ix\<rparr>"
    let ?cands = "map scored_subject (resolve_subjects (qr_q req) (index_subjects ix) (fe_top_k fe))"
    have q: "quiet ax ?ax2" by (simp add: quiet_def split: option.split)
    show ?thesis
    proof (cases "index_is_empty ix \<or> ?cands = []")
      case True
      with run Inr p have "ax' \<in> {?ax2, ?ax2\<lparr>ax_empty_corpus := ax_empty_corpus ?ax2 + 1\<rparr>}"
        by (cases "index_is_empty ix") (simp_all add: query_freetext_def Let_def)
      with q show ?thesis by (auto simp: quiet_def)
    next
      case False
      obtain r ax3 where read: "read_candidates (fe_reads fe) 0 corpus ix req ?cands [] [] ?ax2 = (r, ax3)"
        by (metis surj_pair)
      with run Inr p False have "ax' = ax3" by (cases r) (simp_all add: query_freetext_def Let_def)
      with quiet_trans [OF q read_candidates_quiet [OF read]] show ?thesis by simp
    qed
  qed
qed

text \<open>Every call is counted once: as a success exactly when it returns, as an error with one reason exactly when
  it raises, and as an empty result exactly when it returns without hits; the audit table only ever grows.\<close>

theorem apex_query_counted:
  assumes "apex_query fe corpus req ax = (res, ax')"
  shows "ax_success ax' = ax_success ax + of_bool (ok res) \<and> ax_error ax' = ax_error ax + of_bool (\<not> ok res) \<and>
    length (ax_read_errors ax') = length (ax_read_errors ax) + of_bool (\<not> ok res) \<and>
    length (ax_empty_result ax') = length (ax_empty_result ax) + of_bool (\<exists>ev. res = Inr ev \<and> ev_hits ev = []) \<and>
    (\<exists>rows. ad_table (ax_adapter ax') = ad_table (ax_adapter ax) @ rows)"
proof -
  let ?ax = "ax\<lparr>ax_scoped := None\<rparr>"
  obtain r ax1 where run: "(if explicit_subject req \<noteq> None then query_exact (fe_reads fe 0) corpus req ?ax
      else query_freetext fe corpus req ?ax) = (r, ax1)"
    by (metis surj_pair)
  from query_quiet [OF this] have q: "quiet ax ax1" by (simp add: quiet_def)
  show ?thesis
  proof (cases r)
    case (Inl e)
    with assms run have "res = Inl e" "ax' = record_error e (ax1\<lparr>ax_error := ax_error ax1 + 1\<rparr>)"
      by (simp_all add: apex_query_def)
    with q show ?thesis by (auto simp: quiet_def record_error_def split: read_error.splits)
  next
    case (Inr ev)
    with assms run have "res = Inr ev" "ax' = (let ax2 = ax1\<lparr>ax_success := ax_success ax1 + 1\<rparr> in if ev_hits ev = []
      then ax2\<lparr>ax_empty_result := (if ax_last_corpus_empty ax2 then ''empty_corpus'' else ''no_matching_claim'') # ax_empty_result ax2\<rparr>
      else ax2)"
      by (simp_all add: apex_query_def Let_def)
    with q show ?thesis by (simp add: quiet_def Let_def)
  qed
qed

lemma apex_query_counted_witness:
  "\<exists>res ax'. apex_query demo_free_env [] demo_subject_query empty_apex = (res, ax') \<and> ax_success ax' = 1 \<and>
     length (ax_empty_result ax') = 1"
proof -
  obtain res ax' where run: "apex_query demo_free_env [] demo_subject_query empty_apex = (res, ax')" by (metis surj_pair)
  have "explicit_subject demo_subject_query \<noteq> None" by (simp add: explicit_subject_def demo_subject_query_def)
  then have "\<exists>ev. res = Inr ev \<and> ev_hits ev = []"
    using run by (auto simp: apex_query_def query_exact_def run_adapter_def load_candidate_claims_def tars_of_def adapter_query_def
      run_reader_def evidence_of_def demo_free_env_def demo_read_env_def demo_lib_def and_then_def Let_def split: prod.splits)
  with apex_query_counted [OF run] run show ?thesis by (auto simp: empty_apex_def)
qed

text \<open>A hit is built from a claim of a package of the directory that passed every check.\<close>

definition from_corpus :: "corpus \<Rightarrow> row \<Rightarrow> bool" where
  "from_corpus corpus hit \<longleftrightarrow> (\<exists>t \<in> set (tars_of corpus). \<exists>cs. read_package_claims (snd t) = Inr cs \<and> (\<exists>claim \<in> set cs. hit = build_hit claim))"

text \<open>What the code relies on: the reader of the library surfaces only claims it was given.\<close>

definition surfaces_given :: "r4_lib \<Rightarrow> bool" where
  "surfaces_given lib \<longleftrightarrow> (\<forall>s cs r. r4_query lib s cs = Inr r \<longrightarrow> set (r4_surfaced r) \<subseteq> set cs)"

lemma loaded_claims:
  assumes "load_candidate_claims corpus ax = (Inr cs, ax')" "claim \<in> set cs"
  shows "from_corpus corpus (build_hit claim)"
proof -
  obtain tars where t: "set tars \<subseteq> set (tars_of corpus)" "read_all tars = Inr cs"
  proof (cases "tars_of corpus = []")
    case True
    with assms have "read_all [] = Inr cs" by (simp add: load_candidate_claims_def Let_def)
    then show ?thesis using that [of "[]"] by simp
  next
    case False
    let ?t = "case ax_scoped ax of None \<Rightarrow> tars_of corpus | Some names \<Rightarrow> filter (\<lambda>t. fst t \<in> set names) (tars_of corpus)"
    have "set ?t \<subseteq> set (tars_of corpus)" by (cases "ax_scoped ax") auto
    moreover have "read_all ?t = Inr cs" using assms False by (simp add: load_candidate_claims_def Let_def)
    ultimately show ?thesis by (rule that)
  qed
  from read_all_Inr [OF t(2)] assms(2) t(1) show ?thesis unfolding from_corpus_def by blast
qed

lemma run_adapter_hits:
  assumes "run_adapter env corpus req ax = (Inr ev, ax')" "surfaces_given (re_lib env)" "hit \<in> set (ev_hits ev)"
  shows "from_corpus corpus hit"
proof -
  obtain loaded ax1 where l: "load_candidate_claims corpus ax = (loaded, ax1)" by (cases "load_candidate_claims corpus ax")
  obtain ad where a: "adapter_query env req loaded (ax_adapter ax1) = (Inr ev, ad)"
    using assms(1) l by (auto simp: run_adapter_def split: prod.splits)
  from adapter_query_hits [OF a] obtain cs r where r: "loaded = Inr cs"
    "r4_query (re_lib env) (resolve_subject req) cs = Inr r" "ev = evidence_of r" by blast
  with assms(3) obtain claim where "claim \<in> set (r4_surfaced r)" "hit = build_hit claim" by (auto simp: evidence_of_def)
  moreover from this r assms(2) have "claim \<in> set cs" by (auto simp: surfaces_given_def)
  ultimately show ?thesis using loaded_claims l r(1) by simp
qed

definition merged_ok :: "corpus \<Rightarrow> row list \<Rightarrow> pystr list \<Rightarrow> bool" where
  "merged_ok corpus merged seen \<longleftrightarrow> (\<forall>hit \<in> set merged. from_corpus corpus hit) \<and>
     set seen = {i. i \<noteq> [] \<and> i \<in> hit_id ` set merged} \<and> distinct (filter ((\<noteq>) []) (map hit_id merged))"

lemma read_candidates_merged:
  "read_candidates env i corpus ix req ss merged seen ax = (Inr out, ax') \<Longrightarrow> (\<And>i. surfaces_given (re_lib (env i))) \<Longrightarrow>
   merged_ok corpus merged seen \<Longrightarrow> \<exists>seen'. merged_ok corpus out seen'"
proof (induction env i corpus ix req ss merged seen ax rule: read_candidates.induct)
  case (2 env i corpus ix req s ss merged seen ax)
  let ?ax1 = "ax\<lparr>ax_scoped := Some (packages_for_subject ix s)\<rparr>"
  show ?case
  proof (cases "packages_for_subject ix s = []")
    case True
    with 2(3) have "read_candidates env i corpus ix req ss merged seen ?ax1 = (Inr out, ax')" by simp
    from 2(1) [OF refl True this 2(4,5)] show ?thesis .
  next
    case False
    obtain r ax2 where r: "run_adapter (env i) corpus (with_subject req s) ?ax1 = (r, ax2)"
      by (cases "run_adapter (env i) corpus (with_subject req s) ?ax1")
    then obtain ev where ev: "r = Inr ev" using 2(3) False by (cases r) simp_all
    obtain m' s' where m: "merge_hits merged seen (ev_hits ev) = (m', s')" by (cases "merge_hits merged seen (ev_hits ev)")
    have "merged_ok corpus m' s'"
    proof -
      have hits: "\<forall>hit \<in> set (ev_hits ev). from_corpus corpus hit" using run_adapter_hits [OF r [unfolded ev] 2(4)] by blast
      from 2(5) have old: "\<forall>hit \<in> set merged. from_corpus corpus hit" "set seen = {i. i \<noteq> [] \<and> i \<in> hit_id ` set merged}"
        "distinct (filter ((\<noteq>) []) (map hit_id merged))" unfolding merged_ok_def by blast+
      from merge_hits_sound [OF m old(2,3)] hits old(1) show ?thesis unfolding merged_ok_def by blast
    qed
    moreover have "read_candidates env (Suc i) corpus ix req ss m' s' ax2 = (Inr out, ax')" using 2(3) False r ev m by simp
    ultimately show ?thesis using 2(2) [OF refl False r [symmetric, unfolded ev] refl m [symmetric] refl] 2(4) by blast
  qed
qed auto

text \<open>C15: a read never invents a hit: each is built from a claim of a package of the directory that passed every
  check; and a free-text read, which merges the reads of several subjects, returns no claim id twice.\<close>

theorem hits_genuine:
  assumes "apex_query fe corpus req ax = (Inr ev, ax')" and "\<forall>i. surfaces_given (re_lib (fe_reads fe i))"
  shows "(\<forall>hit \<in> set (ev_hits ev). from_corpus corpus hit) \<and>
    (explicit_subject req = None \<longrightarrow> distinct (filter ((\<noteq>) []) (map hit_id (ev_hits ev))))"
proof (cases "explicit_subject req = None")
  case False
  then obtain ax1 where "run_adapter (fe_reads fe 0) corpus req (ax\<lparr>ax_scoped := None\<rparr>) = (Inr ev, ax1)"
    using assms(1) by (auto simp: apex_query_def query_exact_def Let_def split: sum.splits prod.splits)
  from run_adapter_hits [OF this] assms(2) False show ?thesis by blast
next
  case True
  let ?ax = "ax\<lparr>ax_scoped := None\<rparr>"
  obtain ax1 where run: "query_freetext fe corpus req ?ax = (Inr ev, ax1)"
    using assms(1) True by (cases "query_freetext fe corpus req ?ax" ) (auto simp: apex_query_def Let_def split: sum.splits prod.splits)
  obtain ix t where idx: "load_or_rebuild (fe_coercions fe) (fe_listing fe) (as_kernel (scan_index_entries (fe_coercions fe) corpus))
      (fe_index_exists fe) (fe_now fe) (ax_index_file ?ax) = Inr (ix, t)"
    using run by (auto simp: query_freetext_def split: sum.splits)
  let ?cands = "map scored_subject (resolve_subjects (qr_q req) (index_subjects ix) (fe_top_k fe))"
  show ?thesis
  proof (cases "index_is_empty ix \<or> ?cands = []")
    case True
    with run idx have "ev_hits ev = []"
      by (cases "index_is_empty ix") (auto simp: query_freetext_def empty_evidence_def Let_def)
    then show ?thesis by simp
  next
    case False
    let ?ax2 = "(case t of None \<Rightarrow> ?ax | Some trigger \<Rightarrow>
      ?ax\<lparr>ax_index_file := (if fe_save_ok fe then save_index ix else ax_index_file ?ax), ax_rebuilds := trigger # ax_rebuilds ?ax\<rparr>)
      \<lparr>ax_last_corpus_empty := index_is_empty ix\<rparr>"
    obtain r ax3 where read: "read_candidates (fe_reads fe) 0 corpus ix req ?cands [] [] ?ax2 = (r, ax3)"
      by (metis surj_pair)
    with run idx False obtain merged where m: "r = Inr merged" "ev_hits ev = merged"
      by (cases r) (auto simp: query_freetext_def empty_evidence_def Let_def split: if_splits)
    have "merged_ok corpus [] []" by (simp add: merged_ok_def)
    from read_candidates_merged [OF read [unfolded m(1)] _ this] assms(2) m(2) show ?thesis by (auto simp: merged_ok_def)
  qed
qed

definition plain_package :: package where
  "plain_package = demo_package\<lparr>pk_claim := (\<lambda>_. ClaimText [(''subject'', JStr ''db'')] ''text'')\<rparr>"

lemma hits_genuine_witness:
  "\<exists>ev ax'. apex_query demo_free_env [(''a.aphelion.tar'', plain_package)] demo_subject_query empty_apex = (Inr ev, ax') \<and>
     length (ev_hits ev) = 1 \<and> (\<forall>hit \<in> set (ev_hits ev). from_corpus [(''a.aphelion.tar'', plain_package)] hit)"
proof -
  let ?c = "[(''subject'', JStr ''db''), (''package_id'', JStr ''p''), (''body'', JStr ''text'')] :: row"
  have t: "tars_of [(''a.aphelion.tar'', plain_package)] = [(''a.aphelion.tar'', plain_package)]"
    by (simp add: tars_of_def endswith_def startswith_def)
  have p: "read_package_claims plain_package = Inr [?c]"
    by (simp add: read_package_claims_def project_claims_def plain_package_def demo_package_def jget_def jitems_def dict_set_def
      CLAIM_CONTENT_KEY_def and_then_def)
  have "explicit_subject demo_subject_query \<noteq> None" by (simp add: explicit_subject_def demo_subject_query_def)
  then obtain ax' where run: "apex_query demo_free_env [(''a.aphelion.tar'', plain_package)] demo_subject_query empty_apex =
      (Inr \<lparr>ev_hits = [build_hit ?c], ev_stages = [''aphelion_v03_r4''], ev_notes = [''conflict_class=none'']\<rparr>, ax')"
    by (simp add: apex_query_def query_exact_def run_adapter_def load_candidate_claims_def t p adapter_query_def
      run_reader_def evidence_of_def demo_free_env_def demo_read_env_def demo_lib_def and_then_def string_field_def
      empty_apex_def Let_def)
  have "\<forall>i. surfaces_given (re_lib (fe_reads demo_free_env i))"
    by (auto simp: surfaces_given_def demo_free_env_def demo_read_env_def demo_lib_def split: list.splits)
  from hits_genuine [OF run this] run show ?thesis by auto
qed

end
