(* ===== verification/Aphelion_Ingest.thy ===== *)
theory Aphelion_Ingest
  imports Apex_Router
begin

text \<open>
  \<^verbatim>\<open>apex/aphelion_ingest.py\<close>: one package becomes one batch of audit rows. What the file system says of a path is
  a record of answers; the verifier, the unpacker and the parsers of the \<^verbatim>\<open>aphelion\<close> library are the parameter
  \<open>ingest_lib\<close>. Proved: a package is ingested only if its single signer is in the trust store, then with exactly
  one valid row for each claim in order, and any failure leaves the audit table and the index as they were; and the
  entries that ingest adds to the index are those a rebuild would find.
\<close>

section \<open>Errors\<close>

definition REASON_TO_EXIT :: "(pystr \<times> nat) list" where
  "REASON_TO_EXIT =
    [(''pkg.not_found'', 65), (''pkg.not_regular_file'', 65), (''pkg.extension_invalid'', 65), (''pkg.path_escape'', 65),
     (''pkg.archive_unsafe'', 65), (''pkg.semantic_invalid'', 65), (''pkg.hash_mismatch'', 65), (''pkg.unsigned'', 65),
     (''pkg.empty_package'', 65), (''pkg.trust_store_missing'', 78), (''pkg.dir_unset'', 78), (''pkg.idempotency_duplicate'', 70),
     (''signer.signature_invalid'', 65), (''signer.untrusted'', 65), (''signer.manifest_missing'', 65),
     (''signer.multi_sig_unsupported'', 65), (''signer.trust_pem_invalid'', 78),
     (''claim.format_invalid'', 65), (''claim.duplicate_in_package'', 65), (''claim.subject_required_for_r4'', 65),
     (''disk.permission'', 71), (''disk.audit_db_write_failed'', 71), (''disk.audit_db_unset'', 78),
     (''disk.audit_db_unsafe_path'', 78)]"

text \<open>\<open>Ingest\<close> is a \<^verbatim>\<open>ParallaxIngestError\<close>; \<open>Escaped\<close> any other exception that leaves the function.\<close>

datatype ingest_error = Ingest (reason_code: pystr) (exit_code: nat) | Escaped

definition ParallaxIngestError :: "pystr \<Rightarrow> ingest_error" where
  "ParallaxIngestError reason = (case map_of REASON_TO_EXIT reason of None \<Rightarrow> Escaped | Some n \<Rightarrow> Ingest reason n)"

abbreviation fail :: "pystr \<Rightarrow> ingest_error + 'a" where
  "fail reason \<equiv> Inl (ParallaxIngestError reason)"

section \<open>Paths\<close>

record dir_arg =
  da_is_path :: bool
  da_absolute :: bool
  da_dotdot :: bool
  da_resolves :: bool
  da_exists :: bool
  da_is_dir :: bool
  da_readable :: bool

definition validate_dir_arg :: "dir_arg \<Rightarrow> pystr \<Rightarrow> ingest_error + unit" where
  "validate_dir_arg a dir_unset_code =
    (if \<not> da_is_path a then fail dir_unset_code else if \<not> da_absolute a then fail dir_unset_code
     else if da_dotdot a then fail dir_unset_code else if \<not> da_resolves a then fail dir_unset_code
     else if \<not> da_exists a then fail dir_unset_code else if \<not> da_is_dir a then fail dir_unset_code
     else if \<not> da_readable a then fail dir_unset_code else Inr ())"

text \<open>\<open>pp_inside\<close>: the resolved path is under the resolved package directory.\<close>

record package_path =
  pp_text :: pystr
  pp_resolves :: bool
  pp_inside :: bool
  pp_symlink :: bool
  pp_exists :: bool
  pp_is_file :: bool
  pp_resolved :: pystr
  pp_name :: pystr

definition validate_package_path :: "package_path \<Rightarrow> ingest_error + unit" where
  "validate_package_path p =
    (if \<not> pp_resolves p then fail ''pkg.path_escape''
     else if \<not> pp_inside p then fail ''pkg.path_escape''
     else if \<not> endswith (pp_text p) ''.aphelion.tar'' then fail ''pkg.extension_invalid''
     else if pp_symlink p then fail ''pkg.not_regular_file''
     else if \<not> pp_exists p then fail ''pkg.not_found''
     else if \<not> pp_is_file p then fail ''pkg.not_regular_file''
     else Inr ())"

section \<open>Trust\<close>

datatype pem_file = PemPermission | PemOsError | PemBytes pystr

definition is_pem :: "pystr \<Rightarrow> bool" where
  "is_pem name \<longleftrightarrow> endswith name ''.pem'' \<and> 4 < length name"

fun load_pems :: "(pystr \<Rightarrow> pystr) \<Rightarrow> pem_file list \<Rightarrow> ingest_error + pystr list" where
  "load_pems fp [] = Inr []"
| "load_pems fp (PemPermission # pems) = fail ''disk.permission''"
| "load_pems fp (PemOsError # pems) = fail ''signer.trust_pem_invalid''"
| "load_pems fp (PemBytes raw # pems) =
    (if raw = [] then fail ''signer.trust_pem_invalid'' else and_then (load_pems fp pems) (\<lambda>fs. Inr (fp raw # fs)))"

text \<open>The files of the trust store; \<open>None\<close>: the directory cannot be listed.\<close>

definition load_trust_store :: "(pystr \<Rightarrow> pystr) \<Rightarrow> (pystr \<times> pem_file) list option \<Rightarrow> ingest_error + pystr list" where
  "load_trust_store fp files = (case files of None \<Rightarrow> fail ''disk.permission''
     | Some fs \<Rightarrow> load_pems fp (map snd (sort_key fst (filter (\<lambda>f. is_pem (fst f)) fs))))"

record TrustDecision =
  td_signer_id :: pystr
  td_accepted :: bool
  td_reason_code :: "pystr option"

definition accepted_for :: "pystr \<Rightarrow> TrustDecision" where
  "accepted_for s = \<lparr>td_signer_id = s, td_accepted = True, td_reason_code = None\<rparr>"

definition rejected_for :: "pystr \<Rightarrow> pystr \<Rightarrow> TrustDecision" where
  "rejected_for s reason = \<lparr>td_signer_id = s, td_accepted = False, td_reason_code = Some reason\<rparr>"

section \<open>The library\<close>

datatype verify_exc = VFileNotFound | VPermission | VSecurity | VVerification | VSemantic | VSignerRequired | VSigner
  | VSubjectRequired | VSchema | VOsError | VOther

datatype unpack_exc = USecurity | UPermission | UTar | UOsError | UOther

datatype manifest_read = MMissing | MUnreadable | MBytes pystr

datatype claim_read = CPermission | COsError | CNotUtf8 | CText pystr

datatype v03_exc = V3SubjectRequired | V3Schema | V3Other

record sig_envelope =
  sg_signer_id :: pystr
  sg_package_canonical_hash :: pystr

record ingest_lib =
  il_verify :: "verify_exc + sig_envelope list"
  il_signer_manifests :: "(pystr \<Rightarrow> pystr option) option"
  il_canonical_loads :: "pystr \<Rightarrow> json option"
  il_fingerprint :: "pystr \<Rightarrow> pystr"
  il_unpack :: "unpack_exc option"
  il_manifest :: manifest_read
  il_claim :: "pystr \<Rightarrow> claim_read"
  il_frontmatter :: "pystr \<Rightarrow> row option"
  il_validate_v03 :: "row \<Rightarrow> pystr \<Rightarrow> v03_exc option"

definition run_aphelion_verify :: "ingest_lib \<Rightarrow> ingest_error + sig_envelope list" where
  "run_aphelion_verify lib = (case il_verify lib of Inr envs \<Rightarrow> Inr envs
     | Inl e \<Rightarrow> (case e of VFileNotFound \<Rightarrow> fail ''pkg.not_found'' | VPermission \<Rightarrow> fail ''disk.permission''
        | VSecurity \<Rightarrow> fail ''pkg.archive_unsafe'' | VVerification \<Rightarrow> fail ''pkg.hash_mismatch''
        | VSemantic \<Rightarrow> fail ''pkg.semantic_invalid'' | VSignerRequired \<Rightarrow> fail ''pkg.unsigned''
        | VSigner \<Rightarrow> fail ''signer.signature_invalid'' | VSubjectRequired \<Rightarrow> fail ''claim.subject_required_for_r4''
        | VSchema \<Rightarrow> fail ''claim.format_invalid'' | VOsError \<Rightarrow> fail ''disk.permission'' | VOther \<Rightarrow> Inl Escaped))"

text \<open>The fingerprint that a signer manifest records; the code's \<^verbatim>\<open>SignerManifest\<close> only holds its fields.\<close>

definition parse_signer_manifest :: "ingest_lib \<Rightarrow> pystr \<Rightarrow> ingest_error + json" where
  "parse_signer_manifest lib bytes = (case il_canonical_loads lib bytes of None \<Rightarrow> fail ''signer.signature_invalid''
     | Some (JObj raw) \<Rightarrow>
        if list_ex (\<lambda>k. map_of raw k = None) [''signer_id'', ''algorithm'', ''public_key_b64'', ''key_fingerprint'']
        then fail ''signer.signature_invalid'' else Inr (the (map_of raw ''key_fingerprint''))
     | Some _ \<Rightarrow> fail ''signer.signature_invalid'')"

text \<open>\<^verbatim>\<open>in\<close> a set of texts: a list or an object is not hashable.\<close>

definition in_texts :: "json \<Rightarrow> pystr list \<Rightarrow> bool option" where
  "in_texts j xs = (case j of JStr s \<Rightarrow> Some (s \<in> set xs) | JList _ \<Rightarrow> None | JObj _ \<Rightarrow> None | _ \<Rightarrow> Some False)"

fun trust_decisions :: "ingest_lib \<Rightarrow> (pystr \<Rightarrow> pystr option) \<Rightarrow> pystr list \<Rightarrow> sig_envelope list \<Rightarrow> ingest_error + TrustDecision list" where
  "trust_decisions lib manifests trusted [] = Inr []"
| "trust_decisions lib manifests trusted (env # envs) =
    and_then
      (case manifests (sg_signer_id env) of None \<Rightarrow> Inr (rejected_for (sg_signer_id env) ''signer.manifest_missing'')
       | Some bytes \<Rightarrow> and_then (parse_signer_manifest lib bytes) (\<lambda>kf.
           case in_texts kf trusted of None \<Rightarrow> Inl Escaped
           | Some False \<Rightarrow> Inr (rejected_for (sg_signer_id env) ''signer.untrusted'')
           | Some True \<Rightarrow> Inr (accepted_for (sg_signer_id env))))
      (\<lambda>d. and_then (trust_decisions lib manifests trusted envs) (\<lambda>ds. Inr (d # ds)))"

definition verify_trust :: "ingest_lib \<Rightarrow> sig_envelope list \<Rightarrow> pystr list \<Rightarrow> ingest_error + TrustDecision list" where
  "verify_trust lib envs trusted = (case il_signer_manifests lib of None \<Rightarrow> Inl Escaped
     | Some manifests \<Rightarrow> trust_decisions lib manifests trusted envs)"

fun enforce :: "TrustDecision list \<Rightarrow> ingest_error + unit" where
  "enforce [] = Inr ()"
| "enforce (d # ds) = (if td_accepted d then enforce ds
     else case td_reason_code d of None \<Rightarrow> Inl Escaped | Some r \<Rightarrow> fail r)"

section \<open>Claims\<close>

definition read_claim_frontmatter :: "ingest_lib \<Rightarrow> pystr \<Rightarrow> ingest_error + row" where
  "read_claim_frontmatter lib path = (case il_claim lib path of CPermission \<Rightarrow> fail ''disk.permission''
     | COsError \<Rightarrow> fail ''claim.format_invalid'' | CNotUtf8 \<Rightarrow> Inl Escaped
     | CText t \<Rightarrow> (case il_frontmatter lib t of None \<Rightarrow> fail ''claim.format_invalid'' | Some fm \<Rightarrow> Inr fm))"

definition text_at :: "pystr \<Rightarrow> row \<Rightarrow> pystr option" where
  "text_at k fm = Option.bind (map_of fm k) as_text"

definition claim_dup_key :: "row \<Rightarrow> (pystr \<times> pystr \<times> pystr) option" where
  "claim_dup_key fm = Option.bind (text_at ''subject'' fm) (\<lambda>s. Option.bind (text_at ''polarity'' fm) (\<lambda>p.
     Option.bind (text_at ''valid_from'' fm) (\<lambda>v. Some (s, p, v))))"

fun validate_and_check_duplicates ::
  "ingest_lib \<Rightarrow> (pystr \<times> pystr \<times> pystr) list \<Rightarrow> (pystr \<times> row) list \<Rightarrow> ingest_error + unit" where
  "validate_and_check_duplicates lib seen [] = Inr ()"
| "validate_and_check_duplicates lib seen ((claim_id, fm) # rest) =
    (case il_validate_v03 lib fm claim_id of
       Some V3SubjectRequired \<Rightarrow> fail ''claim.subject_required_for_r4''
     | Some V3Schema \<Rightarrow> fail ''claim.format_invalid''
     | Some V3Other \<Rightarrow> Inl Escaped
     | None \<Rightarrow> (case claim_dup_key fm of None \<Rightarrow> validate_and_check_duplicates lib seen rest
         | Some key \<Rightarrow> if key \<in> set seen then fail ''claim.duplicate_in_package''
             else validate_and_check_duplicates lib (key # seen) rest))"

fun parse_claims :: "ingest_lib \<Rightarrow> json list \<Rightarrow> ingest_error + (pystr \<times> row) list" where
  "parse_claims lib [] = Inr []"
| "parse_claims lib (entry # entries) =
    (case entry of JObj _ \<Rightarrow>
       (case (Option.bind (jget ''claim_id'' entry) as_text, Option.bind (jget ''path'' entry) as_text) of
          (Some claim_id, Some rel_path) \<Rightarrow> and_then (read_claim_frontmatter lib rel_path) (\<lambda>fm.
            and_then (parse_claims lib entries) (\<lambda>rest. Inr ((claim_id, fm) # rest)))
        | _ \<Rightarrow> fail ''pkg.semantic_invalid'')
     | _ \<Rightarrow> fail ''pkg.semantic_invalid'')"

text \<open>What is the same for every row of the batch.\<close>

record batch_head =
  bh_package_id :: pystr
  bh_session_id :: pystr
  bh_signer_id :: pystr
  bh_digest :: pystr
  bh_timestamp :: pystr

definition row_data :: "batch_head \<Rightarrow> pystr \<Rightarrow> pystr \<Rightarrow> row" where
  "row_data h claim_id envelope_message_id =
    [(''claim_id'', JStr claim_id), (''envelope_message_id'', JStr envelope_message_id), (''outcome'', JStr ''hit''),
     (''package_id'', JStr (bh_package_id h)), (''session_id'', JStr (bh_session_id h)), (''signer_id'', JStr (bh_signer_id h)),
     (''signer_manifest_digest'', JStr (bh_digest h)), (''source'', JStr ''aphelion''), (''ts'', JStr (bh_timestamp h))]"

fun build_rows :: "batch_head \<Rightarrow> (nat \<Rightarrow> pystr) \<Rightarrow> nat \<Rightarrow> (pystr \<times> row) list \<Rightarrow> ingest_error + row list" where
  "build_rows h uuid4 i [] = Inr []"
| "build_rows h uuid4 i ((claim_id, fm) # rest) =
    (case canonicalize_row (row_data h claim_id (uuid4 i)) of Inl _ \<Rightarrow> Inl Escaped
     | Inr r \<Rightarrow> and_then (build_rows h uuid4 (Suc i) rest) (\<lambda>rs. Inr (r # rs)))"

definition claim_subjects_of :: "(pystr \<times> row) list \<Rightarrow> (pystr \<times> pystr) list" where
  "claim_subjects_of parsed = List.map_filter (\<lambda>(claim_id, fm). case text_at ''subject'' fm of None \<Rightarrow> None
     | Some s \<Rightarrow> if s = [] then None else Some (claim_id, s)) parsed"

definition build_audit_rows ::
  "ingest_lib \<Rightarrow> json \<Rightarrow> batch_head \<Rightarrow> (nat \<Rightarrow> pystr) \<Rightarrow> ingest_error + row list \<times> (pystr \<times> pystr) list" where
  "build_audit_rows lib manifest h uuid4 =
    (case jget ''claims'' manifest of
       Some (JList raw_claims) \<Rightarrow>
         if raw_claims = [] then fail ''pkg.empty_package''
         else and_then (parse_claims lib raw_claims) (\<lambda>parsed.
           and_then (validate_and_check_duplicates lib [] parsed) (\<lambda>_.
           and_then (build_rows h uuid4 0 parsed) (\<lambda>rows. Inr (rows, claim_subjects_of parsed))))
     | _ \<Rightarrow> fail ''pkg.empty_package'')"

section \<open>The pipeline\<close>

definition write_batch :: "storage \<Rightarrow> row list \<Rightarrow> audit_table \<Rightarrow> (ingest_error + nat) \<times> audit_table" where
  "write_batch io rows tab = (case write_audit_rows_atomic io rows tab of
     (Inr _, tab') \<Rightarrow> (Inr (length rows), tab')
   | (Inl DbIntegrity, tab') \<Rightarrow> (fail ''pkg.idempotency_duplicate'', tab')
   | (Inl DbWrite, tab') \<Rightarrow> (fail ''disk.audit_db_write_failed'', tab')
   | (Inl _, tab') \<Rightarrow> (Inl Escaped, tab'))"

record IngestReport =
  ir_package_id :: pystr
  ir_package_path :: pystr
  ir_claims_ingested :: nat
  ir_audit_rows_written :: nat
  ir_signer_id :: pystr

text \<open>The call: its paths, the trust store, the session, the clock, the minted ids and the storage.\<close>

record ingest_call =
  ic_lib :: ingest_lib
  ic_package_dir :: dir_arg
  ic_trust_dir :: dir_arg
  ic_trust_files :: "(pystr \<times> pem_file) list option"
  ic_path :: package_path
  ic_session_id :: pystr
  ic_timestamp :: pystr
  ic_uuid4 :: "nat \<Rightarrow> pystr"
  ic_storage :: storage
  ic_coercions :: coercions
  ic_listing :: listing
  ic_now :: rat
  ic_save_ok :: bool

record ingest_state =
  is_table :: audit_table
  is_index :: index_file

text \<open>The gates and the trust decision; the envelope of the only signer.\<close>

definition admit :: "ingest_call \<Rightarrow> ingest_error + sig_envelope" where
  "admit ic =
    and_then (validate_dir_arg (ic_package_dir ic) ''pkg.dir_unset'') (\<lambda>_.
    and_then (validate_dir_arg (ic_trust_dir ic) ''pkg.trust_store_missing'') (\<lambda>_.
    and_then (load_trust_store (il_fingerprint (ic_lib ic)) (ic_trust_files ic)) (\<lambda>trusted.
    and_then (validate_package_path (ic_path ic)) (\<lambda>_.
    and_then (run_aphelion_verify (ic_lib ic)) (\<lambda>envs.
    if length envs > 1 then fail ''signer.multi_sig_unsupported''
    else if length envs = 0 then fail ''pkg.unsigned''
    else and_then (verify_trust (ic_lib ic) envs trusted) (\<lambda>decisions.
         and_then (enforce decisions) (\<lambda>_. Inr (hd envs))))))))"

definition open_manifest :: "ingest_lib \<Rightarrow> ingest_error + json \<times> pystr" where
  "open_manifest lib =
    (case il_unpack lib of
       Some USecurity \<Rightarrow> fail ''pkg.archive_unsafe'' | Some UPermission \<Rightarrow> fail ''disk.permission''
     | Some UTar \<Rightarrow> fail ''pkg.archive_unsafe'' | Some UOsError \<Rightarrow> fail ''disk.permission'' | Some UOther \<Rightarrow> Inl Escaped
     | None \<Rightarrow>
        (case il_manifest lib of MMissing \<Rightarrow> fail ''pkg.semantic_invalid'' | MUnreadable \<Rightarrow> Inl Escaped
         | MBytes b \<Rightarrow> (case il_canonical_loads lib b of
             Some (JObj m) \<Rightarrow> (case text_at ''package_id'' m of
                 None \<Rightarrow> fail ''pkg.semantic_invalid''
               | Some pid \<Rightarrow> if pid = [] then fail ''pkg.semantic_invalid'' else Inr (JObj m, pid))
           | _ \<Rightarrow> fail ''pkg.semantic_invalid'')))"

definition batch_head_of :: "ingest_call \<Rightarrow> sig_envelope \<Rightarrow> pystr \<Rightarrow> batch_head" where
  "batch_head_of ic env package_id = \<lparr>bh_package_id = package_id, bh_session_id = ic_session_id ic, bh_signer_id = sg_signer_id env,
     bh_digest = sg_package_canonical_hash env, bh_timestamp = ic_timestamp ic\<rparr>"

text \<open>Everything before the first write: the envelope, the package id, the rows and the subjects.\<close>

definition prepare :: "ingest_call \<Rightarrow> ingest_error + sig_envelope \<times> pystr \<times> row list \<times> (pystr \<times> pystr) list" where
  "prepare ic = and_then (admit ic) (\<lambda>env. and_then (open_manifest (ic_lib ic)) (\<lambda>(manifest, package_id).
     and_then (build_audit_rows (ic_lib ic) manifest (batch_head_of ic env package_id) (ic_uuid4 ic)) (\<lambda>(rows, subjects).
       Inr (env, package_id, rows, subjects))))"

definition update_index :: "ingest_call \<Rightarrow> pystr \<Rightarrow> (pystr \<times> pystr) list \<Rightarrow> index_file \<Rightarrow> index_file" where
  "update_index ic package_id subjects f =
    (case update_index_for_package (ic_coercions ic) (ic_listing ic) (pp_name (ic_path ic)) package_id subjects (ic_now ic) f of
       Inl _ \<Rightarrow> f | Inr ix \<Rightarrow> if ic_save_ok ic then save_index ix else f)"

definition ingest_package :: "ingest_call \<Rightarrow> ingest_state \<Rightarrow> (ingest_error + IngestReport) \<times> ingest_state" where
  "ingest_package ic s =
    (case prepare ic of Inl e \<Rightarrow> (Inl e, s)
     | Inr (env, package_id, rows, subjects) \<Rightarrow>
        (case write_batch (ic_storage ic) rows (is_table s) of
           (Inl e, tab) \<Rightarrow> (Inl e, s\<lparr>is_table := tab\<rparr>)
         | (Inr n, tab) \<Rightarrow>
            (Inr \<lparr>ir_package_id = package_id, ir_package_path = pp_resolved (ic_path ic), ir_claims_ingested = length rows,
               ir_audit_rows_written = n, ir_signer_id = sg_signer_id env\<rparr>,
             s\<lparr>is_table := tab, is_index := update_index ic package_id subjects (is_index s)\<rparr>)))"

section \<open>All or nothing, and only for trusted signers\<close>

text \<open>The signer's manifest names the fingerprint of a file of the trust store.\<close>

definition signer_trusted :: "ingest_call \<Rightarrow> sig_envelope \<Rightarrow> bool" where
  "signer_trusted ic env \<longleftrightarrow> (\<exists>manifests bytes raw fp files name key.
     il_signer_manifests (ic_lib ic) = Some manifests \<and> manifests (sg_signer_id env) = Some bytes \<and>
     il_canonical_loads (ic_lib ic) bytes = Some (JObj raw) \<and> map_of raw ''key_fingerprint'' = Some (JStr fp) \<and>
     ic_trust_files ic = Some files \<and> (name, PemBytes key) \<in> set files \<and> is_pem name \<and> key \<noteq> [] \<and>
     il_fingerprint (ic_lib ic) key = fp)"

lemma load_pems_Inr: "load_pems fp pems = Inr fs \<Longrightarrow> f \<in> set fs \<Longrightarrow> \<exists>raw. PemBytes raw \<in> set pems \<and> raw \<noteq> [] \<and> fp raw = f"
  by (induction fp pems arbitrary: fs rule: load_pems.induct) (auto simp: and_then_Inr split: if_splits; blast)+

lemma trusted_file:
  assumes "load_trust_store fp files = Inr fs" "f \<in> set fs"
  shows "\<exists>fl name key. files = Some fl \<and> (name, PemBytes key) \<in> set fl \<and> is_pem name \<and> key \<noteq> [] \<and> fp key = f"
proof -
  from assms(1) obtain fl where fl: "files = Some fl" and
    l: "load_pems fp (map snd (sort_key fst (filter (\<lambda>f. is_pem (fst f)) fl))) = Inr fs"
    by (auto simp: load_trust_store_def split: option.splits)
  from load_pems_Inr [OF l assms(2)] obtain raw where "raw \<noteq> []" "fp raw = f"
    "PemBytes raw \<in> snd ` set (sort_key fst (filter (\<lambda>f. is_pem (fst f)) fl))" by auto
  with fl show ?thesis by force
qed

lemma decision_trusted:
  assumes "trust_decisions lib manifests trusted [env] = Inr ds" "enforce ds = Inr ()"
  shows "\<exists>bytes raw fp. manifests (sg_signer_id env) = Some bytes \<and> il_canonical_loads lib bytes = Some (JObj raw) \<and>
    map_of raw ''key_fingerprint'' = Some (JStr fp) \<and> fp \<in> set trusted"
proof -
  obtain d where ds: "ds = [d]" and acc: "td_accepted d"
    using assms by (auto simp: and_then_Inr split: if_splits option.splits)
  obtain bytes where bytes: "manifests (sg_signer_id env) = Some bytes"
    using assms(1) acc ds by (cases "manifests (sg_signer_id env)") (auto simp: and_then_Inr rejected_for_def)
  obtain kf where kf: "parse_signer_manifest lib bytes = Inr kf"
    using assms(1) bytes by (auto simp: and_then_Inr)
  have "in_texts kf trusted = Some True"
  proof (cases "in_texts kf trusted")
    case None
    with assms(1) bytes kf show ?thesis by (simp add: and_then_def)
  next
    case (Some b)
    with assms(1) bytes kf ds acc show ?thesis by (cases b) (auto simp: and_then_def rejected_for_def)
  qed
  note b = bytes kf this
  obtain raw where raw: "il_canonical_loads lib bytes = Some (JObj raw)"
    using b(2) by (simp add: parse_signer_manifest_def split: option.splits json.splits)
  then have "map_of raw ''key_fingerprint'' = Some kf"
    using b(2) by (auto simp: parse_signer_manifest_def split: if_splits)
  moreover obtain fp where "kf = JStr fp" "fp \<in> set trusted"
    using b(3) by (cases kf) (auto simp: in_texts_def)
  ultimately show ?thesis using b(1) raw by blast
qed

lemma admit_Inr:
  assumes "admit ic = Inr env"
  shows "il_verify (ic_lib ic) = Inr [env] \<and> signer_trusted ic env"
proof -
  obtain trusted envs ds where t: "load_trust_store (il_fingerprint (ic_lib ic)) (ic_trust_files ic) = Inr trusted"
    and v: "run_aphelion_verify (ic_lib ic) = Inr envs" and len: "\<not> length envs > 1" "length envs \<noteq> 0"
    and d: "verify_trust (ic_lib ic) envs trusted = Inr ds" "enforce ds = Inr ()" and env: "env = hd envs"
    using assms unfolding admit_def and_then_Inr by (auto simp: and_then_Inr split: if_splits)
  from len env have envs: "envs = [env]" by (cases envs) auto
  have "il_verify (ic_lib ic) = Inr [env]"
    using v envs by (auto simp: run_aphelion_verify_def split: sum.splits verify_exc.splits)
  moreover obtain manifests where m: "il_signer_manifests (ic_lib ic) = Some manifests" "trust_decisions (ic_lib ic) manifests trusted [env] = Inr ds"
    using d(1) envs by (auto simp: verify_trust_def split: option.splits)
  from decision_trusted [OF m(2) d(2)] obtain bytes raw fp where "manifests (sg_signer_id env) = Some bytes"
    "il_canonical_loads (ic_lib ic) bytes = Some (JObj raw)" "map_of raw ''key_fingerprint'' = Some (JStr fp)" "fp \<in> set trusted" by blast
  with trusted_file [OF t, of fp] m(1) have "signer_trusted ic env" unfolding signer_trusted_def by blast
  ultimately show ?thesis by blast
qed

text \<open>The rows a manifest's claims give, in order.\<close>

definition entry_claim_id :: "json \<Rightarrow> pystr" where
  "entry_claim_id entry = or_empty (Option.bind (jget ''claim_id'' entry) as_text)"

definition rows_for :: "batch_head \<Rightarrow> (nat \<Rightarrow> pystr) \<Rightarrow> nat \<Rightarrow> json list \<Rightarrow> row list" where
  "rows_for h uuid4 i entries = map (\<lambda>(j, e). row_data h (entry_claim_id e) (uuid4 j)) (zip [i..<i + length entries] entries)"

lemma rows_for_simps [simp]: "rows_for h u i [] = []"
  "rows_for h u i (e # es) = row_data h (entry_claim_id e) (u i) # rows_for h u (Suc i) es"
  by (simp_all add: rows_for_def upt_conv_Cons del: upt_Suc)

lemma parse_claims_ids: "parse_claims lib entries = Inr parsed \<Longrightarrow> map fst parsed = map entry_claim_id entries"
proof (induction entries arbitrary: parsed)
  case (Cons e es)
  from Cons.prems obtain kvs where kvs: "e = JObj kvs" by (cases e) auto
  obtain cid path where p: "Option.bind (jget ''claim_id'' e) as_text = Some cid" "Option.bind (jget ''path'' e) as_text = Some path"
    using Cons.prems kvs by (auto split: option.splits)
  with Cons.prems kvs obtain fm rest where "parse_claims lib es = Inr rest" "parsed = (cid, fm) # rest"
    by (auto simp: and_then_Inr)
  with Cons.IH p show ?case by (simp add: entry_claim_id_def or_empty_def)
qed simp

lemma canonical_row_data: "canonicalize_row (row_data h cid u) = Inr r \<Longrightarrow> r = row_data h cid u \<and> audit_row_spec r"
  using canonicalize_spec [of "row_data h cid u" r] by (auto simp: canonicalize_accepted cleaned_def row_data_def)

lemma build_rows_Inr:
  "build_rows h u i parsed = Inr rows \<Longrightarrow> map fst parsed = map entry_claim_id entries \<Longrightarrow>
   rows = rows_for h u i entries \<and> (\<forall>row \<in> set rows. audit_row_spec row)"
proof (induction h u i parsed arbitrary: rows entries rule: build_rows.induct)
  case (2 h u i cid fm rest)
  then obtain e es where es: "entries = e # es" "entry_claim_id e = cid" "map fst rest = map entry_claim_id es" by (cases entries) auto
  from 2(2) obtain r rs where r: "canonicalize_row (row_data h cid (u i)) = Inr r" "build_rows h u (Suc i) rest = Inr rs" "rows = r # rs"
    by (auto simp: and_then_Inr split: sum.splits)
  from 2(1) [OF r(1) r(2) es(3)] canonical_row_data [OF r(1)] r(3) es show ?case by auto
qed simp

text \<open>No two claims of the package have the same subject, polarity and validity date.\<close>

lemma no_duplicates:
  "validate_and_check_duplicates lib seen parsed = Inr () \<Longrightarrow>
   distinct (List.map_filter (claim_dup_key \<circ> snd) parsed) \<and> set (List.map_filter (claim_dup_key \<circ> snd) parsed) \<inter> set seen = {}"
proof (induction lib seen parsed rule: validate_and_check_duplicates.induct)
  case (2 lib seen cid fm rest)
  then have v: "il_validate_v03 lib fm cid = None" by (auto split: option.splits v03_exc.splits)
  show ?case
  proof (cases "claim_dup_key fm")
    case None
    from 2(1) [OF v None] 2(3) v None show ?thesis by (simp add: map_filter_simps)
  next
    case (Some key)
    with 2(3) v have k: "key \<notin> set seen" "validate_and_check_duplicates lib (key # seen) rest = Inr ()" by (auto split: if_splits)
    from 2(2) [OF v Some k(1,2)] k(1) Some show ?thesis by (simp add: map_filter_simps)
  qed
qed (simp add: map_filter_simps)

lemma build_audit_rows_Inr:
  assumes "build_audit_rows lib manifest h u = Inr (rows, subjects)"
  shows "\<exists>entries parsed. jget ''claims'' manifest = Some (JList entries) \<and> entries \<noteq> [] \<and> parse_claims lib entries = Inr parsed \<and>
    distinct (List.map_filter (claim_dup_key \<circ> snd) parsed) \<and> rows = rows_for h u 0 entries \<and>
    (\<forall>row \<in> set rows. audit_row_spec row) \<and> subjects = claim_subjects_of parsed"
proof -
  obtain entries where e: "jget ''claims'' manifest = Some (JList entries)" "entries \<noteq> []"
    using assms by (auto simp: build_audit_rows_def split: option.splits json.splits if_splits)
  with assms obtain parsed where p: "parse_claims lib entries = Inr parsed" "validate_and_check_duplicates lib [] parsed = Inr ()"
    "build_rows h u 0 parsed = Inr rows" "subjects = claim_subjects_of parsed"
    by (auto simp: build_audit_rows_def and_then_Inr)
  from build_rows_Inr [OF p(3) parse_claims_ids [OF p(1)]] no_duplicates [OF p(2)] p e show ?thesis by blast
qed

lemma prepare_Inr:
  assumes "prepare ic = Inr (env, pid, rows, subjects)"
  shows "il_verify (ic_lib ic) = Inr [env] \<and> signer_trusted ic env \<and> (\<exists>manifest. open_manifest (ic_lib ic) = Inr (manifest, pid) \<and>
    build_audit_rows (ic_lib ic) manifest (batch_head_of ic env pid) (ic_uuid4 ic) = Inr (rows, subjects))"
  using assms admit_Inr by (fastforce simp: prepare_def and_then_Inr split: prod.splits)

lemma write_batch_cases:
  assumes "write_batch io rows tab = (res, tab')"
  shows "(\<exists>e. res = Inl e \<and> tab' = tab) \<or> (res = Inr (length rows) \<and> tab' = tab @ map columns_of rows)"
proof -
  obtain r t where w: "write_audit_rows_atomic io rows tab = (r, t)" by (cases "write_audit_rows_atomic io rows tab")
  then have "(\<exists>e. r = Inl e \<and> t = tab) \<or> (r = Inr () \<and> t = tab @ map columns_of rows)"
    using insert_rows_Inr by (auto simp: write_audit_rows_atomic_def split: if_splits sum.splits)
  with assms w show ?thesis by (auto simp: write_batch_def split: audit_error.splits)
qed


definition demo_signer :: row where
  "demo_signer = [(''signer_id'', JStr ''alice''), (''algorithm'', JStr ''ed25519''), (''public_key_b64'', JStr ''k''),
     (''key_fingerprint'', JStr ''key'')]"

definition demo_manifest :: row where
  "demo_manifest = [(''package_id'', JStr (uuid_str 0x01890a5dac96774bbcceb302099a8058)),
     (''claims'', JList [JObj [(''claim_id'', JStr (uuid_str 0x01890a5dac96774bbcceb302099a8057)), (''path'', JStr ''c.md'')]])]"

definition demo_ingest_lib :: ingest_lib where
  "demo_ingest_lib = \<lparr>il_verify = Inr [\<lparr>sg_signer_id = ''alice'', sg_package_canonical_hash = []\<rparr>],
     il_signer_manifests = Some [''alice'' \<mapsto> ''s''], il_canonical_loads = (\<lambda>b. Some (JObj (if b = ''s'' then demo_signer else demo_manifest))),
     il_fingerprint = (\<lambda>b. b), il_unpack = None, il_manifest = MBytes ''m'', il_claim = (\<lambda>_. CText ''t''),
     il_frontmatter = (\<lambda>_. Some [(''subject'', JStr ''db''), (''claim_id'', JStr (uuid_str 0x01890a5dac96774bbcceb302099a8057))]),
     il_validate_v03 = (\<lambda>_ _. None)\<rparr>"

definition good_dir :: dir_arg where
  "good_dir = \<lparr>da_is_path = True, da_absolute = True, da_dotdot = False, da_resolves = True, da_exists = True, da_is_dir = True,
     da_readable = True\<rparr>"

definition demo_ingest_call :: ingest_call where
  "demo_ingest_call = \<lparr>ic_lib = demo_ingest_lib, ic_package_dir = good_dir, ic_trust_dir = good_dir,
     ic_trust_files = Some [(''alice.pem'', PemBytes ''key'')],
     ic_path = \<lparr>pp_text = ''/p/a.aphelion.tar'', pp_resolves = True, pp_inside = True, pp_symlink = False, pp_exists = True,
       pp_is_file = True, pp_resolved = ''/p/a.aphelion.tar'', pp_name = ''a.aphelion.tar''\<rparr>,
     ic_session_id = ''s'', ic_timestamp = ''2026-05-09T14:23:11Z'', ic_uuid4 = (\<lambda>_. uuid_str 0x936da01f9abd4d9d80c702af85c822a8),
     ic_storage = good_storage, ic_coercions = demo_coercions, ic_listing = [(''a.aphelion.tar'', Some (1, 2))], ic_now = 0,
     ic_save_ok = True\<rparr>"

definition empty_state :: ingest_state where
  "empty_state = \<lparr>is_table = [], is_index = NoFile\<rparr>"

abbreviation demo_head :: batch_head where
  "demo_head \<equiv> \<lparr>bh_package_id = uuid_str 0x01890a5dac96774bbcceb302099a8058, bh_session_id = ''s'', bh_signer_id = ''alice'',
     bh_digest = [], bh_timestamp = ''2026-05-09T14:23:11Z''\<rparr>"

abbreviation demo_ingest_row :: row where
  "demo_ingest_row \<equiv> row_data demo_head (uuid_str 0x01890a5dac96774bbcceb302099a8057) (uuid_str 0x936da01f9abd4d9d80c702af85c822a8)"

lemma demo_ingest_canonical: "canonicalize_row demo_ingest_row = Inr demo_ingest_row"
proof -
  have "audit_row_spec demo_ingest_row"
    unfolding audit_row_spec_def row_data_def
    by (simp add: known_keys_def REQUIRED_FIELDS_def OUTCOME_VALUES_def SOURCE_VALUES_def uuid_text_def parse_uuid_str demo_versions demo_ts)
  moreover have "cleaned demo_ingest_row = demo_ingest_row" by (simp add: cleaned_def row_data_def)
  ultimately show ?thesis using spec_accepted by (simp add: canonicalize_accepted audit_row_spec_def)
qed

lemma demo_admit: "admit demo_ingest_call = Inr \<lparr>sg_signer_id = ''alice'', sg_package_canonical_hash = []\<rparr>"
  by (simp add: admit_def demo_ingest_call_def good_dir_def validate_dir_arg_def load_trust_store_def is_pem_def endswith_def
    startswith_def validate_package_path_def run_aphelion_verify_def verify_trust_def parse_signer_manifest_def demo_signer_def
    in_texts_def accepted_for_def and_then_def demo_ingest_lib_def)

lemma demo_prepare:
  "prepare demo_ingest_call = Inr (\<lparr>sg_signer_id = ''alice'', sg_package_canonical_hash = []\<rparr>,
     uuid_str 0x01890a5dac96774bbcceb302099a8058, [demo_ingest_row], [(uuid_str 0x01890a5dac96774bbcceb302099a8057, ''db'')])"
proof -
  have "open_manifest (ic_lib demo_ingest_call) = Inr (JObj demo_manifest, uuid_str 0x01890a5dac96774bbcceb302099a8058)"
    by (simp add: open_manifest_def demo_ingest_call_def demo_ingest_lib_def demo_manifest_def text_at_def as_text_def uuid_str_nonempty)
  moreover have "build_audit_rows (ic_lib demo_ingest_call) (JObj demo_manifest) demo_head (ic_uuid4 demo_ingest_call) =
      Inr ([demo_ingest_row], [(uuid_str 0x01890a5dac96774bbcceb302099a8057, ''db'')])"
    by (simp add: build_audit_rows_def demo_ingest_call_def demo_ingest_lib_def demo_manifest_def jget_def as_text_def
      read_claim_frontmatter_def and_then_def demo_ingest_canonical claim_subjects_of_def map_filter_simps text_at_def claim_dup_key_def)
  moreover have "batch_head_of demo_ingest_call \<lparr>sg_signer_id = ''alice'', sg_package_canonical_hash = []\<rparr>
      (uuid_str 0x01890a5dac96774bbcceb302099a8058) = demo_head"
    by (simp add: batch_head_of_def demo_ingest_call_def)
  ultimately show ?thesis by (simp add: prepare_def demo_admit and_then_def)
qed

lemma demo_ingest_constraints: "constraints_ok demo_ingest_row"
proof -
  have "like_ts ''2026-05-09T14:23:11Z''" using demo_ts by (rule valid_ts_like)
  then show ?thesis by (simp add: constraints_ok_def column_def row_data_def OUTCOME_VALUES_def SOURCE_VALUES_def)
qed


section \<open>What escapes\<close>

lemma built_row_canonical:
  assumes "prepare ic = Inr (env, pid, row # rows, subjects)"
  shows "ok (canonicalize_row row)"
proof -
  from prepare_Inr [OF assms] obtain manifest where
    "build_audit_rows (ic_lib ic) manifest (batch_head_of ic env pid) (ic_uuid4 ic) = Inr (row # rows, subjects)" by blast
  then obtain parsed where "build_rows (batch_head_of ic env pid) (ic_uuid4 ic) 0 parsed = Inr (row # rows)"
    by (auto simp: build_audit_rows_def and_then_Inr split: option.splits json.splits if_splits)
  then obtain cid where c: "canonicalize_row (row_data (batch_head_of ic env pid) cid (ic_uuid4 ic 0)) = Inr row"
    by (cases parsed) (auto simp: and_then_Inr split: sum.splits)
  with canonical_row_data [OF c] show ?thesis by simp
qed

text \<open>A storage failure of the \<^verbatim>\<open>INSERT\<close> itself (as opposed to \<^verbatim>\<open>BEGIN\<close> or \<^verbatim>\<open>COMMIT\<close>) is not translated to an
  ingest error with an exit code: it escapes; the tables are still untouched.\<close>

theorem insert_failure_escapes:
  assumes "prepare ic = Inr (env, pid, row # rows, subjects)"
    and "\<not> in_transaction (ic_storage ic)" "begin_ok (ic_storage ic)" "\<not> insert_ok (ic_storage ic) 0"
  shows "ingest_package ic s = (Inl Escaped, s)"
proof -
  from built_row_canonical [OF assms(1)] obtain c where "canonicalize_row row = Inr c" by (cases "canonicalize_row row") auto
  with assms show ?thesis by (simp add: ingest_package_def write_batch_def write_audit_rows_atomic_def and_then_def)
qed

lemma insert_failure_escapes_witness:
  "ingest_package (demo_ingest_call\<lparr>ic_storage := good_storage\<lparr>insert_ok := (\<lambda>_. False)\<rparr>\<rparr>) empty_state = (Inl Escaped, empty_state)"
proof (rule insert_failure_escapes)
  let ?ic = "demo_ingest_call\<lparr>ic_storage := good_storage\<lparr>insert_ok := (\<lambda>_. False)\<rparr>\<rparr>"
  have "admit ?ic = admit demo_ingest_call" by (simp add: admit_def cong: if_cong)
  then have "prepare ?ic = prepare demo_ingest_call" by (simp add: prepare_def batch_head_of_def)
  then show "prepare ?ic = Inr (\<lparr>sg_signer_id = ''alice'', sg_package_canonical_hash = []\<rparr>,
     uuid_str 0x01890a5dac96774bbcceb302099a8058, [demo_ingest_row], [(uuid_str 0x01890a5dac96774bbcceb302099a8057, ''db'')])"
    by (simp add: demo_prepare)
qed (simp_all add: good_storage_def)

section \<open>Ingest and the index\<close>

text \<open>The same package as the read sees it and as ingest sees it: the read accepts it, both parse the same manifest and
  the same frontmatter, and the frontmatter of a claim names the claim id of the manifest.\<close>

definition same_package :: "ingest_lib \<Rightarrow> package \<Rightarrow> bool" where
  "same_package lib p \<longleftrightarrow> pk_unpack p = None \<and> pk_verify p = None \<and> pk_signatures p = None \<and>
     (\<forall>manifest pid. open_manifest lib = Inr (manifest, pid) \<longrightarrow> pk_manifest p = Some manifest) \<and>
     (\<forall>path fm. read_claim_frontmatter lib path = Inr fm \<longrightarrow> (\<exists>body. pk_claim p path = ClaimText fm body)) \<and>
     (\<forall>manifest pid entries parsed cid fm. open_manifest lib = Inr (manifest, pid) \<longrightarrow> jget ''claims'' manifest = Some (JList entries) \<longrightarrow>
        parse_claims lib entries = Inr parsed \<longrightarrow> (cid, fm) \<in> set parsed \<longrightarrow> text_at ''claim_id'' fm = Some cid)"

lemma map_of_dict_set: "map_of (dict_set k v kvs) k' = (if k' = k then Some v else map_of kvs k')"
proof (cases "k \<in> fst ` set kvs")
  case True
  have "map_of (map (\<lambda>kv. if fst kv = k then (k, v) else kv) kvs) k' =
      (if k' = k then (if map_of kvs k = None then None else Some v) else map_of kvs k')"
    by (induction kvs) auto
  with True show ?thesis by (simp add: dict_set_def map_of_eq_None_iff)
next
  case False
  then have "map_of kvs k = None" by (simp add: map_of_eq_None_iff)
  with False show ?thesis by (auto simp: dict_set_def map_add_def split: option.split)
qed

lemma text_at_json: "text_at k fm = Some s \<longleftrightarrow> map_of fm k = Some (JStr s)"
proof -
  have "as_text j = Some s \<longleftrightarrow> j = JStr s" for j by (cases j) (simp_all add: as_text_def)
  then show ?thesis by (auto simp: text_at_def bind_eq_Some_conv)
qed

text \<open>The claim as a read projects it.\<close>

abbreviation projected :: "pystr \<Rightarrow> row \<Rightarrow> pystr \<Rightarrow> row" where
  "projected pid fm body \<equiv> dict_set CLAIM_CONTENT_KEY (JStr body) (dict_set ''package_id'' (JStr pid) fm)"

lemma entry_projected:
  assumes "text_at ''claim_id'' fm = Some cid" "pid \<noteq> []"
  shows "claim_entry_of c name (projected pid fm body) = (case text_at ''subject'' fm of None \<Rightarrow> None
    | Some s \<Rightarrow> if s = [] then None else Some \<lparr>ie_subject = s, ie_package_id = pid, ie_claim_id = cid, ie_package_file = name\<rparr>)"
proof -
  have cid: "map_of (projected pid fm body) ''claim_id'' = Some (JStr cid)"
    using assms(1) by (simp add: map_of_dict_set CLAIM_CONTENT_KEY_def text_at_json)
  have pkg: "py_or_empty c (map_of (projected pid fm body) ''package_id'') = pid"
    using assms(2) by (simp add: map_of_dict_set CLAIM_CONTENT_KEY_def py_or_empty_def to_str_def)
  have subj: "map_of (projected pid fm body) ''subject'' = map_of fm ''subject''"
    by (simp add: map_of_dict_set CLAIM_CONTENT_KEY_def)
  show ?thesis
  proof (cases "map_of fm ''subject''")
    case None
    then show ?thesis by (simp add: claim_entry_of_def subj text_at_def)
  next
    case (Some j)
    then show ?thesis
      by (cases j) (simp_all add: claim_entry_of_def subj text_at_def as_text_def cid pkg)
  qed
qed

lemma parse_then_project:
  assumes same: "\<And>path fm. read_claim_frontmatter lib path = Inr fm \<Longrightarrow> \<exists>body. pk_claim p path = ClaimText fm body"
    and ids: "\<And>cid fm. (cid, fm) \<in> set parsed \<Longrightarrow> text_at ''claim_id'' fm = Some cid"
    and pid: "pid \<noteq> []"
  shows "parse_claims lib entries = Inr parsed \<Longrightarrow>
    \<exists>cs. project_entries p (JStr pid) entries = Inr cs \<and> entries_of_claims c name cs = added_entries name pid (claim_subjects_of parsed)"
  using ids
proof (induction entries arbitrary: parsed)
  case Nil
  then show ?case by (simp add: entries_of_claims_def added_entries_def claim_subjects_of_def map_filter_simps)
next
  case (Cons e es)
  from Cons.prems(1) obtain kvs where kvs: "e = JObj kvs" by (cases e) auto
  obtain cid path where cp: "Option.bind (jget ''claim_id'' e) as_text = Some cid" "Option.bind (jget ''path'' e) as_text = Some path"
    using Cons.prems(1) kvs by (auto split: option.splits)
  with Cons.prems(1) kvs obtain fm rest where fm: "read_claim_frontmatter lib path = Inr fm" and rest: "parse_claims lib es = Inr rest"
    and parsed: "parsed = (cid, fm) # rest" by (auto simp: and_then_Inr)
  have path: "jget ''path'' e = Some (JStr path)"
    using cp(2) by (cases "jget ''path'' e") (auto simp: as_text_def split: json.splits)
  obtain body where body: "pk_claim p path = ClaimText fm body" using same [OF fm] by blast
  have "\<And>cid fm. (cid, fm) \<in> set rest \<Longrightarrow> text_at ''claim_id'' fm = Some cid" using Cons.prems(2) parsed by auto
  from Cons.IH [OF rest this] obtain cs where cs: "project_entries p (JStr pid) es = Inr cs"
    "entries_of_claims c name cs = added_entries name pid (claim_subjects_of rest)" by blast
  have "project_entries p (JStr pid) (e # es) = Inr (projected pid fm body # cs)"
    using path body cs(1) by (simp add: and_then_def)
  moreover have "text_at ''claim_id'' fm = Some cid" using Cons.prems(2) parsed by simp
  note entry = entry_projected [OF this pid, of c name body]
  have "entries_of_claims c name (projected pid fm body # cs) = added_entries name pid (claim_subjects_of parsed)"
    using cs(2) entry
    by (cases "text_at ''subject'' fm")
      (simp_all add: entries_of_claims_def map_filter_simps parsed claim_subjects_of_def added_entries_def split: if_splits)
  ultimately show ?case by blast
qed

text \<open>What ingest adds to the index is what a rebuild would find in the package.\<close>

lemma ingest_agrees_with_scan:
  assumes "prepare ic = Inr (env, pid, rows, subjects)" "same_package (ic_lib ic) p"
  shows "\<exists>cs. read_package_claims p = Inr cs \<and> entries_of_claims c name cs = added_entries name pid subjects"
proof -
  from prepare_Inr [OF assms(1)] obtain manifest where m: "open_manifest (ic_lib ic) = Inr (manifest, pid)"
    "build_audit_rows (ic_lib ic) manifest (batch_head_of ic env pid) (ic_uuid4 ic) = Inr (rows, subjects)" by blast
  from build_audit_rows_Inr [OF m(2)] obtain entries parsed where e: "jget ''claims'' manifest = Some (JList entries)"
    "parse_claims (ic_lib ic) entries = Inr parsed" "subjects = claim_subjects_of parsed" by blast
  from m(1) obtain kvs where kvs: "manifest = JObj kvs" "text_at ''package_id'' kvs = Some pid" "pid \<noteq> []"
    by (auto simp: open_manifest_def split: option.splits unpack_exc.splits manifest_read.splits json.splits if_splits)
  have pm: "pk_manifest p = Some manifest" using assms(2) m(1) by (simp add: same_package_def)
  have pid: "jget ''package_id'' manifest = Some (JStr pid)" using kvs by (simp add: jget_def text_at_json)
  have same: "\<exists>body. pk_claim p path = ClaimText fm body" if "read_claim_frontmatter (ic_lib ic) path = Inr fm" for path fm
    using assms(2) that unfolding same_package_def by blast
  have ids: "text_at ''claim_id'' fm = Some cid" if "(cid, fm) \<in> set parsed" for cid fm
    using assms(2) m(1) e(1,2) that unfolding same_package_def by blast
  obtain cs where cs: "project_entries p (JStr pid) entries = Inr cs"
    "entries_of_claims c name cs = added_entries name pid (claim_subjects_of parsed)"
    using parse_then_project [OF same ids kvs(3) e(2), of c name] by blast
  have "read_package_claims p = Inr cs"
    using assms(2) pm pid e(1) cs(1) by (simp add: read_package_claims_def same_package_def project_claims_def jitems_def)
  with cs(2) e(3) show ?thesis by blast
qed


definition ingested_package :: package where
  "ingested_package = \<lparr>pk_unpack = None, pk_verify = None, pk_signatures = None, pk_manifest = Some (JObj demo_manifest),
     pk_claim = (\<lambda>_. ClaimText [(''subject'', JStr ''db''), (''claim_id'', JStr (uuid_str 0x01890a5dac96774bbcceb302099a8057))] ''t'')\<rparr>"

lemma demo_open: "open_manifest demo_ingest_lib = Inr (JObj demo_manifest, uuid_str 0x01890a5dac96774bbcceb302099a8058)"
  by (simp add: open_manifest_def demo_ingest_lib_def demo_manifest_def text_at_def as_text_def uuid_str_nonempty)

lemma demo_read: "read_claim_frontmatter demo_ingest_lib path =
    Inr [(''subject'', JStr ''db''), (''claim_id'', JStr (uuid_str 0x01890a5dac96774bbcceb302099a8057))]"
  by (simp add: read_claim_frontmatter_def demo_ingest_lib_def)

lemma demo_same: "same_package demo_ingest_lib ingested_package"
  by (auto simp: same_package_def demo_open ingested_package_def demo_read demo_manifest_def jget_def as_text_def and_then_def text_at_def)

lemma demo_ingest_succeeds: "\<exists>r s'. ingest_package demo_ingest_call empty_state = (Inr r, s')"
proof -
  have "write_audit_rows_atomic (ic_storage demo_ingest_call) [demo_ingest_row] [] = (Inr (), [columns_of demo_ingest_row])"
    by (simp add: write_audit_rows_atomic_def demo_ingest_call_def good_storage_def demo_ingest_canonical demo_ingest_constraints
      insert_row_def and_then_def)
  then show ?thesis by (simp add: ingest_package_def demo_prepare write_batch_def empty_state_def)
qed


end
