(* ===== verification/Live_Arbitration.thy ===== *)
theory Live_Arbitration
  imports Aphelion_Adapter Subject_Index
begin

text \<open>
  \<^verbatim>\<open>router/live_arbitration.py\<close>: which store wins when both have been read, and the one-line JSON form of the
  verdict. Proved: a verdict is read back from its line unchanged, and a store wins only if both sides have hits.
\<close>

definition POLICY_VERSION_PRE_RC :: pystr where
  "POLICY_VERSION_PRE_RC = ''v0.0-pre-rc''"

definition POLICY_VERSION_DEFAULT :: pystr where
  "POLICY_VERSION_DEFAULT = ''v0.3.0-rc''"

definition QT_OWNERSHIP :: "(QueryType \<times> pystr) list" where
  "QT_OWNERSHIP = [(RECENT_CONTEXT, ''parallax''), (ARTIFACT_CONTEXT, ''parallax''), (CHANGE_TRACE, ''parallax''),
     (TEMPORAL_CONTEXT, ''parallax''), (ENTITY_PROFILE, ''aphelion'')]"

record LiveArbitrationDecision =
  winning_source :: pystr
  tie_breaker_rule :: pystr
  conflict_event_id :: "pystr option"
  policy_version :: pystr
  la_correlation_id :: pystr
  la_query_type :: QueryType
  la_reason_code :: pystr
  decided_at_us_utc :: int

definition requires_manual_review :: "LiveArbitrationDecision \<Rightarrow> bool" where
  "requires_manual_review d \<longleftrightarrow> winning_source d \<in> {''tie'', ''fallback''}"

definition is_empty_evidence :: "RetrievalEvidence option \<Rightarrow> bool" where
  "is_empty_evidence ev = (case ev of None \<Rightarrow> True | Some e \<Rightarrow> length (ev_hits e) = 0)"

definition arbitrate ::
  "int \<Rightarrow> RetrievalEvidence \<Rightarrow> RetrievalEvidence option \<Rightarrow> QueryType \<Rightarrow> pystr \<Rightarrow> LiveArbitrationDecision" where
  "arbitrate now_us primary secondary query_type correlation_id =
    (let winner = (if is_empty_evidence secondary \<or> is_empty_evidence (Some primary) then ''fallback''
           else case map_of QT_OWNERSHIP query_type of None \<Rightarrow> ''fallback'' | Some w \<Rightarrow> w)
     in \<lparr>winning_source = winner, tie_breaker_rule = ''source-level'', conflict_event_id = None,
         policy_version = POLICY_VERSION_DEFAULT, la_correlation_id = correlation_id, la_query_type = query_type,
         la_reason_code = ''source-level/'' @ query_type_value query_type @ ''/'' @ winner, decided_at_us_utc = now_us\<rparr>)"

section \<open>The JSON line\<close>

definition decision_payload :: "LiveArbitrationDecision \<Rightarrow> (pystr \<times> json) list" where
  "decision_payload d =
    [(''winning_source'', JStr (winning_source d)), (''tie_breaker_rule'', JStr (tie_breaker_rule d)),
     (''conflict_event_id'', jopt (conflict_event_id d)), (''policy_version'', JStr (policy_version d)),
     (''correlation_id'', JStr (la_correlation_id d)), (''query_type'', JStr (query_type_value (la_query_type d))),
     (''reason_code'', JStr (la_reason_code d)), (''decided_at_us_utc'', JInt (decided_at_us_utc d))]"

definition to_json_line :: "LiveArbitrationDecision \<Rightarrow> jtext" where
  "to_json_line d = dumps_sorted (decision_payload d)"

text \<open>
  \<^verbatim>\<open>data[k]\<close> of a text field: a missing key raises; a value that is not a text would be kept as it is, which the
  model leaves out.
\<close>

definition required_text :: "(pystr \<times> json) list \<Rightarrow> pystr \<Rightarrow> kernel_error + pystr" where
  "required_text data k = (case map_of data k of None \<Rightarrow> Inl (KeyError k) | Some j \<Rightarrow>
     (case as_text j of Some s \<Rightarrow> Inr s | None \<Rightarrow> Inl Unmodelled))"

definition optional_text :: "(pystr \<times> json) list \<Rightarrow> pystr \<Rightarrow> kernel_error + pystr option" where
  "optional_text data k = (case map_of data k of None \<Rightarrow> Inr None | Some JNull \<Rightarrow> Inr None | Some j \<Rightarrow>
     (case as_text j of Some s \<Rightarrow> Inr (Some s) | None \<Rightarrow> Inl Unmodelled))"

definition query_type_of :: "pystr \<Rightarrow> QueryType option" where
  "query_type_of s = List.find (\<lambda>q. query_type_value q = s)
     [RECENT_CONTEXT, ARTIFACT_CONTEXT, ENTITY_PROFILE, CHANGE_TRACE, TEMPORAL_CONTEXT]"

definition from_json_line :: "coercions \<Rightarrow> jtext \<Rightarrow> kernel_error + LiveArbitrationDecision" where
  "from_json_line c line = (case line of
     JText (JObj data) \<Rightarrow>
       and_then (required_text data ''winning_source'') (\<lambda>w. and_then (required_text data ''tie_breaker_rule'') (\<lambda>t.
       and_then (optional_text data ''conflict_event_id'') (\<lambda>e.
       and_then (if map_of data ''policy_version'' = None then Inr POLICY_VERSION_PRE_RC else required_text data ''policy_version'') (\<lambda>p.
       and_then (required_text data ''correlation_id'') (\<lambda>cid. and_then (required_text data ''query_type'') (\<lambda>q.
       case query_type_of q of None \<Rightarrow> Inl (ValueError ''QueryType'') | Some qt \<Rightarrow>
       and_then (required_text data ''reason_code'') (\<lambda>r.
       case map_of data ''decided_at_us_utc'' of None \<Rightarrow> Inl (KeyError ''decided_at_us_utc'') | Some at_us \<Rightarrow>
       (case to_int c at_us of None \<Rightarrow> Inl (ValueError ''int'') | Some i \<Rightarrow>
         Inr \<lparr>winning_source = w, tie_breaker_rule = t, conflict_event_id = e, policy_version = p, la_correlation_id = cid,
           la_query_type = qt, la_reason_code = r, decided_at_us_utc = i\<rparr>))))))))
   | JText _ \<Rightarrow> Inl TypeError
   | _ \<Rightarrow> Inl (ValueError ''json''))"

lemma query_type_of_value: "query_type_of (query_type_value q) = Some q"
  by (cases q) (simp_all add: query_type_of_def query_type_value_def)

lemma sorted_lookup: "distinct (map fst kvs) \<Longrightarrow> map_of (sort_key fst kvs) k = map_of (kvs :: (pystr \<times> json) list) k"
  by (simp add: map_of_sort_key)

lemma from_to_json_line: "from_json_line c (to_json_line d) = Inr d"
proof -
  let ?p = "decision_payload d"
  have look: "map_of (sort_key fst ?p) k = map_of ?p k" for k
    by (rule sorted_lookup) (simp add: decision_payload_def)
  show ?thesis
    unfolding to_json_line_def dumps_sorted_def from_json_line_def required_text_def optional_text_def
    by (simp only: look jtext.case json.case)
      (simp add: decision_payload_def as_text_def jopt_def query_type_of_value to_int_def and_then_def
        split: option.split)
qed

text \<open>A verdict is read back unchanged from its JSON line; a line of an older writer, without the policy version, is
  read back with the sentinel in its place.\<close>

theorem json_line_roundtrip:
  "from_json_line c (to_json_line d) = Inr d \<and>
   from_json_line c (dumps_sorted (filter (\<lambda>kv. fst kv \<noteq> ''policy_version'') (decision_payload d))) =
     Inr (d\<lparr>policy_version := POLICY_VERSION_PRE_RC\<rparr>)"
proof
  let ?p = "filter (\<lambda>kv. fst kv \<noteq> ''policy_version'') (decision_payload d)"
  have look: "map_of (sort_key fst ?p) k = map_of ?p k" for k
    by (rule sorted_lookup) (simp add: decision_payload_def)
  show "from_json_line c (dumps_sorted ?p) = Inr (d\<lparr>policy_version := POLICY_VERSION_PRE_RC\<rparr>)"
    unfolding dumps_sorted_def from_json_line_def required_text_def optional_text_def
    by (simp only: look jtext.case json.case)
      (simp add: decision_payload_def as_text_def jopt_def query_type_of_value to_int_def and_then_def
        split: option.split)
qed (rule from_to_json_line)

section \<open>Who wins\<close>

lemma ownership_total: "\<exists>w. map_of QT_OWNERSHIP q = Some w \<and> w \<in> {''parallax'', ''aphelion''}"
  by (cases q) (simp_all add: QT_OWNERSHIP_def)

lemma arbitrate_winner:
  "winning_source (arbitrate now p s q cid) =
    (if is_empty_evidence s \<or> ev_hits p = [] then ''fallback'' else if q = ENTITY_PROFILE then ''aphelion'' else ''parallax'')"
  by (cases q) (simp_all add: arbitrate_def Let_def QT_OWNERSHIP_def is_empty_evidence_def)

lemma review_iff: "requires_manual_review (arbitrate now p s q cid) \<longleftrightarrow> is_empty_evidence s \<or> ev_hits p = []"
  by (simp add: requires_manual_review_def arbitrate_winner)

end
