(* ===== verification/Shadow.thy ===== *)
theory Shadow
  imports Aphelion_Adapter
begin

text \<open>
  \<^verbatim>\<open>router/shadow.py\<close>: the comparison of two results and the interceptor that observes a second store. The two
  routers are arguments (what each call returns or raises). Proved: the interceptor's caller gets exactly what the
  canonical router gave, whatever the shadow does, and the log grows by the record of the verdict.
\<close>

section \<open>Comparing hits\<close>

text \<open>Python's equality of JSON values: a bool is the integer 0 or 1, a number its value, a dict unordered.\<close>

fun py_norm :: "json \<Rightarrow> json" where
  "py_norm JNull = JNull"
| "py_norm (JBool b) = JNum (of_bool b)"
| "py_norm (JInt i) = JNum (of_int i)"
| "py_norm (JNum r) = JNum r"
| "py_norm (JStr s) = JStr s"
| "py_norm (JList xs) = JList (map py_norm xs)"
| "py_norm (JObj kvs) = JObj (sort_key fst (map (\<lambda>(k, v). (k, py_norm v)) kvs))"

definition py_eq :: "json \<Rightarrow> json \<Rightarrow> bool" where
  "py_eq a b \<longleftrightarrow> py_norm a = py_norm b"

definition hit_get :: "pystr \<Rightarrow> row \<Rightarrow> json" where
  "hit_get k hit = (case map_of hit k of None \<Rightarrow> JNull | Some j \<Rightarrow> j)"

definition SCORE_REL_TOL :: rat where
  "SCORE_REL_TOL = 1 / 1000000"

text \<open>The conversion to a double at a call of \<^verbatim>\<open>math.isclose\<close>: an integer that rounds past the largest double raises.\<close>

definition as_float :: "json \<Rightarrow> kernel_error + rat" where
  "as_float j = (case j of
     JInt i \<Rightarrow> if 2 ^ 1024 - 2 ^ 970 \<le> \<bar>i\<bar> then Inl OverflowError else Inr (of_int i)
   | JBool b \<Rightarrow> Inr (of_bool b) | JNum r \<Rightarrow> Inr r | _ \<Rightarrow> Inl TypeError)"

definition isclose :: "rat \<Rightarrow> rat \<Rightarrow> bool" where
  "isclose a b \<longleftrightarrow> a = b \<or> \<bar>b - a\<bar> \<le> \<bar>SCORE_REL_TOL * b\<bar> \<or> \<bar>b - a\<bar> \<le> \<bar>SCORE_REL_TOL * a\<bar>"

definition scores_equal :: "json \<Rightarrow> json \<Rightarrow> kernel_error + bool" where
  "scores_equal c s =
    (if c = JNull \<or> s = JNull then Inr (c = s)
     else and_then (as_float c) (\<lambda>a. and_then (as_float s) (\<lambda>b. Inr (isclose a b))))"

definition same_ids :: "row \<Rightarrow> row \<Rightarrow> bool" where
  "same_ids c s \<longleftrightarrow> py_eq (hit_get ''id'' c) (hit_get ''id'' s) \<and> py_eq (hit_get ''kind'' c) (hit_get ''kind'' s)"

fun pairs_equal :: "row list \<Rightarrow> row list \<Rightarrow> kernel_error + bool" where
  "pairs_equal (c # cs) (s # ss) =
    (if \<not> same_ids c s then Inr False
     else and_then (scores_equal (hit_get ''score'' c) (hit_get ''score'' s)) (\<lambda>eq. if eq then pairs_equal cs ss else Inr False))"
| "pairs_equal _ _ = Inr True"

definition hits_equal :: "RetrievalEvidence \<Rightarrow> RetrievalEvidence \<Rightarrow> kernel_error + bool" where
  "hits_equal c s =
    (if length (ev_hits c) \<noteq> length (ev_hits s) then Inr False else pairs_equal (ev_hits c) (ev_hits s))"

text \<open>What a router may return: a result without the attribute \<^verbatim>\<open>hits\<close> is \<open>None\<close>.\<close>

definition compare_results :: "RetrievalEvidence \<Rightarrow> RetrievalEvidence option \<Rightarrow> kernel_error + bool" where
  "compare_results c s = (case s of None \<Rightarrow> Inl AttributeError | Some s \<Rightarrow> hits_equal c s)"

section \<open>The interceptor\<close>

definition SHADOW_SCHEMA_VERSION :: pystr where
  "SHADOW_SCHEMA_VERSION = ''1.0''"

record ShadowDecisionLog =
  sd_query_type :: pystr
  sd_selected_port :: pystr
  sd_crosswalk_status :: pystr
  sd_arbitration_outcome :: pystr
  sd_latency_ms :: rat
  sd_correlation_id :: pystr
  sd_timestamp :: pystr
  sd_user_id :: pystr
  sd_schema_version :: pystr

definition to_jsonl :: "ShadowDecisionLog \<Rightarrow> jtext" where
  "to_jsonl e = dumps_sorted
    [(''query_type'', JStr (sd_query_type e)), (''selected_port'', JStr (sd_selected_port e)),
     (''crosswalk_status'', JStr (sd_crosswalk_status e)), (''arbitration_outcome'', JStr (sd_arbitration_outcome e)),
     (''latency_ms'', JNum (sd_latency_ms e)), (''correlation_id'', JStr (sd_correlation_id e)),
     (''timestamp'', JStr (sd_timestamp e)), (''user_id'', JStr (sd_user_id e)),
     (''schema_version'', JStr (sd_schema_version e))]"

definition shadow_enabled :: "environ \<Rightarrow> pystr \<Rightarrow> bool" where
  "shadow_enabled env user_id \<longleftrightarrow>
    lower (strip (getenv env ''SHADOW_MODE'' ''false'')) = ''true'' \<and>
    user_id \<in> set (filter (\<lambda>u. u \<noteq> []) (map strip (split_char (CHR '','') (getenv env ''SHADOW_USER_ALLOWLIST'' []))))"

text \<open>The lines of the files, each with the file's name; \<open>writable\<close> is False when the file system raises.\<close>

definition shadow_write_log :: "pystr \<Rightarrow> bool \<Rightarrow> ShadowDecisionLog \<Rightarrow> (pystr \<times> jtext) list \<Rightarrow> (pystr \<times> jtext) list" where
  "shadow_write_log today writable entry lines =
    (if writable then lines @ [(''shadow-decisions-'' @ today @ ''.jsonl'', to_jsonl entry)] else lines)"

definition shadow_verdict :: "RetrievalEvidence \<Rightarrow> 'e + RetrievalEvidence option \<Rightarrow> pystr \<times> pystr" where
  "shadow_verdict canonical shadow =
    (case shadow of Inl _ \<Rightarrow> (''shadow_only'', ''skipped'')
     | Inr r \<Rightarrow> (case compare_results canonical r of Inl _ \<Rightarrow> (''shadow_only'', ''skipped'')
         | Inr eq \<Rightarrow> (if eq then ''match'' else ''diverge'', ''ok'')))"

record shadow_call =
  sc_environ :: environ
  sc_correlation_id :: "pystr option"
  sc_minted :: pystr
  sc_latency_ms :: rat
  sc_timestamp :: pystr
  sc_today :: pystr
  sc_writable :: bool

definition shadow_entry :: "shadow_call \<Rightarrow> QueryRequest \<Rightarrow> pystr \<times> pystr \<Rightarrow> ShadowDecisionLog" where
  "shadow_entry call req verdict =
    \<lparr>sd_query_type = query_type_value (qr_query_type req), sd_selected_port = ''QueryPort'',
     sd_crosswalk_status = snd verdict, sd_arbitration_outcome = fst verdict, sd_latency_ms = sc_latency_ms call,
     sd_correlation_id = (case sc_correlation_id call of Some c \<Rightarrow> c | None \<Rightarrow> sc_minted call),
     sd_timestamp = sc_timestamp call, sd_user_id = qr_user_id req, sd_schema_version = SHADOW_SCHEMA_VERSION\<rparr>"

definition shadow_query ::
  "shadow_call \<Rightarrow> QueryRequest \<Rightarrow> 'e + RetrievalEvidence \<Rightarrow> 'f + RetrievalEvidence option \<Rightarrow> (pystr \<times> jtext) list \<Rightarrow>
   ('e + RetrievalEvidence) \<times> (pystr \<times> jtext) list" where
  "shadow_query call req canonical shadow lines =
    (case canonical of Inl e \<Rightarrow> (Inl e, lines)
     | Inr canonical_result \<Rightarrow>
        if \<not> shadow_enabled (sc_environ call) (qr_user_id req) then (Inr canonical_result, lines)
        else (Inr canonical_result,
           shadow_write_log (sc_today call) (sc_writable call)
             (shadow_entry call req (shadow_verdict canonical_result shadow)) lines))"

section \<open>What the comparison accepts\<close>

lemma isclose_iff: "isclose a b \<longleftrightarrow> \<bar>a - b\<bar> \<le> max \<bar>a\<bar> \<bar>b\<bar> / 1000000"
proof -
  have tol: "\<bar>SCORE_REL_TOL * x\<bar> = \<bar>x\<bar> / 1000000" for x
    by (simp add: SCORE_REL_TOL_def abs_mult)
  show ?thesis unfolding isclose_def tol abs_minus_commute [of b a]
    by (auto simp: max_def)
qed

text \<open>What a pair of hits that counts as equal is.\<close>

definition close_scores :: "json \<Rightarrow> json \<Rightarrow> bool" where
  "close_scores c s \<longleftrightarrow> (c = JNull \<and> s = JNull) \<or>
     (c \<noteq> JNull \<and> s \<noteq> JNull \<and> (\<exists>a b. as_float c = Inr a \<and> as_float s = Inr b \<and> \<bar>a - b\<bar> \<le> max \<bar>a\<bar> \<bar>b\<bar> / 1000000))"

definition same_hit :: "row \<Rightarrow> row \<Rightarrow> bool" where
  "same_hit c s \<longleftrightarrow> same_ids c s \<and> close_scores (hit_get ''score'' c) (hit_get ''score'' s)"

lemma scores_equal_True: "scores_equal c s = Inr True \<longleftrightarrow> close_scores c s"
  by (cases "as_float c"; cases "as_float s")
    (auto simp: scores_equal_def close_scores_def isclose_iff as_float_def)

lemma pairs_equal_True: "length cs = length ss \<Longrightarrow> pairs_equal cs ss = Inr True \<longleftrightarrow> list_all2 same_hit cs ss"
proof (induction cs ss rule: pairs_equal.induct)
  case (1 c cs s ss)
  then show ?case
    by (auto simp: same_hit_def scores_equal_True [symmetric] and_then_def split: sum.splits)
qed auto

lemma hits_equal_True: "hits_equal a b = Inr True \<longleftrightarrow> list_all2 same_hit (ev_hits a) (ev_hits b)"
  by (auto simp: hits_equal_def pairs_equal_True dest: list_all2_lengthD)

section \<open>The interceptor is transparent\<close>

text \<open>C32: the interceptor returns or raises exactly what the canonical router did. The log changes only when the
  canonical router returned, the flag is on, the user is on the list and the file can be written; then it grows by one
  record with the user's id, and the record says match exactly when the shadow returned hits that agree pairwise with the
  canonical ones, in id, kind and score, and shadow-only exactly when the shadow or the comparison raised.\<close>

theorem shadow_transparent:
  assumes "shadow_query call req canonical shadow lines = (res, lines')"
  shows "res = canonical \<and>
    (lines' \<noteq> lines \<longrightarrow> (\<exists>r. canonical = Inr r) \<and> shadow_enabled (sc_environ call) (qr_user_id req) \<and> sc_writable call) \<and>
    (\<forall>r. canonical = Inr r \<longrightarrow> shadow_enabled (sc_environ call) (qr_user_id req) \<longrightarrow> sc_writable call \<longrightarrow>
      (\<exists>e. lines' = lines @ [(''shadow-decisions-'' @ sc_today call @ ''.jsonl'', to_jsonl e)] \<and> sd_user_id e = qr_user_id req \<and>
        (sd_arbitration_outcome e = ''match'' \<longleftrightarrow>
          (\<exists>ev. shadow = Inr (Some ev) \<and> list_all2 same_hit (ev_hits r) (ev_hits ev))) \<and>
        (sd_arbitration_outcome e = ''shadow_only'' \<longleftrightarrow>
          (case shadow of Inl _ \<Rightarrow> True | Inr s \<Rightarrow> \<not> ok (compare_results r s))) \<and>
        (sd_crosswalk_status e = ''ok'' \<longleftrightarrow> sd_arbitration_outcome e \<in> {''match'', ''diverge''})))"
proof (cases canonical)
  case (Inr r)
  have v: "fst (shadow_verdict r shadow) = ''match'' \<longleftrightarrow>
      (\<exists>ev. shadow = Inr (Some ev) \<and> list_all2 same_hit (ev_hits r) (ev_hits ev))"
    "fst (shadow_verdict r shadow) = ''shadow_only'' \<longleftrightarrow>
      (case shadow of Inl _ \<Rightarrow> True | Inr s \<Rightarrow> \<not> ok (compare_results r s))"
    "snd (shadow_verdict r shadow) = ''ok'' \<longleftrightarrow> fst (shadow_verdict r shadow) \<in> {''match'', ''diverge''}"
    by (auto simp: shadow_verdict_def compare_results_def ok_def hits_equal_True [symmetric] split: sum.splits option.splits)
  show ?thesis
  proof (cases "shadow_enabled (sc_environ call) (qr_user_id req)")
    case True
    let ?e = "shadow_entry call req (shadow_verdict r shadow)"
    have res: "res = Inr r" and lines': "lines' = shadow_write_log (sc_today call) (sc_writable call) ?e lines"
      using assms by (simp_all add: shadow_query_def Inr True)
    have e: "sd_user_id ?e = qr_user_id req" "sd_arbitration_outcome ?e = fst (shadow_verdict r shadow)"
      "sd_crosswalk_status ?e = snd (shadow_verdict r shadow)"
      by (simp_all add: shadow_entry_def)
    show ?thesis
    proof (intro conjI allI impI)
      fix r'
      assume r': "canonical = Inr r'" and w: "sc_writable call"
      then have r'r: "r' = r" using Inr by simp
      show "\<exists>e. lines' = lines @ [(''shadow-decisions-'' @ sc_today call @ ''.jsonl'', to_jsonl e)] \<and> sd_user_id e = qr_user_id req \<and>
        (sd_arbitration_outcome e = ''match'' \<longleftrightarrow>
          (\<exists>ev. shadow = Inr (Some ev) \<and> list_all2 same_hit (ev_hits r') (ev_hits ev))) \<and>
        (sd_arbitration_outcome e = ''shadow_only'' \<longleftrightarrow>
          (case shadow of Inl _ \<Rightarrow> True | Inr s \<Rightarrow> \<not> ok (compare_results r' s))) \<and>
        (sd_crosswalk_status e = ''ok'' \<longleftrightarrow> sd_arbitration_outcome e \<in> {''match'', ''diverge''})"
        unfolding r'r by (intro exI [of _ ?e] conjI) (simp_all only: e v lines' shadow_write_log_def w if_True)
    qed (use True Inr lines' in \<open>simp_all add: shadow_write_log_def res split: if_splits\<close>)
  qed (use assms Inr in \<open>simp add: shadow_query_def\<close>)
next
  case (Inl x)
  then have "res = Inl x" "lines' = lines" using assms by (simp_all add: shadow_query_def)
  with Inl show ?thesis by simp
qed

definition demo_shadow_call :: shadow_call where
  "demo_shadow_call = \<lparr>sc_environ = [''SHADOW_MODE'' \<mapsto> ''True '', ''SHADOW_USER_ALLOWLIST'' \<mapsto> ''ann, bob''],
     sc_correlation_id = None, sc_minted = ''c-1'', sc_latency_ms = 2, sc_timestamp = ''2026-01-01T00:00:00.000000+00:00'',
     sc_today = ''2026-01-01'', sc_writable = True\<rparr>"

definition demo_request :: QueryRequest where
  "demo_request = \<lparr>qr_query_type = RECENT_CONTEXT, qr_user_id = ''bob'', qr_q = ''q'', qr_limit = 5, qr_since = None,
     qr_until = None, qr_level = 1, qr_params = None\<rparr>"

definition demo_evidence :: "json \<Rightarrow> RetrievalEvidence" where
  "demo_evidence score = \<lparr>ev_hits = [[(''id'', JStr ''m1''), (''kind'', JStr ''memory''), (''score'', score)]],
     ev_stages = [], ev_notes = []\<rparr>"

lemma shadow_transparent_witness:
  "\<exists>lines'. shadow_query demo_shadow_call demo_request (Inr (demo_evidence (JNum (1/2))) :: kernel_error + RetrievalEvidence)
     (Inr (Some (demo_evidence (JNum (500000001/1000000000)))) :: kernel_error + RetrievalEvidence option) [] =
     (Inr (demo_evidence (JNum (1/2))), lines') \<and>
    (\<exists>e. lines' = [(''shadow-decisions-2026-01-01.jsonl'', to_jsonl e)] \<and> sd_arbitration_outcome e = ''match'')"
proof -
  let ?c = "Inr (demo_evidence (JNum (1/2))) :: kernel_error + RetrievalEvidence"
  let ?s = "Inr (Some (demo_evidence (JNum (500000001/1000000000)))) :: kernel_error + RetrievalEvidence option"
  obtain res lines' where q: "shadow_query demo_shadow_call demo_request ?c ?s [] = (res, lines')" by (metis surj_pair)
  have en: "shadow_enabled (sc_environ demo_shadow_call) (qr_user_id demo_request)" by code_simp
  have "list_all2 same_hit (ev_hits (demo_evidence (JNum (1/2)))) (ev_hits (demo_evidence (JNum (500000001/1000000000))))"
    by (simp add: demo_evidence_def same_hit_def same_ids_def hit_get_def close_scores_def as_float_def py_eq_def)
      (intro exI [of _ "1/2"] conjI exI [of _ "500000001/1000000000"], simp_all)
  with shadow_transparent [OF q] en q show ?thesis
    by (fastforce simp: demo_shadow_call_def)
qed

end
