(* ===== verification/Discrepancy_Live.thy ===== *)
theory Discrepancy_Live
  imports Prelude
begin

text \<open>
  \<^verbatim>\<open>router/discrepancy_live.py\<close>: the rolling window per user and traffic source, and the process counters. A
  monotonic clock reading is a rational; each method runs under the lock, so it is one step. Proved: in any
  interleaving of writes and reads a rate is the rate over the outcomes of that user and source recorded in the
  closed window before the read, whoever else wrote or read in between.
\<close>

section \<open>Outcomes and traffic sources\<close>

datatype DualReadOutcome = Match | Diverge | PrimaryOnly | AphelionUnreachable | Skipped

definition outcome_value :: "DualReadOutcome \<Rightarrow> pystr" where
  "outcome_value o' = (case o' of Match \<Rightarrow> ''match'' | Diverge \<Rightarrow> ''diverge'' | PrimaryOnly \<Rightarrow> ''primary_only''
     | AphelionUnreachable \<Rightarrow> ''aphelion_unreachable'' | Skipped \<Rightarrow> ''skipped'')"

definition DEFAULT_TRAFFIC_SOURCE :: pystr where
  "DEFAULT_TRAFFIC_SOURCE = ''natural''"

definition normalize_traffic_source :: "pystr option \<Rightarrow> pystr" where
  "normalize_traffic_source v = (case v of None \<Rightarrow> DEFAULT_TRAFFIC_SOURCE
     | Some s \<Rightarrow> if lower (strip s) = ''synthetic'' then ''synthetic'' else DEFAULT_TRAFFIC_SOURCE)"

lemma normalize_traffic_source_idem: "normalize_traffic_source (Some (normalize_traffic_source v)) = normalize_traffic_source v"
proof -
  have "normalize_traffic_source v \<in> {''synthetic'', ''natural''}"
    by (auto simp: normalize_traffic_source_def DEFAULT_TRAFFIC_SOURCE_def split: option.splits)
  moreover have "normalize_traffic_source (Some ''synthetic'') = ''synthetic''" "normalize_traffic_source (Some ''natural'') = ''natural''"
    by code_simp+
  ultimately show ?thesis by auto
qed

section \<open>The rolling window\<close>

type_synonym live_key = "pystr \<times> pystr"

record LiveDiscrepancyCounter =
  window_seconds :: rat
  live_data :: "live_key \<rightharpoonup> (rat \<times> DualReadOutcome) list"

definition new_counter :: LiveDiscrepancyCounter where
  "new_counter = \<lparr>window_seconds = 3600, live_data = Map.empty\<rparr>"

definition trim :: "(rat \<times> DualReadOutcome) list \<Rightarrow> rat \<Rightarrow> (rat \<times> DualReadOutcome) list" where
  "trim dq cutoff = evict_loop cutoff dq"

definition live_record ::
  "rat \<Rightarrow> pystr \<Rightarrow> DualReadOutcome \<Rightarrow> pystr option \<Rightarrow> LiveDiscrepancyCounter \<Rightarrow> LiveDiscrepancyCounter" where
  "live_record now user_id outcome traffic_source c =
    (let cutoff = now - window_seconds c; source = normalize_traffic_source traffic_source;
         dq = (case live_data c (user_id, source) of None \<Rightarrow> [] | Some q \<Rightarrow> q)
     in c\<lparr>live_data := (live_data c)((user_id, source) \<mapsto> trim (dq @ [(now, outcome)]) cutoff)\<rparr>)"

definition in_live_window ::
  "rat \<Rightarrow> pystr \<Rightarrow> pystr option \<Rightarrow> LiveDiscrepancyCounter \<Rightarrow> (rat \<times> DualReadOutcome) list \<times> LiveDiscrepancyCounter" where
  "in_live_window now user_id traffic_source c =
    (let source = normalize_traffic_source traffic_source; cutoff = now - window_seconds c in
     case live_data c (user_id, source) of None \<Rightarrow> ([], c)
     | Some dq \<Rightarrow> if dq = [] then ([], c)
         else (trim dq cutoff, c\<lparr>live_data := (live_data c)((user_id, source) \<mapsto> trim dq cutoff)\<rparr>))"

definition rate_of :: "nat \<Rightarrow> nat \<Rightarrow> rat" where
  "rate_of k n = (if n = 0 then 0 else of_nat k / of_nat n)"

definition live_discrepancy_rate :: "rat \<Rightarrow> pystr \<Rightarrow> pystr option \<Rightarrow> LiveDiscrepancyCounter \<Rightarrow> rat \<times> LiveDiscrepancyCounter" where
  "live_discrepancy_rate now user_id traffic_source c =
    (let (entries, c') = in_live_window now user_id traffic_source c;
         denominator = length (filter (\<lambda>(_, o'). o' \<noteq> AphelionUnreachable) entries)
     in if denominator = 0 then (0, c')
        else (of_nat (length (filter (\<lambda>(_, o'). o' = Diverge) entries)) / of_nat denominator, c'))"

definition live_unreachable_rate :: "rat \<Rightarrow> pystr \<Rightarrow> pystr option \<Rightarrow> LiveDiscrepancyCounter \<Rightarrow> rat \<times> LiveDiscrepancyCounter" where
  "live_unreachable_rate now user_id traffic_source c =
    (let (entries, c') = in_live_window now user_id traffic_source c; total_n = length entries
     in if total_n = 0 then (0, c')
        else (of_nat (length (filter (\<lambda>(_, o'). o' = AphelionUnreachable) entries)) / of_nat total_n, c'))"

definition live_reset :: "LiveDiscrepancyCounter \<Rightarrow> LiveDiscrepancyCounter" where
  "live_reset c = c\<lparr>live_data := Map.empty\<rparr>"

interpretation live_window: sliding_window "\<lambda>c q. trim q c"
  unfolding trim_def by unfold_locales (rule evict_loop_suffix, rule evict_loop_head)

section \<open>The process counters\<close>

record live_metrics =
  outcomes_total :: "DualReadOutcome \<times> pystr \<times> pystr \<Rightarrow> nat"
  aphelion_total :: "pystr \<times> pystr \<Rightarrow> nat"
  requests_total :: "pystr \<Rightarrow> nat"
  singleton :: LiveDiscrepancyCounter

definition bump :: "'k \<Rightarrow> ('k \<Rightarrow> nat) \<Rightarrow> 'k \<Rightarrow> nat" where
  "bump k f = f(k := f k + 1)"

definition record_dual_read_outcome :: "rat \<Rightarrow> pystr \<Rightarrow> DualReadOutcome \<Rightarrow> pystr option \<Rightarrow> live_metrics \<Rightarrow> live_metrics" where
  "record_dual_read_outcome now user_id outcome traffic_source m =
    (let source = normalize_traffic_source traffic_source;
         m1 = m\<lparr>outcomes_total := bump (outcome, user_id, source) (outcomes_total m)\<rparr>;
         m2 = (if outcome \<noteq> Skipped then m1\<lparr>aphelion_total := bump (user_id, source) (aphelion_total m1)\<rparr> else m1)
     in m2\<lparr>singleton := live_record now user_id outcome (Some source) (singleton m2)\<rparr>)"

definition record_dual_read_request :: "pystr option \<Rightarrow> live_metrics \<Rightarrow> live_metrics" where
  "record_dual_read_request traffic_source m =
    m\<lparr>requests_total := bump (normalize_traffic_source traffic_source) (requests_total m)\<rparr>"

definition dual_read_discrepancy_rate :: "rat \<Rightarrow> pystr \<Rightarrow> pystr option \<Rightarrow> live_metrics \<Rightarrow> rat \<times> live_metrics" where
  "dual_read_discrepancy_rate now user_id traffic_source m =
    (let (r, c) = live_discrepancy_rate now user_id traffic_source (singleton m) in (r, m\<lparr>singleton := c\<rparr>))"

definition aphelion_unreachable_rate_live :: "rat \<Rightarrow> pystr \<Rightarrow> pystr option \<Rightarrow> live_metrics \<Rightarrow> rat \<times> live_metrics" where
  "aphelion_unreachable_rate_live now user_id traffic_source m =
    (let (r, c) = live_unreachable_rate now user_id traffic_source (singleton m) in (r, m\<lparr>singleton := c\<rparr>))"

section \<open>A rate depends only on the window\<close>

text \<open>Any sequence of writes and reads by any threads, in the order they took the lock.\<close>

datatype live_op = LRecord rat pystr DualReadOutcome "pystr option" | LRead rat pystr "pystr option"

fun live_time :: "live_op \<Rightarrow> rat" where
  "live_time (LRecord t u o' s) = t"
| "live_time (LRead t u s) = t"

fun run_live :: "live_op \<Rightarrow> LiveDiscrepancyCounter \<Rightarrow> LiveDiscrepancyCounter" where
  "run_live (LRecord t u o' s) c = live_record t u o' s c"
| "run_live (LRead t u s) c = snd (in_live_window t u s c)"

fun recorded :: "live_key \<Rightarrow> live_op list \<Rightarrow> (rat \<times> DualReadOutcome) list" where
  "recorded k [] = []"
| "recorded k (LRecord t u o' s # ops) = (if k = (u, normalize_traffic_source s) then [(t, o')] else []) @ recorded k ops"
| "recorded k (LRead t u s # ops) = recorded k ops"

definition deque :: "LiveDiscrepancyCounter \<Rightarrow> live_key \<Rightarrow> (rat \<times> DualReadOutcome) list" where
  "deque c k = (case live_data c k of None \<Rightarrow> [] | Some q \<Rightarrow> q)"

abbreviation since :: "rat \<Rightarrow> (rat \<times> DualReadOutcome) list \<Rightarrow> (rat \<times> DualReadOutcome) list" where
  "since t xs \<equiv> filter (\<lambda>x. t \<le> fst x) xs"

text \<open>At time \<open>t\<close> a deque is in time order and agrees with the record on everything a later read can see.\<close>

definition live_inv :: "rat \<Rightarrow> live_op list \<Rightarrow> LiveDiscrepancyCounter \<Rightarrow> bool" where
  "live_inv t ops c \<longleftrightarrow> (\<forall>k. sorted (map fst (deque c k)) \<and> (\<forall>x \<in> set (deque c k). fst x \<le> t) \<and>
     (\<forall>b \<ge> t - window_seconds c. since b (deque c k) = since b (recorded k ops)))"

lemma recorded_snoc: "recorded k (ops @ [op]) = recorded k ops @ recorded k [op]"
proof (induction ops)
  case (Cons a ops)
  then show ?case by (cases a) auto
qed simp

lemma since_since: "a \<le> b \<Longrightarrow> since b (since a xs) = since b xs"
  by (induction xs) auto

lemma trim_since: "sorted (map fst q) \<Longrightarrow> trim q c = since c q"
  by (rule live_window.evict_window)

lemma deque_record:
  "deque (live_record t u o' s c) k = (if k = (u, normalize_traffic_source s)
     then trim (deque c k @ [(t, o')]) (t - window_seconds c) else deque c k)"
  by (simp add: live_record_def deque_def Let_def)

lemma deque_read:
  "deque (snd (in_live_window t u s c)) k = (if k = (u, normalize_traffic_source s)
     then trim (deque c k) (t - window_seconds c) else deque c k)"
  "fst (in_live_window t u s c) = trim (deque c (u, normalize_traffic_source s)) (t - window_seconds c)"
  by (auto simp: in_live_window_def deque_def Let_def trim_def split: option.splits)

lemma window_frame [simp]:
  "window_seconds (live_record t u o' s c) = window_seconds c"
  "window_seconds (snd (in_live_window t u s c)) = window_seconds c"
  by (auto simp: live_record_def in_live_window_def Let_def split: option.splits)

lemma live_inv_step:
  assumes inv: "live_inv t ops c" and le: "t \<le> live_time op"
  shows "live_inv (live_time op) (ops @ [op]) (run_live op c)"
  unfolding live_inv_def
proof (intro allI conjI ballI impI)
  fix k
  let ?c' = "run_live op c" and ?t' = "live_time op"
  have so: "sorted (map fst (deque c k))" and bd0: "\<forall>x \<in> set (deque c k). fst x \<le> t"
    and eq: "t - window_seconds c \<le> b \<Longrightarrow> since b (deque c k) = since b (recorded k ops)" for b
    using inv unfolding live_inv_def by blast+
  have bd: "fst x \<le> ?t'" if "x \<in> set (deque c k)" for x
    using bd0 that le by force
  have w: "window_seconds ?c' = window_seconds c" by (cases op) simp_all
  have so': "sorted (map fst (deque c k @ recorded k [op]))"
    using so bd by (cases op) (auto simp: sorted_append)
  have dq: "deque ?c' k = since (?t' - window_seconds c) (deque c k @ recorded k [op]) \<or>
      (deque ?c' k = deque c k \<and> recorded k [op] = [])"
    using trim_since [OF so', of "?t' - window_seconds c"] by (cases op) (auto simp: deque_record deque_read)
  show "sorted (map fst (deque ?c' k))" using dq sorted_filter [OF so'] so by metis
  have bd': "fst x \<le> ?t'" if "x \<in> set (recorded k [op])" for x
    using that by (cases op) (auto split: if_splits)
  show "fst x \<le> ?t'" if "x \<in> set (deque ?c' k)" for x
  proof -
    have "x \<in> set (deque c k) \<or> x \<in> set (recorded k [op])" using dq that by auto
    then show ?thesis using bd bd' by blast
  qed
  fix b
  assume b: "?t' - window_seconds ?c' \<le> b"
  then have b': "t - window_seconds c \<le> b" "?t' - window_seconds c \<le> b" using le w by auto
  show "since b (deque ?c' k) = since b (recorded k (ops @ [op]))"
    using dq by (auto simp: recorded_snoc since_since [OF b'(2)] eq [OF b'(1)] simp del: filter_filter)
qed

lemma live_inv_run:
  assumes "sorted (map live_time ops)"
  shows "\<exists>t. (\<forall>op \<in> set ops. live_time op \<le> t) \<and> (ops \<noteq> [] \<longrightarrow> t = live_time (last ops)) \<and>
    live_inv t ops (fold run_live ops new_counter) \<and> window_seconds (fold run_live ops new_counter) = 3600"
  using assms
proof (induction ops rule: rev_induct)
  case Nil
  show ?case by (simp add: live_inv_def deque_def new_counter_def)
next
  case (snoc op ops)
  then obtain t where t: "\<forall>op \<in> set ops. live_time op \<le> t" "ops \<noteq> [] \<longrightarrow> t = live_time (last ops)"
    "live_inv t ops (fold run_live ops new_counter)" "window_seconds (fold run_live ops new_counter) = 3600"
    by (auto simp: sorted_append)
  have le: "\<forall>o' \<in> set ops. live_time o' \<le> live_time op" using snoc.prems by (auto simp: sorted_append)
  have inv: "live_inv (min t (live_time op)) ops (fold run_live ops new_counter)"
  proof (cases "ops = []")
    case True
    then show ?thesis by (simp add: live_inv_def deque_def new_counter_def)
  next
    case False
    then have "t \<le> live_time op" using t(2) le last_in_set by blast
    then show ?thesis using t(3) by (simp add: min_def)
  qed
  have "window_seconds (run_live op c) = window_seconds c" for c by (cases op) simp_all
  with live_inv_step [OF inv] le t(4) show ?case by (intro exI [of _ "live_time op"]) auto
qed

lemma read_window:
  assumes "sorted (map live_time ops)" "\<And>op. op \<in> set ops \<Longrightarrow> live_time op \<le> now"
  shows "fst (in_live_window now u s (fold run_live ops new_counter)) =
    since (now - 3600) (recorded (u, normalize_traffic_source s) ops)"
proof -
  let ?c = "fold run_live ops new_counter" and ?k = "(u, normalize_traffic_source s)"
  obtain t where t: "ops \<noteq> [] \<longrightarrow> t = live_time (last ops)" "live_inv t ops ?c" "window_seconds ?c = 3600"
    using live_inv_run [OF assms(1)] by blast
  show ?thesis
  proof (cases "ops = []")
    case True
    then show ?thesis by (simp add: in_live_window_def new_counter_def)
  next
    case False
    then have le: "t - 3600 \<le> now - 3600" using t(1) assms(2) last_in_set by fastforce
    have "sorted (map fst (deque ?c ?k))" "since (now - 3600) (deque ?c ?k) = since (now - 3600) (recorded ?k ops)"
      using t(2) le unfolding live_inv_def t(3) by blast+
    then show ?thesis by (simp add: deque_read t(3) trim_since)
  qed
qed

lemma count_entries:
  "length (filter (\<lambda>(_, o'). o' = x) es) = count_list (map snd es) x"
  "length (filter (\<lambda>(_, o'). o' \<noteq> x) es) = length es - count_list (map snd es) x"
proof -
  show c: "length (filter (\<lambda>(_, o'). o' = x) es) = count_list (map snd es) x"
    by (induction es) auto
  show "length (filter (\<lambda>(_, o'). o' \<noteq> x) es) = length es - count_list (map snd es) x"
    using sum_length_filter_compl [of "\<lambda>(_, o'). o' = x" es] c by (simp add: case_prod_unfold)
qed

lemma live_rates:
  "fst (live_discrepancy_rate now u s c) = (let w = map snd (fst (in_live_window now u s c)) in
     rate_of (count_list w Diverge) (length w - count_list w AphelionUnreachable))"
  "fst (live_unreachable_rate now u s c) = (let w = map snd (fst (in_live_window now u s c)) in
     rate_of (count_list w AphelionUnreachable) (length w))"
  by (cases "in_live_window now u s c";
      simp add: live_discrepancy_rate_def live_unreachable_rate_def count_entries rate_of_def Let_def)+

text \<open>After any writes and reads in clock order, both rates of a user and source are the rates over exactly the
  outcomes recorded for that user and source in the last hour, the boundary included: diverging ones among those that
  reached the second store, and unreachable ones among all. A quiet user's window empties by itself.\<close>

theorem live_rates_of_window:
  assumes "sorted (map live_time ops)" "\<And>op. op \<in> set ops \<Longrightarrow> live_time op \<le> now"
  shows "let c = fold run_live ops new_counter;
             w = map snd (since (now - 3600) (recorded (user, normalize_traffic_source s) ops)) in
    fst (live_discrepancy_rate now user s c) = rate_of (count_list w Diverge) (length w - count_list w AphelionUnreachable) \<and>
    fst (live_unreachable_rate now user s c) = rate_of (count_list w AphelionUnreachable) (length w)"
proof -
  have "fst (in_live_window now user s (fold run_live ops new_counter)) =
      since (now - 3600) (recorded (user, normalize_traffic_source s) ops)"
    by (rule read_window) (use assms in auto)
  then show ?thesis unfolding Let_def live_rates by (simp only: length_map simp_thms)
qed

lemma live_rates_of_window_witness:
  "fst (live_discrepancy_rate 3700 ''u'' None (fold run_live
     [LRecord 50 ''u'' Diverge None, LRecord 100 ''u'' Diverge None, LRead 100 ''v'' None, LRecord 200 ''u'' Match (Some ''odd'')]
     new_counter)) = 1 / 2"
proof -
  let ?ops = "[LRecord 50 ''u'' Diverge None, LRecord 100 ''u'' Diverge None, LRead 100 ''v'' None,
     LRecord 200 ''u'' Match (Some ''odd'')]"
  have "sorted (map live_time ?ops)" by simp
  moreover have "live_time op \<le> 3700" if "op \<in> set ?ops" for op using that by auto
  ultimately have "fst (live_discrepancy_rate 3700 ''u'' None (fold run_live ?ops new_counter)) =
      (let w = map snd (since (3700 - 3600) (recorded (''u'', normalize_traffic_source None) ?ops))
       in rate_of (count_list w Diverge) (length w - count_list w AphelionUnreachable))"
    using live_rates_of_window [of ?ops 3700 "''u''" None] unfolding Let_def by blast
  also have "normalize_traffic_source (Some ''odd'') = ''natural''" by code_simp
  then have "recorded (''u'', normalize_traffic_source None) ?ops = [(50, Diverge), (100, Diverge), (200, Match)]"
    by (simp add: normalize_traffic_source_def DEFAULT_TRAFFIC_SOURCE_def)
  finally show ?thesis by (simp add: rate_of_def)
qed

end
