(* ===== verification/Iso_Time.thy ===== *)
theory Iso_Time
  imports Audit_Row
begin

text \<open>
  The text the log writers give a clock reading in microseconds since 1970 (\<^verbatim>\<open>_now_iso_us\<close> and
  \<^verbatim>\<open>_now_iso_from_us\<close>): \<^verbatim>\<open>datetime.fromtimestamp(s, UTC).isoformat\<close> over the proleptic Gregorian calendar, which
  ends with the year 9999. Proved: the texts of two readings compare as the readings do, so the comparison of
  \<^verbatim>\<open>created_at\<close> columns is a comparison of times.
\<close>

section \<open>The calendar\<close>

definition year_days :: "nat \<Rightarrow> nat" where
  "year_days y = (if leap_year y then 366 else 365)"

lemma year_days_pos: "0 < year_days y"
  by (simp add: year_days_def)

function year_loop :: "nat \<Rightarrow> nat \<Rightarrow> nat \<times> nat" where
  "year_loop y n = (if n < year_days y then (y, n) else year_loop (Suc y) (n - year_days y))"
  by pat_completeness auto
termination
proof (relation "measure snd")
  fix y n :: nat
  assume "\<not> n < year_days y"
  then show "((Suc y, n - year_days y), (y, n)) \<in> measure snd"
    using year_days_pos [of y] by simp
qed simp

function month_loop :: "nat \<Rightarrow> nat \<Rightarrow> nat \<Rightarrow> nat \<times> nat" where
  "month_loop y m n = (if n < days_in_month y m \<or> 12 \<le> m then (m, n) else month_loop y (Suc m) (n - days_in_month y m))"
  by pat_completeness auto
termination
  by (relation "measure (\<lambda>(y, m, n). 12 - m)") auto

declare year_loop.simps [simp del] month_loop.simps [simp del]

lemma year_loop_ge: "y \<le> fst (year_loop y n)"
proof (induction y n rule: year_loop.induct)
  case (1 y n)
  then show ?case by (subst year_loop.simps) (auto dest: Suc_leD)
qed

lemma month_loop_ge: "m \<le> fst (month_loop y m n)"
proof (induction y m n rule: month_loop.induct)
  case (1 y m n)
  then show ?case by (subst month_loop.simps) (auto dest: Suc_leD)
qed

text \<open>Both loops respect the order of days.\<close>

definition lex2 :: "nat \<times> nat \<Rightarrow> nat \<times> nat \<Rightarrow> bool" where
  "lex2 a b \<longleftrightarrow> fst a < fst b \<or> (fst a = fst b \<and> snd a < snd b)"

lemma year_loop_mono: "n < k \<Longrightarrow> lex2 (year_loop y n) (year_loop y k)"
proof (induction y n arbitrary: k rule: year_loop.induct)
  case (1 y n)
  show ?case
  proof (cases "n < year_days y")
    case True
    show ?thesis
    proof (cases "k < year_days y")
      case True
      with \<open>n < year_days y\<close> "1.prems" show ?thesis by (simp add: year_loop.simps [of y] lex2_def)
    next
      case False
      with True year_loop_ge [of "Suc y" "k - year_days y"] show ?thesis
        by (simp add: year_loop.simps [of y] lex2_def)
    qed
  next
    case False
    with "1.prems" have "n - year_days y < k - year_days y" "\<not> k < year_days y" by simp_all
    with "1.IH" [OF False] False show ?thesis by (simp add: year_loop.simps [of y])
  qed
qed

lemma month_loop_mono: "n < k \<Longrightarrow> lex2 (month_loop y m n) (month_loop y m k)"
proof (induction y m n arbitrary: k rule: month_loop.induct)
  case (1 y m n)
  show ?case
  proof (cases "n < days_in_month y m \<or> 12 \<le> m")
    case True
    show ?thesis
    proof (cases "k < days_in_month y m \<or> 12 \<le> m")
      case k: True
      have n: "month_loop y m n = (m, n)" using True by (subst month_loop.simps) simp
      have "month_loop y m k = (m, k)" using k by (subst month_loop.simps) simp
      with n "1.prems" show ?thesis by (simp add: lex2_def)
    next
      case False
      have n: "month_loop y m n = (m, n)" using True by (subst month_loop.simps) simp
      have "month_loop y m k = month_loop y (Suc m) (k - days_in_month y m)"
        using False by (subst month_loop.simps) simp
      with n month_loop_ge [of "Suc m" y "k - days_in_month y m"] show ?thesis by (simp add: lex2_def)
    qed
  next
    case False
    with "1.prems" have less: "n - days_in_month y m < k - days_in_month y m" by auto
    have "month_loop y m n = month_loop y (Suc m) (n - days_in_month y m)"
      using False by (subst month_loop.simps) simp
    moreover have "month_loop y m k = month_loop y (Suc m) (k - days_in_month y m)"
      using False "1.prems" by (subst month_loop.simps) auto
    ultimately show ?thesis using "1.IH" [OF False less] by simp
  qed
qed

section \<open>Fixed-width decimals\<close>

fun pad :: "nat \<Rightarrow> nat \<Rightarrow> pystr" where
  "pad 0 n = []"
| "pad (Suc w) n = pad w (n div 10) @ [digit (n mod 10)]"

lemma pad_length [simp]: "length (pad w n) = w"
  by (induction w arbitrary: n) auto

lemma digit_less: "a < b \<Longrightarrow> b < 10 \<Longrightarrow> digit a < digit b"
  by (simp add: less_char_def digit_code)

lemma append_less_left: "(xs :: pystr) < ys \<Longrightarrow> length xs = length ys \<Longrightarrow> xs @ us < ys @ vs"
proof (induction xs arbitrary: ys)
  case (Cons x xs)
  then obtain y zs where ys: "ys = y # zs" by (cases ys) auto
  with Cons show ?case by auto
qed simp

lemma append_less_right: "(us :: pystr) < vs \<Longrightarrow> xs @ us < xs @ vs"
  by (induction xs) auto

lemma pad_less: "a < b \<Longrightarrow> b < 10 ^ w \<Longrightarrow> pad w a < pad w b"
proof (induction w arbitrary: a b)
  case (Suc w)
  show ?case
  proof (cases "a div 10 < b div 10")
    case True
    have "b div 10 < 10 ^ w" using Suc.prems by (simp add: less_mult_imp_div_less)
    with Suc.IH True show ?thesis by (auto intro: append_less_left)
  next
    case False
    then have eq: "a div 10 = b div 10" using Suc.prems by (meson div_le_mono le_neq_implies_less less_imp_le)
    then have "a mod 10 < b mod 10" using Suc.prems by (metis div_mult_mod_eq nat_add_left_cancel_less)
    then have "digit (a mod 10) < digit (b mod 10)" by (intro digit_less) auto
    then show ?thesis by (auto simp: eq intro!: append_less_right)
  qed
qed simp

section \<open>The text of a clock reading\<close>

text \<open>The days from 0001-01-01 to 1970-01-01.\<close>

definition EPOCH_DAYS :: int where
  "EPOCH_DAYS = 719162"

definition date_text :: "nat \<Rightarrow> pystr option" where
  "date_text days =
    (let (y, r) = year_loop 1 days; (m, d) = month_loop y 1 r in
     if 9999 < y then None else Some (pad 4 y @ ''-'' @ pad 2 m @ ''-'' @ pad 2 (d + 1)))"

definition clock_text :: "nat \<Rightarrow> pystr" where
  "clock_text us = pad 2 (us div 3600000000) @ '':'' @ pad 2 (us div 60000000 mod 60) @ '':'' @
     pad 2 (us div 1000000 mod 60) @ ''.'' @ pad 6 (us mod 1000000)"

text \<open>\<open>None\<close> is the \<^verbatim>\<open>ValueError\<close> for a year that the calendar does not have.\<close>

definition iso_us :: "int \<Rightarrow> pystr option" where
  "iso_us us =
    (let days = us div 86400000000 + EPOCH_DAYS; rest = nat (us mod 86400000000) in
     if days < 0 then None
     else case date_text (nat days) of None \<Rightarrow> None | Some d \<Rightarrow> Some (d @ ''T'' @ clock_text rest @ ''+00:00''))"

lemma days_in_month_le: "days_in_month y m \<le> 31"
  by (simp add: days_in_month_def)

lemma year_loop_rest: "snd (year_loop y n) \<le> 365"
proof (induction y n rule: year_loop.induct)
  case (1 y n)
  then show ?case by (subst year_loop.simps) (auto simp: year_days_def split: if_splits)
qed

lemma month_loop_bounds:
  "1 \<le> m \<Longrightarrow> m \<le> 12 \<Longrightarrow> n + 28 * m \<le> 393 \<Longrightarrow> fst (month_loop y m n) \<le> 12 \<and> snd (month_loop y m n) \<le> 57"
proof (induction y m n rule: month_loop.induct)
  case (1 y m n)
  show ?case
  proof (cases "n < days_in_month y m \<or> 12 \<le> m")
    case True
    then have "month_loop y m n = (m, n)" by (subst month_loop.simps) simp
    moreover have "n \<le> 57" using True "1.prems" days_in_month_le [of y m] by auto
    ultimately show ?thesis using "1.prems" by simp
  next
    case False
    have "28 \<le> days_in_month y m" by (simp add: days_in_month_def)
    moreover have "days_in_month y m \<le> n" using False by simp
    ultimately have "n - days_in_month y m + 28 * Suc m \<le> 393" using "1.prems" by simp
    moreover have "month_loop y m n = month_loop y (Suc m) (n - days_in_month y m)"
      using False by (subst month_loop.simps) simp
    ultimately show ?thesis using "1.IH" [OF False] False by simp
  qed
qed

lemma date_text_less:
  assumes "a < b" "date_text a = Some s" "date_text b = Some t"
  shows "s < t"
proof -
  obtain y r m d where a: "year_loop 1 a = (y, r)" "month_loop y 1 r = (m, d)" by (metis surj_pair)
  obtain y' r' m' d' where b: "year_loop 1 b = (y', r')" "month_loop y' 1 r' = (m', d')" by (metis surj_pair)
  have s: "s = pad 4 y @ ''-'' @ pad 2 m @ ''-'' @ pad 2 (d + 1)" and t: "t = pad 4 y' @ ''-'' @ pad 2 m' @ ''-'' @ pad 2 (d' + 1)"
    and y': "y' \<le> 9999"
    using assms(2,3) a b by (auto simp: date_text_def split: if_splits)
  have r': "r' \<le> 365" using year_loop_rest [of 1 b] b by simp
  have md': "m' \<le> 12" "d' \<le> 57" using month_loop_bounds [of 1 r' y'] r' b by simp_all
  have l: "y < y' \<or> (y = y' \<and> r < r')" using year_loop_mono [OF assms(1), of 1] a b by (simp add: lex2_def)
  show ?thesis
  proof (cases "y < y'")
    case True
    have "(10::nat) ^ 4 = 10000" by simp
    then have "pad 4 y < pad 4 y'" using True y' by (intro pad_less) simp_all
    then show ?thesis unfolding s t by (rule append_less_left) simp
  next
    case False
    with l have y: "y = y'" "r < r'" by auto
    then have "m < m' \<or> (m = m' \<and> d < d')" using month_loop_mono [OF y(2), of y' 1] a b by (simp add: lex2_def)
    then show ?thesis
    proof
      assume "m < m'"
      then have "pad 2 m < pad 2 m'" using md' by (intro pad_less) (simp_all add: power2_eq_square)
      then show ?thesis unfolding s t y(1) by (intro append_less_right append_less_left) simp_all
    next
      assume "m = m' \<and> d < d'"
      then have m: "m = m'" and "d + 1 < d' + 1" by auto
      then have "pad 2 (d + 1) < pad 2 (d' + 1)" using md' by (intro pad_less) (simp_all add: power2_eq_square)
      then show ?thesis unfolding s t y(1) m by (intro append_less_right)
    qed
  qed
qed

lemma div_mod_less: "a < b \<Longrightarrow> a div k < b div k \<or> (a div k = b div k \<and> a mod k < b mod k)" for a b k :: nat
  by (metis add_less_cancel_left div_le_mono le_neq_implies_less less_imp_le mult_div_mod_eq)

lemma clock_text_less:
  assumes "a < b" "b < 86400000000"
  shows "clock_text a < clock_text b"
proof -
  let ?h = "\<lambda>x :: nat. x div 3600000000" and ?m = "\<lambda>x :: nat. x div 60000000 mod 60"
  let ?s = "\<lambda>x :: nat. x div 1000000 mod 60" and ?u = "\<lambda>x :: nat. x mod 1000000"
  have p2: "(10::nat) ^ 2 = 100" and p6: "(10::nat) ^ 6 = 1000000" by simp_all
  have dd: "x div 1000000 div 60 = x div 60000000" "x div 60000000 div 60 = ?h x" for x :: nat
    by (simp_all add: div_mult2_eq [symmetric])
  have eq: "x div 60000000 = y div 60000000 \<Longrightarrow> ?h x = ?h y \<and> ?m x = ?m y"
    "x div 1000000 = y div 1000000 \<Longrightarrow> x div 60000000 = y div 60000000 \<and> ?s x = ?s y" for x y :: nat
    by (metis dd(2)) (metis dd(1))
  have "?h a < ?h b \<or> (?h a = ?h b \<and> (?m a < ?m b \<or> (?m a = ?m b \<and> (?s a < ?s b \<or> (?s a = ?s b \<and> ?u a < ?u b)))))"
    using div_mod_less [OF assms(1), of 1000000] div_mod_less [of "a div 1000000" "b div 1000000" 60]
      div_mod_less [of "a div 60000000" "b div 60000000" 60] eq unfolding dd by blast
  moreover have hb: "?h b < 100" using assms(2) by (simp add: less_mult_imp_div_less)
  ultimately consider "?h a < ?h b" | "?h a = ?h b" "?m a < ?m b" | "?h a = ?h b" "?m a = ?m b" "?s a < ?s b"
    | "?h a = ?h b" "?m a = ?m b" "?s a = ?s b" "?u a < ?u b" by blast
  then show ?thesis
  proof cases
    case 1
    then have "pad 2 (?h a) < pad 2 (?h b)" using hb by (intro pad_less) (simp_all only: p2)
    then show ?thesis unfolding clock_text_def by (rule append_less_left) simp
  next
    case 2
    have "?m b < 60" by simp
    then have "pad 2 (?m a) < pad 2 (?m b)" using 2 by (intro pad_less) (simp_all only: p2)
    then show ?thesis unfolding clock_text_def 2(1) by (intro append_less_right append_less_left) simp_all
  next
    case 3
    have "?s b < 60" by simp
    then have "pad 2 (?s a) < pad 2 (?s b)" using 3 by (intro pad_less) (simp_all only: p2)
    then show ?thesis unfolding clock_text_def 3(1,2) by (intro append_less_right append_less_left) simp_all
  next
    case 4
    have "?u b < 1000000" by simp
    then have "pad 6 (?u a) < pad 6 (?u b)" using 4 by (intro pad_less) (simp_all only: p6)
    then show ?thesis unfolding clock_text_def 4(1-3) by (intro append_less_right)
  qed
qed

lemma iso_us_less:
  assumes "a < b" "iso_us a = Some s" "iso_us b = Some t"
  shows "s < t"
proof -
  let ?D = "86400000000 :: int"
  let ?d = "\<lambda>x. nat (x div ?D + EPOCH_DAYS)" and ?r = "\<lambda>x. nat (x mod ?D)"
  obtain ds where s: "date_text (?d a) = Some ds" "s = ds @ ''T'' @ clock_text (?r a) @ ''+00:00''" "0 \<le> a div ?D + EPOCH_DAYS"
    using assms(2) by (auto simp: iso_us_def Let_def split: if_splits option.splits)
  obtain dt where t: "date_text (?d b) = Some dt" "t = dt @ ''T'' @ clock_text (?r b) @ ''+00:00''" "0 \<le> b div ?D + EPOCH_DAYS"
    using assms(3) by (auto simp: iso_us_def Let_def split: if_splits option.splits)
  have len: "length ds = 10" "length dt = 10"
    using s(1) t(1) by (auto simp: date_text_def Let_def split: prod.splits if_splits)
  have "a div ?D \<le> b div ?D" using assms(1) by (simp add: zdiv_mono1)
  then have "a div ?D + EPOCH_DAYS < b div ?D + EPOCH_DAYS \<or> a div ?D = b div ?D" by auto
  then have "?d a < ?d b \<or> a div ?D = b div ?D" by (simp only: nat_less_eq_zless [OF s(3)])
  then consider "?d a < ?d b" | "a div ?D = b div ?D" by blast
  then show ?thesis
  proof cases
    case 1
    then have "ds < dt" using s(1) t(1) by (rule date_text_less)
    then show ?thesis unfolding s(2) t(2) by (rule append_less_left) (simp add: len)
  next
    case 2
    then have "ds = dt" using s(1) t(1) by simp
    have "a mod ?D < b mod ?D" using 2 assms(1) by (metis div_mult_mod_eq add_less_cancel_left)
    then have "?r a < ?r b" by simp
    moreover have "?r b < 86400000000" by (simp add: nat_less_iff)
    ultimately have "clock_text (?r a) < clock_text (?r b)" by (rule clock_text_less)
    moreover have "length (clock_text (?r a)) = length (clock_text (?r b))" by (simp add: clock_text_def)
    ultimately show ?thesis unfolding s(2) t(2) \<open>ds = dt\<close>
      by (intro append_less_right append_less_left)
  qed
qed

text \<open>The comparison of two texts is the comparison of the readings.\<close>

lemma iso_us_le_iff:
  assumes "iso_us a = Some s" "iso_us b = Some t"
  shows "s \<le> t \<longleftrightarrow> a \<le> b"
proof (cases a b rule: linorder_cases)
  case less
  then show ?thesis using iso_us_less [OF less assms] by simp
next
  case equal
  then show ?thesis using assms by simp
next
  case greater
  then show ?thesis using iso_us_less [OF greater assms(2,1)] by simp
qed

section \<open>Reading the text back\<close>

definition days_before :: "nat \<Rightarrow> nat \<Rightarrow> nat" where
  "days_before y m = sum_list (map year_days [1..<y]) + sum_list (map (days_in_month y) [1..<m])"

text \<open>
  \<^verbatim>\<open>datetime.fromisoformat\<close> on a text of the writers: the reading its fields denote, if that reading has this text.
  The other formats of the function are the parameter \<open>other\<close>.
\<close>

definition iso_fields :: "pystr \<Rightarrow> int" where
  "iso_fields s = (let f = (\<lambda>a n. num2 (take n (drop a s))); y = f 0 4; m = f 5 2; d = f 8 2 in
     (int (days_before y m + d - 1) - EPOCH_DAYS) * 86400000000 +
     int (f 11 2 * 3600000000 + f 14 2 * 60000000 + f 17 2 * 1000000 + f 20 6))"

definition fromisoformat :: "(pystr \<Rightarrow> int option) \<Rightarrow> pystr \<Rightarrow> int option" where
  "fromisoformat other s = (let t = iso_fields s in if iso_us t = Some s then Some t else other s)"

lemma num2_snoc: "d < 10 \<Longrightarrow> 0 \<le> int_of_digits s \<Longrightarrow> num2 (s @ [digit d]) = num2 s * 10 + d"
  by (simp add: num2_def int_of_digits_def digit_code_int nat_add_distrib nat_mult_distrib)

lemma pad_digits: "n < 10 ^ w \<Longrightarrow> 0 \<le> int_of_digits (pad w n) \<and> num2 (pad w n) = n"
proof (induction w arbitrary: n)
  case 0
  then show ?case by (simp add: num2_def int_of_digits_def)
next
  case (Suc w)
  then have "n div 10 < 10 ^ w" by (simp add: less_mult_imp_div_less)
  from Suc.IH [OF this] have IH: "0 \<le> int_of_digits (pad w (n div 10))" "num2 (pad w (n div 10)) = n div 10" by simp_all
  have "int_of_digits (pad (Suc w) n) = int_of_digits (pad w (n div 10)) * 10 + int (n mod 10)"
    by (simp add: int_of_digits_def digit_code_int)
  with IH num2_snoc [of "n mod 10", OF _ IH(1)] show ?case by simp
qed

lemma year_loop_days: "y \<le> fst (year_loop y n) \<and> n = sum_list (map year_days [y..<fst (year_loop y n)]) + snd (year_loop y n)"
proof (induction y n rule: year_loop.induct)
  case (1 y n)
  show ?case
  proof (cases "n < year_days y")
    case True
    then show ?thesis by (subst (1 2 3) year_loop.simps) simp
  next
    case False
    have e: "year_loop y n = year_loop (Suc y) (n - year_days y)" using False by (subst year_loop.simps) simp
    have up: "[y..<fst (year_loop y n)] = y # [Suc y..<fst (year_loop y n)]"
      using year_loop_ge [of "Suc y" "n - year_days y"] e by (simp add: upt_conv_Cons)
    show ?thesis using "1.IH" [OF False] False unfolding up e [symmetric] by (simp, linarith)
  qed
qed

lemma month_loop_days: "m \<le> fst (month_loop y m n) \<and>
  n = sum_list (map (days_in_month y) [m..<fst (month_loop y m n)]) + snd (month_loop y m n)"
proof (induction y m n rule: month_loop.induct)
  case (1 y m n)
  show ?case
  proof (cases "n < days_in_month y m \<or> 12 \<le> m")
    case True
    then show ?thesis by (subst (1 2 3) month_loop.simps) simp
  next
    case False
    have e: "month_loop y m n = month_loop y (Suc m) (n - days_in_month y m)" using False by (subst month_loop.simps) simp
    have up: "[m..<fst (month_loop y m n)] = m # [Suc m..<fst (month_loop y m n)]"
      using month_loop_ge [of "Suc m" y "n - days_in_month y m"] e by (simp add: upt_conv_Cons)
    show ?thesis using "1.IH" [OF False] False unfolding up e [symmetric] by (simp, linarith)
  qed
qed

lemma mixed_radix:
  "x = s * 1000000 + u \<Longrightarrow> s = m * 60 + ss \<Longrightarrow> m = h * 60 + mm \<Longrightarrow>
   h * 3600000000 + mm * 60000000 + ss * 1000000 + u = x" for x :: nat
  by simp

lemma iso_fields_iso:
  assumes "iso_us t = Some s"
  shows "iso_fields s = t"
proof -
  let ?D = "86400000000 :: int"
  let ?d = "nat (t div ?D + EPOCH_DAYS)" and ?r = "nat (t mod ?D)"
  obtain y r m d where l: "year_loop 1 ?d = (y, r)" "month_loop y 1 r = (m, d)" by (metis surj_pair)
  have pos: "0 \<le> t div ?D + EPOCH_DAYS" and y: "y \<le> 9999"
    and s: "s = (pad 4 y @ ''-'' @ pad 2 m @ ''-'' @ pad 2 (d + 1)) @ ''T'' @ clock_text ?r @ ''+00:00''"
    using assms l by (auto simp: iso_us_def date_text_def Let_def split: if_splits)
  have bounds: "m \<le> 12" "d \<le> 57" using month_loop_bounds [of 1 r y] year_loop_rest [of 1 ?d] l by simp_all
  have r: "?r < 86400000000" by (simp add: nat_less_iff)
  have p: "(10::nat) ^ 4 = 10000" "(10::nat) ^ 2 = 100" "(10::nat) ^ 6 = 1000000" by simp_all
  have days: "days_before y m + d = ?d"
    using year_loop_days [of 1 ?d] month_loop_days [of 1 y r] l by (simp add: days_before_def)
  have h: "?r div 3600000000 < 100" using r by (simp add: less_mult_imp_div_less)
  have n: "num2 (pad 4 y) = y" "num2 (pad 2 m) = m" "num2 (pad 2 (d + 1)) = d + 1" "num2 (pad 2 (?r div 3600000000)) = ?r div 3600000000"
    "num2 (pad 2 (?r div 60000000 mod 60)) = ?r div 60000000 mod 60" "num2 (pad 2 (?r div 1000000 mod 60)) = ?r div 1000000 mod 60"
    "num2 (pad 6 (?r mod 1000000)) = ?r mod 1000000"
    by (intro conjunct2 [OF pad_digits]; unfold p; use y bounds h in simp)+
  have n3: "num2 (pad 2 (Suc d)) = Suc d" using n(3) by (simp only: Suc_eq_plus1)
  have f: "num2 (take 4 (drop 0 s)) = y" "num2 (take 2 (drop 5 s)) = m" "num2 (take 2 (drop 8 s)) = d + 1"
    "num2 (take 2 (drop 11 s)) = ?r div 3600000000" "num2 (take 2 (drop 14 s)) = ?r div 60000000 mod 60"
    "num2 (take 2 (drop 17 s)) = ?r div 1000000 mod 60" "num2 (take 6 (drop 20 s)) = ?r mod 1000000"
    unfolding s clock_text_def by (simp_all add: n n3 del: pad.simps)
  have clock: "x div 3600000000 * 3600000000 + x div 60000000 mod 60 * 60000000 + x div 1000000 mod 60 * 1000000 + x mod 1000000 = x"
    for x :: nat
  proof (rule mixed_radix)
    show "x = x div 1000000 * 1000000 + x mod 1000000" by simp
    show "x div 1000000 = x div 60000000 * 60 + x div 1000000 mod 60"
      using div_mult_mod_eq [of "x div 1000000" 60] by (simp add: div_mult2_eq [symmetric])
    show "x div 60000000 = x div 3600000000 * 60 + x div 60000000 mod 60"
      using div_mult_mod_eq [of "x div 60000000" 60] by (simp add: div_mult2_eq [symmetric])
  qed
  have "iso_fields s = (int ?d - EPOCH_DAYS) * ?D + int ?r"
    unfolding iso_fields_def Let_def f clock using days by simp
  also have "\<dots> = t" using pos by simp
  finally show ?thesis .
qed

lemma fromisoformat_iso: "iso_us t = Some s \<Longrightarrow> fromisoformat other s = Some t"
  by (simp add: fromisoformat_def iso_fields_iso)

end
