(* ===== verification/Conflict_Writer.thy ===== *)
theory Conflict_Writer
  imports Store Iso_Time Live_Arbitration
begin

text \<open>
  \<^verbatim>\<open>events/conflict_writer.py\<close>: the row a verdict that needs a manual review leaves in the \<^verbatim>\<open>events\<close> table. The
  clock reading, the minted id and whether the two statements raise are arguments. Proved: two rows of one reference
  and rule are always more than an hour apart, and a call returns the id of such a row of the last hour, or counts a
  failure and changes nothing.
\<close>

definition NO_CANONICAL_REF_SENTINEL :: pystr where
  "NO_CANONICAL_REF_SENTINEL = ''__no_canonical_ref__''"

definition CONFLICT_EVENT_SYSTEM_USER_ID :: pystr where
  "CONFLICT_EVENT_SYSTEM_USER_ID = ''__system__''"

definition CONFLICT_SCHEMA_VERSION :: pystr where
  "CONFLICT_SCHEMA_VERSION = ''1.0''"

definition DEDUP_WINDOW_SECONDS :: int where
  "DEDUP_WINDOW_SECONDS = 3600"

section \<open>The key and the envelope\<close>

definition evidence_first_id :: "RetrievalEvidence option \<Rightarrow> pystr option" where
  "evidence_first_id ev = (case ev of None \<Rightarrow> None | Some e \<Rightarrow> (case ev_hits e of [] \<Rightarrow> None
     | first # _ \<Rightarrow> string_field first ''id''))"

definition derive_canonical_ref :: "RetrievalEvidence \<Rightarrow> RetrievalEvidence option \<Rightarrow> pystr" where
  "derive_canonical_ref primary secondary = (case evidence_first_id (Some primary) of Some ref \<Rightarrow> ref
     | None \<Rightarrow> (case evidence_first_id secondary of Some ref \<Rightarrow> ref | None \<Rightarrow> NO_CANONICAL_REF_SENTINEL))"

definition decision_payload_dict :: "LiveArbitrationDecision \<Rightarrow> json" where
  "decision_payload_dict d = (case to_json_line d of JText j \<Rightarrow> j | _ \<Rightarrow> JNull)"

definition build_envelope :: "LiveArbitrationDecision \<Rightarrow> int \<Rightarrow> DataQualityFlag \<Rightarrow> (pystr \<times> json) list" where
  "build_envelope d timestamp_us_utc flag =
    [(''event_type'', JStr ''arbitration_conflict''), (''correlation_id'', JStr (la_correlation_id d)),
     (''timestamp_us_utc'', JInt timestamp_us_utc), (''schema_version'', JStr CONFLICT_SCHEMA_VERSION),
     (''payload'', decision_payload_dict d), (''data_quality_flag'', JStr (data_quality_value flag))]"

definition dedup_key :: "LiveArbitrationDecision \<Rightarrow> pystr" where
  "dedup_key d = ''rule:'' @ tie_breaker_rule d"

section \<open>The statements\<close>

text \<open>\<^verbatim>\<open>ORDER BY created_at DESC LIMIT 1\<close>; of rows with the same text the first.\<close>

fun newest :: "event_row list \<Rightarrow> event_row option" where
  "newest [] = None"
| "newest (e # es) = (case newest es of None \<Rightarrow> Some e
     | Some x \<Rightarrow> if evt_created_at x \<le> evt_created_at e then Some e else Some x)"

definition payload_ts :: "event_row \<Rightarrow> kernel_error + int option" where
  "payload_ts e = (case evt_payload_json e of
     JText (JObj kvs) \<Rightarrow> (case map_of kvs ''timestamp_us_utc'' of Some (JInt i) \<Rightarrow> Inr (Some i)
        | Some (JBool b) \<Rightarrow> Inr (Some (of_bool b)) | _ \<Rightarrow> Inr None)
   | JText _ \<Rightarrow> Inl AttributeError | _ \<Rightarrow> Inr None)"

definition conflict_rows :: "pystr \<Rightarrow> pystr \<Rightarrow> db \<Rightarrow> event_row list" where
  "conflict_rows canonical_ref conflict_field d =
    filter (\<lambda>e. evt_type e = ''arbitration_conflict'' \<and> evt_target_id e = Some canonical_ref \<and>
      evt_approval_tier e = Some conflict_field) (events d)"

definition select_existing_event_id :: "pystr \<Rightarrow> pystr \<Rightarrow> int \<Rightarrow> db \<Rightarrow> kernel_error + pystr option" where
  "select_existing_event_id canonical_ref conflict_field window_start_us d =
    (case iso_us window_start_us of None \<Rightarrow> Inl (ValueError ''year'')
     | Some start_iso \<Rightarrow>
        (case newest (filter (\<lambda>e. start_iso \<le> evt_created_at e) (conflict_rows canonical_ref conflict_field d)) of
           None \<Rightarrow> Inr None
         | Some e \<Rightarrow> and_then (payload_ts e) (\<lambda>ts. Inr (case ts of None \<Rightarrow> None
             | Some ts \<Rightarrow> if window_start_us \<le> ts then Some (evt_id e) else None))))"

definition conflict_row :: "pystr \<Rightarrow> pystr \<Rightarrow> pystr \<Rightarrow> pystr \<Rightarrow> jtext \<Rightarrow> pystr \<Rightarrow> event_row" where
  "conflict_row event_id user_id canonical_ref conflict_field payload created_at =
    \<lparr>evt_id = event_id, evt_user_id = user_id, evt_actor = ''system'', evt_type = ''arbitration_conflict'',
     evt_target_kind = Some ''arbitration_conflict_dedup'', evt_target_id = Some canonical_ref,
     evt_payload_json = payload, evt_approval_tier = Some conflict_field, evt_created_at = created_at,
     evt_session_id = None\<rparr>"

section \<open>The call\<close>

record conflict_store =
  cs_db :: db
  dedup_hits :: nat
  write_failures :: nat

record conflict_call =
  cc_select_ok :: bool
  cc_insert_ok :: bool
  cc_event_id :: pystr
  cc_now_us :: int
  cc_flag :: DataQualityFlag

definition conflict_attempt ::
  "conflict_call \<Rightarrow> LiveArbitrationDecision \<Rightarrow> RetrievalEvidence \<Rightarrow> RetrievalEvidence option \<Rightarrow> pystr \<Rightarrow> conflict_store \<Rightarrow>
   kernel_error + pystr \<times> conflict_store" where
  "conflict_attempt call decision primary secondary uid st =
    (let ref = derive_canonical_ref primary secondary; key = dedup_key decision;
         window_start_us = cc_now_us call - DEDUP_WINDOW_SECONDS * 1000000
     in and_then (if cc_select_ok call then select_existing_event_id ref key window_start_us (cs_db st) else Inl (RuntimeError ''sqlite''))
       (\<lambda>existing. case existing of Some event_id \<Rightarrow> Inr (event_id, st\<lparr>dedup_hits := dedup_hits st + 1\<rparr>)
        | None \<Rightarrow>
          (let payload = dumps_sorted (build_envelope decision (cc_now_us call) (cc_flag call));
               user_id = (if uid \<noteq> [] then uid else CONFLICT_EVENT_SYSTEM_USER_ID)
           in case iso_us (cc_now_us call) of None \<Rightarrow> Inl (ValueError ''year'')
              | Some created_at \<Rightarrow>
                 if \<not> cc_insert_ok call then Inl (RuntimeError ''sqlite'')
                 else and_then (insert_event (conflict_row (cc_event_id call) user_id ref key payload created_at) (cs_db st))
                   (\<lambda>d. Inr (cc_event_id call, st\<lparr>cs_db := d\<rparr>)))))"

definition write_conflict_event ::
  "conflict_call \<Rightarrow> LiveArbitrationDecision \<Rightarrow> RetrievalEvidence \<Rightarrow> RetrievalEvidence option \<Rightarrow> pystr \<Rightarrow> conflict_store \<Rightarrow>
   pystr \<times> conflict_store" where
  "write_conflict_event call decision primary secondary uid st =
    (case conflict_attempt call decision primary secondary uid st of Inr r \<Rightarrow> r
     | Inl _ \<Rightarrow> ([], st\<lparr>write_failures := write_failures st + 1\<rparr>))"

section \<open>One row an hour\<close>

definition HOUR :: int where
  "HOUR = 3600000000"

definition conflict_ts :: "event_row \<Rightarrow> int" where
  "conflict_ts e = (case payload_ts e of Inr (Some t) \<Rightarrow> t | _ \<Rightarrow> 0)"

text \<open>The rows of the writer: each carries its time twice, and rows of one key are more than an hour apart.\<close>

definition conflict_ok :: "db \<Rightarrow> bool" where
  "conflict_ok d \<longleftrightarrow> (\<forall>ref key.
     (\<forall>e \<in> set (conflict_rows ref key d). payload_ts e = Inr (Some (conflict_ts e)) \<and> iso_us (conflict_ts e) = Some (evt_created_at e)) \<and>
     sorted_wrt (\<lambda>e e'. conflict_ts e + HOUR < conflict_ts e') (conflict_rows ref key d))"

lemma newest_mem: "newest es = Some e \<Longrightarrow> e \<in> set es"
  by (induction es arbitrary: e) (auto split: option.splits if_splits)

lemma newest_None: "newest es = None \<longleftrightarrow> es = []"
  by (cases es) (auto split: option.splits)

lemma select_spec:
  assumes ok: "conflict_ok d" and sel: "select_existing_event_id ref key start d = Inr r"
  shows "case r of None \<Rightarrow> \<forall>e \<in> set (conflict_rows ref key d). conflict_ts e < start
    | Some i \<Rightarrow> \<exists>e \<in> set (conflict_rows ref key d). evt_id e = i \<and> start \<le> conflict_ts e"
proof -
  obtain iso where iso: "iso_us start = Some iso" using sel by (auto simp: select_existing_event_id_def split: option.splits)
  let ?rows = "conflict_rows ref key d"
  let ?in = "filter (\<lambda>e. iso \<le> evt_created_at e) ?rows"
  have row: "payload_ts e = Inr (Some (conflict_ts e))" "iso \<le> evt_created_at e \<longleftrightarrow> start \<le> conflict_ts e"
    if "e \<in> set ?rows" for e
    using ok that iso_us_le_iff [OF iso] unfolding conflict_ok_def by blast+
  show ?thesis
  proof (cases "newest ?in")
    case None
    then have "r = None" using sel iso by (simp add: select_existing_event_id_def)
    moreover have "?in = []" using None by (simp only: newest_None)
    then have "\<forall>e \<in> set ?rows. \<not> iso \<le> evt_created_at e" by (simp add: filter_empty_conv)
    ultimately show ?thesis using row(2) by (simp add: not_le)
  next
    case (Some e)
    then have e: "e \<in> set ?rows" "iso \<le> evt_created_at e" using newest_mem by fastforce+
    then have "start \<le> conflict_ts e" using row(2) by blast
    moreover from this have "r = Some (evt_id e)"
      using sel iso Some row(1) [OF e(1)] by (simp add: select_existing_event_id_def)
    ultimately show ?thesis using e(1) by auto
  qed
qed

lemma envelope_ts: "payload_ts (conflict_row i u ref key (dumps_sorted (build_envelope d t f)) c) = Inr (Some t)"
proof -
  have "map_of (sort_key fst (build_envelope d t f)) ''timestamp_us_utc'' = map_of (build_envelope d t f) ''timestamp_us_utc''"
    by (rule sorted_lookup) (simp add: build_envelope_def)
  then show ?thesis by (simp add: payload_ts_def conflict_row_def dumps_sorted_def build_envelope_def)
qed

lemma conflict_ok_insert:
  assumes ok: "conflict_ok d" and e: "payload_ts e = Inr (Some t)" "iso_us t = Some (evt_created_at e)"
    and old: "\<And>x ref key. x \<in> set (conflict_rows ref key d) \<Longrightarrow> evt_target_id e = Some ref \<Longrightarrow> evt_approval_tier e = Some key \<Longrightarrow>
      conflict_ts x < t - HOUR"
  shows "conflict_ok (d\<lparr>events := events d @ [e]\<rparr>)"
  unfolding conflict_ok_def
proof (intro allI)
  fix ref key
  have rows: "conflict_rows ref key (d\<lparr>events := events d @ [e]\<rparr>) = conflict_rows ref key d @
      (if evt_type e = ''arbitration_conflict'' \<and> evt_target_id e = Some ref \<and> evt_approval_tier e = Some key then [e] else [])"
    by (simp add: conflict_rows_def)
  have t: "conflict_ts e = t" using e(1) by (simp add: conflict_ts_def)
  show "(\<forall>x \<in> set (conflict_rows ref key (d\<lparr>events := events d @ [e]\<rparr>)). payload_ts x = Inr (Some (conflict_ts x)) \<and>
      iso_us (conflict_ts x) = Some (evt_created_at x)) \<and>
    sorted_wrt (\<lambda>e e'. conflict_ts e + HOUR < conflict_ts e') (conflict_rows ref key (d\<lparr>events := events d @ [e]\<rparr>))"
    unfolding rows using ok e old [of _ ref key] t unfolding conflict_ok_def by (fastforce simp: sorted_wrt_append)
qed

text \<open>C38: on a store whose rows of one reference and rule are more than an hour apart, whatever fails, a call keeps them so.
  It either returns the id of a row of its own reference and rule that is at most an hour older than the call (a new row
  stamped with the call's time, or an existing one, counted as a duplicate), or it returns the empty text, counts one
  failure and leaves the table as it was.\<close>

theorem conflict_event_dedup:
  assumes ok: "conflict_ok (cs_db st)"
    and run: "write_conflict_event call decision primary secondary uid st = (res, st')"
  shows "conflict_ok (cs_db st') \<and>
    ((res = [] \<and> st' = st\<lparr>write_failures := write_failures st + 1\<rparr>) \<or>
     (\<exists>e \<in> set (conflict_rows (derive_canonical_ref primary secondary) (dedup_key decision) (cs_db st')).
        evt_id e = res \<and> cc_now_us call - HOUR \<le> conflict_ts e \<and> write_failures st' = write_failures st \<and>
        ((cs_db st' = cs_db st \<and> dedup_hits st' = dedup_hits st + 1) \<or>
         (events (cs_db st') = events (cs_db st) @ [e] \<and> conflict_ts e = cc_now_us call \<and> dedup_hits st' = dedup_hits st))))"
proof (cases "conflict_attempt call decision primary secondary uid st")
  case (Inl x)
  then have "res = [] \<and> st' = st\<lparr>write_failures := write_failures st + 1\<rparr>"
    using run by (simp add: write_conflict_event_def)
  with ok show ?thesis by simp
next
  case (Inr r)
  then have att: "conflict_attempt call decision primary secondary uid st = Inr (res, st')"
    using run by (simp add: write_conflict_event_def)
  let ?ref = "derive_canonical_ref primary secondary" and ?key = "dedup_key decision" and ?start = "cc_now_us call - HOUR"
  have start: "cc_now_us call - DEDUP_WINDOW_SECONDS * 1000000 = ?start" by (simp add: DEDUP_WINDOW_SECONDS_def HOUR_def)
  obtain existing where sel: "select_existing_event_id ?ref ?key ?start (cs_db st) = Inr existing"
    using att unfolding conflict_attempt_def start Let_def by (auto simp: and_then_Inr split: if_splits)
  note spec = select_spec [OF ok sel]
  show ?thesis
  proof (cases existing)
    case (Some i)
    then have "res = i" "st' = st\<lparr>dedup_hits := dedup_hits st + 1\<rparr>"
      using att sel unfolding conflict_attempt_def start Let_def by (auto simp: and_then_Inr split: if_splits)
    then show ?thesis using spec Some ok by auto
  next
    case None
    let ?payload = "dumps_sorted (build_envelope decision (cc_now_us call) (cc_flag call))"
    let ?row = "\<lambda>c. conflict_row (cc_event_id call) (if uid \<noteq> [] then uid else CONFLICT_EVENT_SYSTEM_USER_ID) ?ref ?key ?payload c"
    obtain c d where c: "iso_us (cc_now_us call) = Some c" and d: "insert_event (?row c) (cs_db st) = Inr d"
      and res: "res = cc_event_id call" "st' = st\<lparr>cs_db := d\<rparr>"
      using att sel None unfolding conflict_attempt_def start Let_def
      by (auto simp: and_then_Inr split: if_splits option.splits)
    have d': "d = (cs_db st)\<lparr>events := events (cs_db st) @ [?row c]\<rparr>"
      using d by (auto simp: insert_event_def split: if_splits)
    have ts: "conflict_ts (?row c) = cc_now_us call" by (simp add: conflict_ts_def envelope_ts)
    have "conflict_ok d"
      unfolding d'
    proof (rule conflict_ok_insert [OF ok envelope_ts])
      show "iso_us (cc_now_us call) = Some (evt_created_at (?row c))" using c by (simp add: conflict_row_def)
      show "conflict_ts x < cc_now_us call - HOUR"
        if "x \<in> set (conflict_rows ref key (cs_db st))" "evt_target_id (?row c) = Some ref" "evt_approval_tier (?row c) = Some key"
        for x ref key
        using spec None that by (auto simp: conflict_row_def)
    qed
    moreover have "?row c \<in> set (conflict_rows ?ref ?key d)" by (simp add: d' conflict_rows_def conflict_row_def)
    moreover have "evt_id (?row c) = res" using res by (simp add: conflict_row_def)
    moreover have "0 \<le> HOUR" by (simp add: HOUR_def)
    ultimately show ?thesis using res d' ts by fastforce
  qed
qed

definition demo_decision :: LiveArbitrationDecision where
  "demo_decision = arbitrate 7 \<lparr>ev_hits = [], ev_stages = [], ev_notes = []\<rparr> None RECENT_CONTEXT ''c-1''"

definition demo_conflict_call :: conflict_call where
  "demo_conflict_call = \<lparr>cc_select_ok = True, cc_insert_ok = True, cc_event_id = ''e1'', cc_now_us = 1700000000000000,
     cc_flag = COLD_START\<rparr>"

lemma conflict_event_dedup_witness:
  "\<exists>res st'. write_conflict_event demo_conflict_call demo_decision \<lparr>ev_hits = [], ev_stages = [], ev_notes = []\<rparr> None ''ann''
      \<lparr>cs_db = empty_db, dedup_hits = 0, write_failures = 0\<rparr> = (res, st') \<and> conflict_ok (cs_db st') \<and>
    (res \<noteq> [] \<longrightarrow> length (events (cs_db st')) \<le> 1)"
proof -
  let ?st = "\<lparr>cs_db = empty_db, dedup_hits = 0, write_failures = 0\<rparr>"
  obtain res st' where q: "write_conflict_event demo_conflict_call demo_decision \<lparr>ev_hits = [], ev_stages = [], ev_notes = []\<rparr> None
      ''ann'' ?st = (res, st')" by (metis surj_pair)
  have "conflict_ok (cs_db ?st)" by (simp add: conflict_ok_def conflict_rows_def empty_db_def)
  from conflict_event_dedup [OF this q] q show ?thesis by (auto simp: empty_db_def)
qed

end
