(* ===== verification/Decision_Log.thy ===== *)
theory Decision_Log
  imports Iso_Time
begin

text \<open>
  \<^verbatim>\<open>router/dual_read_decision_log.py\<close>: the producer of the daily decision files, and the reader's side of a
  directory of such files, shared by \<^verbatim>\<open>router/dual_read_metrics.py\<close> and \<^verbatim>\<open>shadow/discrepancy.py\<close>. A directory is
  the list of its lines in the order they were appended, each with its file's name.
\<close>

section \<open>The producer\<close>

definition LOG_SCHEMA_VERSION :: pystr where
  "LOG_SCHEMA_VERSION = ''1.0''"

definition truthy_flag :: "pystr \<Rightarrow> bool" where
  "truthy_flag v \<longleftrightarrow> lower (strip v) \<in> {''1'', ''true'', ''yes'', ''on''}"

definition is_log_enabled :: "environ \<Rightarrow> bool" where
  "is_log_enabled env = (case env ''DUAL_READ_LOG_ENABLED'' of Some raw \<Rightarrow> truthy_flag raw
     | None \<Rightarrow> truthy_flag (getenv env ''DUAL_READ'' []))"

text \<open>\<^verbatim>\<open>bool\<close> of a JSON value.\<close>

definition truthy :: "json \<Rightarrow> bool" where
  "truthy j = (case j of JNull \<Rightarrow> False | JBool b \<Rightarrow> b | JInt i \<Rightarrow> i \<noteq> 0 | JNum r \<Rightarrow> r \<noteq> 0 | JStr s \<Rightarrow> s \<noteq> []
     | JList xs \<Rightarrow> xs \<noteq> [] | JObj kvs \<Rightarrow> kvs \<noteq> [])"

definition field :: "row \<Rightarrow> pystr \<Rightarrow> json \<Rightarrow> json" where
  "field r k dflt = (case map_of r k of None \<Rightarrow> dflt | Some j \<Rightarrow> j)"

definition LOG_RESERVED :: "pystr list" where
  "LOG_RESERVED = [''schema_version'', ''timestamp_us_utc'', ''timestamp'', ''correlation_id'', ''query_type'', ''outcome'',
     ''winning_source'', ''policy_version'', ''write_error_observed'', ''conflict_event_id'', ''data_quality_flag'']"

definition build_record :: "row \<Rightarrow> int \<Rightarrow> pystr \<Rightarrow> row" where
  "build_record rec timestamp_us_utc timestamp_iso =
    [(''schema_version'', JStr LOG_SCHEMA_VERSION), (''timestamp_us_utc'', JInt timestamp_us_utc), (''timestamp'', JStr timestamp_iso),
     (''correlation_id'', field rec ''correlation_id'' (JStr [])), (''query_type'', field rec ''query_type'' (JStr [])),
     (''outcome'', field rec ''outcome'' (JStr [])), (''winning_source'', field rec ''winning_source'' JNull),
     (''policy_version'', field rec ''policy_version'' (JStr [])),
     (''write_error_observed'', JBool (truthy (field rec ''write_error_observed'' (JBool False)))),
     (''conflict_event_id'', field rec ''conflict_event_id'' JNull),
     (''data_quality_flag'', field rec ''data_quality_flag'' (JStr ''normal''))] @
    filter (\<lambda>kv. fst kv \<notin> set LOG_RESERVED) rec"

type_synonym log_lines = "(pystr \<times> jtext) list"

definition day_text :: "int \<Rightarrow> pystr option" where
  "day_text us = (let days = us div 86400000000 + EPOCH_DAYS in if days < 0 then None else date_text (nat days))"

definition DECISION_PREFIX :: pystr where
  "DECISION_PREFIX = ''dual-read-decisions-''"

definition daily_name :: "pystr \<Rightarrow> pystr \<Rightarrow> pystr" where
  "daily_name prefix day = prefix @ day @ ''.jsonl''"

record append_env =
  ap_environ :: environ
  ap_writable :: bool
  ap_now_us :: int

text \<open>The name of the file written, or \<open>None\<close> when the log is off or something raised.\<close>

definition append_decision :: "append_env \<Rightarrow> row \<Rightarrow> log_lines \<Rightarrow> pystr option \<times> log_lines" where
  "append_decision env rec lines =
    (if \<not> is_log_enabled (ap_environ env) then (None, lines)
     else case (iso_us (ap_now_us env), day_text (ap_now_us env)) of
       (Some stamp, Some day) \<Rightarrow>
         (if ap_writable env then (Some (daily_name DECISION_PREFIX day),
            lines @ [(daily_name DECISION_PREFIX day, dumps_sorted (build_record rec (ap_now_us env) stamp))])
          else (None, lines))
     | _ \<Rightarrow> (None, lines))"

section \<open>The reader of a directory\<close>

text \<open>What \<^verbatim>\<open>read_text\<close> gives for a file; \<open>NotUtf8Text\<close> is a \<^verbatim>\<open>UnicodeDecodeError\<close>, which no caller catches.\<close>

datatype file_state = Readable | OsErrorOnRead | NotUtf8Text

record log_view =
  lv_missing :: bool
  lv_state :: "pystr \<Rightarrow> file_state"
  lv_lines :: log_lines

definition text_endswith :: "pystr \<Rightarrow> pystr \<Rightarrow> bool" where
  "text_endswith s p \<longleftrightarrow> startswith (rev s) (rev p)"

definition log_glob :: "pystr \<Rightarrow> pystr \<Rightarrow> bool" where
  "log_glob prefix name \<longleftrightarrow> length prefix + 6 \<le> length name \<and> startswith name prefix \<and> text_endswith name ''.jsonl''"

text \<open>A date is its text of ten characters, which compares as the date does.\<close>

definition file_date :: "pystr \<Rightarrow> pystr \<Rightarrow> pystr option" where
  "file_date prefix name =
    (let day = take 10 (drop (length prefix) name); f = (\<lambda>a n. take n (drop a day)) in
     if name = daily_name prefix day \<and> length day = 10 \<and> list_all ascii_digit (f 0 4 @ f 5 2 @ f 8 2) \<and>
        day ! 4 = CHR ''-'' \<and> day ! 7 = CHR ''-'' \<and> 1 \<le> num2 (f 0 4) \<and> 1 \<le> num2 (f 5 2) \<and> num2 (f 5 2) \<le> 12 \<and>
        1 \<le> num2 (f 8 2) \<and> num2 (f 8 2) \<le> days_in_month (num2 (f 0 4)) (num2 (f 5 2))
     then Some day else None)"

datatype parsed_line = BlankLine | MalformedLine | RecordLine int row

definition parse_line :: "(pystr \<Rightarrow> int option) \<Rightarrow> jtext \<Rightarrow> parsed_line" where
  "parse_line other line = (case line of JEmpty \<Rightarrow> BlankLine | JBad \<Rightarrow> MalformedLine
     | JText (JObj r) \<Rightarrow> (case map_of r ''timestamp'' of
         Some (JStr s) \<Rightarrow> (case fromisoformat other s of None \<Rightarrow> MalformedLine | Some t \<Rightarrow> RecordLine t r)
       | _ \<Rightarrow> MalformedLine)
     | JText _ \<Rightarrow> MalformedLine)"

definition line_record :: "parsed_line \<Rightarrow> (int \<times> row) option" where
  "line_record l = (case l of RecordLine t r \<Rightarrow> Some (t, r) | _ \<Rightarrow> None)"

definition file_lines :: "log_view \<Rightarrow> pystr \<Rightarrow> jtext list" where
  "file_lines v name = map snd (filter (\<lambda>l. fst l = name) (lv_lines v))"

definition log_names :: "pystr \<Rightarrow> log_view \<Rightarrow> pystr list" where
  "log_names prefix v = sort (remdups (filter (log_glob prefix) (map fst (lv_lines v))))"

definition in_cutoff :: "int option \<Rightarrow> int \<times> row \<Rightarrow> bool" where
  "in_cutoff cutoff r = (case cutoff of None \<Rightarrow> True | Some c \<Rightarrow> c \<le> fst r)"

definition parse_all :: "(pystr \<Rightarrow> int option) \<Rightarrow> jtext list \<Rightarrow> (int \<times> row) list" where
  "parse_all other ls = List.map_filter (line_record \<circ> parse_line other) ls"

definition malformed_in :: "(pystr \<Rightarrow> int option) \<Rightarrow> jtext list \<Rightarrow> nat" where
  "malformed_in other ls = length (filter (\<lambda>l. parse_line other l = MalformedLine) ls)"

section \<open>What the producer writes is dated right\<close>

lemma iso_day: "iso_us us = Some s \<Longrightarrow> \<exists>day. day_text us = Some day \<and> length day = 10"
  by (auto simp: iso_us_def day_text_def date_text_def Let_def split: option.splits prod.splits if_splits)

lemma day_text_mono:
  assumes "a \<le> b" "day_text a = Some s" "day_text b = Some t"
  shows "s \<le> t"
proof -
  let ?d = "\<lambda>x :: int. x div 86400000000 + EPOCH_DAYS"
  have pos: "0 \<le> ?d a" "0 \<le> ?d b" and dt: "date_text (nat (?d a)) = Some s" "date_text (nat (?d b)) = Some t"
    using assms(2,3) by (auto simp: day_text_def Let_def split: if_splits)
  have "?d a \<le> ?d b" using assms(1) by (simp add: zdiv_mono1)
  then consider "nat (?d a) < nat (?d b)" | "nat (?d a) = nat (?d b)" using pos by fastforce
  then show ?thesis
  proof cases
    case 1
    show ?thesis using date_text_less [OF 1 dt] by (rule less_imp_le)
  next
    case 2
    then show ?thesis using dt by simp
  qed
qed

lemma daily_name_glob: "length day = 10 \<Longrightarrow> log_glob prefix (daily_name prefix day)"
  by (simp add: log_glob_def daily_name_def startswith_def text_endswith_def)

lemma file_date_day: "file_date prefix name = Some d \<Longrightarrow> d = take 10 (drop (length prefix) name)"
  unfolding file_date_def Let_def by (metis option.distinct(1) option.inject)

lemma file_date_daily: "file_date prefix (daily_name prefix day) = Some d \<Longrightarrow> length day = 10 \<Longrightarrow> d = day"
  by (drule file_date_day) (simp add: daily_name_def)

lemma record_timestamp:
  assumes "iso_us us = Some stamp" "distinct (map fst rec)"
  shows "parse_line other (dumps_sorted (build_record rec us stamp)) = RecordLine us (sort_key fst (build_record rec us stamp))"
proof -
  have "distinct (map fst (build_record rec us stamp))"
    using assms(2) by (auto simp: build_record_def LOG_RESERVED_def distinct_map inj_on_def)
  then have "map_of (sort_key fst (build_record rec us stamp)) = map_of (build_record rec us stamp)" by (rule map_of_sort_key)
  then show ?thesis
    by (simp add: parse_line_def dumps_sorted_def fromisoformat_iso [OF assms(1)]) (simp add: build_record_def fromisoformat_iso [OF assms(1)])
qed

end
