(* ===== verification/Dual_Read_Metrics.thy ===== *)
theory Dual_Read_Metrics
  imports Decision_Log
begin

text \<open>
  \<^verbatim>\<open>router/dual_read_metrics.py\<close>: the window of decision records and the six numbers computed from it, with
  \<^verbatim>\<open>parse_window\<close> of \<^verbatim>\<open>shadow/discrepancy.py\<close>. Proved: what the producer appended is what the reader finds in the
  window, in the order of time, although whole files are skipped by the date in their name; and the one-pass
  computation agrees with the six separate ones.
\<close>

section \<open>Windows\<close>

definition window_unit :: "char \<Rightarrow> int option" where
  "window_unit c = map_of [(CHR ''s'', 1000000), (CHR ''m'', 60000000), (CHR ''h'', 3600000000), (CHR ''d'', 86400000000)] c"

text \<open>The length in microseconds. \<open>$\<close> matches before a final newline; a \<^verbatim>\<open>timedelta\<close> is at most 999999999 days.\<close>

definition parse_window :: "pystr \<Rightarrow> kernel_error + int" where
  "parse_window spec =
    (let s = (if spec \<noteq> [] \<and> last spec = CHR 0x0A then butlast spec else spec);
         digits = takeWhile ascii_digit s; u = dropWhile ascii_digit s; n = int_of_digits digits
     in if digits = [] \<or> length u \<noteq> 1 then Inl (ValueError ''window'')
        else case window_unit (hd u) of None \<Rightarrow> Inl (ValueError ''window'')
          | Some k \<Rightarrow> if n \<le> 0 then Inl (ValueError ''window'')
              else if 999999999 < n * k div 86400000000 then Inl OverflowError else Inr (n * k))"

section \<open>Loading\<close>

record LoadResult =
  lr_records :: "row list"
  lr_dir_missing :: bool
  lr_malformed :: nat

type_synonym cutoff = "(int \<times> pystr) option"

definition skipped_file :: "cutoff \<Rightarrow> pystr option \<Rightarrow> bool" where
  "skipped_file coff fd = (case (coff, fd) of (Some (_, cday), Some d) \<Rightarrow> d < cday | _ \<Rightarrow> False)"

definition file_in_window :: "cutoff \<Rightarrow> pystr option \<Rightarrow> bool" where
  "file_in_window coff fd = (case coff of None \<Rightarrow> True | Some (_, cday) \<Rightarrow> (case fd of None \<Rightarrow> False | Some d \<Rightarrow> cday \<le> d))"

fun load_files :: "(pystr \<Rightarrow> int option) \<Rightarrow> pystr \<Rightarrow> cutoff \<Rightarrow> log_view \<Rightarrow> pystr list \<Rightarrow> kernel_error + (int \<times> row) list \<times> nat" where
  "load_files other prefix coff v [] = Inr ([], 0)"
| "load_files other prefix coff v (name # names) =
    (let fd = file_date prefix name; ls = file_lines v name in
     case lv_state v name of
       OsErrorOnRead \<Rightarrow> load_files other prefix coff v names
     | NotUtf8Text \<Rightarrow> Inl (ValueError ''utf-8'')
     | Readable \<Rightarrow>
         if skipped_file coff fd then load_files other prefix coff v names
         else and_then (load_files other prefix coff v names) (\<lambda>(rs, m).
           Inr (filter (in_cutoff (map_option fst coff)) (parse_all other ls) @ rs,
             (if file_in_window coff fd then malformed_in other ls else 0) + m)))"

definition load_records :: "(pystr \<Rightarrow> int option) \<Rightarrow> int option \<Rightarrow> int \<Rightarrow> log_view \<Rightarrow> kernel_error + LoadResult" where
  "load_records other since now v =
    (if lv_missing v then Inr \<lparr>lr_records = [], lr_dir_missing = True, lr_malformed = 0\<rparr>
     else and_then (case since of None \<Rightarrow> Inr None
            | Some w \<Rightarrow> (case day_text (now - w) of None \<Rightarrow> Inl OverflowError | Some day \<Rightarrow> Inr (Some (now - w, day))))
       (\<lambda>coff. and_then (load_files other DECISION_PREFIX coff v (log_names DECISION_PREFIX v)) (\<lambda>(rs, m).
         Inr \<lparr>lr_records = map snd (sort_key fst rs), lr_dir_missing = False, lr_malformed = m\<rparr>)))"

section \<open>The six numbers\<close>

definition nonempty_text :: "json \<Rightarrow> pystr option" where
  "nonempty_text j = (case j of JStr s \<Rightarrow> if s = [] then None else Some s | _ \<Rightarrow> None)"

definition normalize_outcome :: "row \<Rightarrow> pystr option" where
  "normalize_outcome r = (case nonempty_text (field r ''outcome'' JNull) of Some s \<Rightarrow> Some s
     | None \<Rightarrow> nonempty_text (field r ''arbitration_outcome'' JNull))"

definition record_traffic_source :: "row \<Rightarrow> pystr" where
  "record_traffic_source r = (case field r ''traffic_source'' JNull of
     JStr raw \<Rightarrow> if lower (strip raw) \<in> {''synthetic'', ''natural''} then lower (strip raw) else ''unknown''
   | _ \<Rightarrow> ''unknown'')"

text \<open>\<^verbatim>\<open>out.setdefault(k, []).append(r)\<close> on a dict in insertion order.\<close>

definition append_to :: "pystr \<Rightarrow> row \<Rightarrow> (pystr \<times> row list) list \<Rightarrow> (pystr \<times> row list) list" where
  "append_to k r out = (if k \<in> fst ` set out then map (\<lambda>(j, rs). (j, if j = k then rs @ [r] else rs)) out
     else out @ [(k, [r])])"

definition partition_by_traffic_source :: "row list \<Rightarrow> (pystr \<times> row list) list" where
  "partition_by_traffic_source rs = fold (\<lambda>r. append_to (record_traffic_source r) r) rs []"

definition DEFAULT_DATA_QUALITY_FILTER :: "pystr list" where
  "DEFAULT_DATA_QUALITY_FILTER = [''normal'', ''corpus_immature'']"

definition filter_by_quality :: "row list \<Rightarrow> pystr list option \<Rightarrow> row list" where
  "filter_by_quality rs flt =
    (let allowed = (case flt of None \<Rightarrow> set DEFAULT_DATA_QUALITY_FILTER | Some f \<Rightarrow> set f) in
     filter (\<lambda>r. (case nonempty_text (field r ''data_quality_flag'' JNull) of None \<Rightarrow> ''normal'' | Some s \<Rightarrow> s) \<in> allowed) rs)"

definition excluding_unreachable :: "row list \<Rightarrow> row list" where
  "excluding_unreachable rs = filter (\<lambda>r. normalize_outcome r \<noteq> Some ''aphelion_unreachable'') rs"

definition count_such :: "('a \<Rightarrow> bool) \<Rightarrow> 'a list \<Rightarrow> nat" where
  "count_such P xs = length (filter P xs)"

definition is_conflict :: "row \<Rightarrow> bool" where
  "is_conflict r \<longleftrightarrow> field r ''winning_source'' JNull \<in> {JStr ''tie'', JStr ''fallback''} \<or>
     nonempty_text (field r ''conflict_event_id'' JNull) \<noteq> None"

fun conflicts_loop :: "row list \<Rightarrow> nat \<Rightarrow> nat" where
  "conflicts_loop [] conflicts = conflicts"
| "conflicts_loop (r # rs) conflicts =
    (case field r ''winning_source'' JNull of
       JStr ws \<Rightarrow> if ws \<in> {''tie'', ''fallback''} then conflicts_loop rs (conflicts + 1)
         else if nonempty_text (field r ''conflict_event_id'' JNull) \<noteq> None then conflicts_loop rs (conflicts + 1)
         else conflicts_loop rs conflicts
     | _ \<Rightarrow> if nonempty_text (field r ''conflict_event_id'' JNull) \<noteq> None then conflicts_loop rs (conflicts + 1)
         else conflicts_loop rs conflicts)"

definition load_filtered ::
  "(pystr \<Rightarrow> int option) \<Rightarrow> pystr \<Rightarrow> int \<Rightarrow> pystr list option \<Rightarrow> log_view \<Rightarrow> kernel_error + row list" where
  "load_filtered other window now flt v =
    and_then (parse_window window) (\<lambda>w. and_then (load_records other (Some w) now v) (\<lambda>raw. Inr (filter_by_quality (lr_records raw) flt)))"

definition ratio :: "nat \<Rightarrow> nat \<Rightarrow> rat" where
  "ratio k n = of_nat k / of_nat n"

definition rate_over :: "(row list \<Rightarrow> nat) \<Rightarrow> row list \<Rightarrow> rat" where
  "rate_over cnt denom = (if denom = [] then 0 else ratio (cnt denom) (length denom))"

definition discrepancy_rate :: "(pystr \<Rightarrow> int option) \<Rightarrow> pystr \<Rightarrow> int \<Rightarrow> pystr list option \<Rightarrow> log_view \<Rightarrow> kernel_error + rat" where
  "discrepancy_rate other window now flt v = and_then (load_filtered other window now flt v) (\<lambda>rs.
     Inr (rate_over (count_such (\<lambda>r. normalize_outcome r = Some ''diverge'')) (excluding_unreachable rs)))"

definition arbitration_conflict_rate :: "(pystr \<Rightarrow> int option) \<Rightarrow> pystr \<Rightarrow> int \<Rightarrow> pystr list option \<Rightarrow> log_view \<Rightarrow> kernel_error + rat" where
  "arbitration_conflict_rate other window now flt v = and_then (load_filtered other window now flt v) (\<lambda>rs.
     Inr (rate_over (\<lambda>denom. conflicts_loop denom 0) (excluding_unreachable rs)))"

definition write_error_rate :: "(pystr \<Rightarrow> int option) \<Rightarrow> pystr \<Rightarrow> int \<Rightarrow> pystr list option \<Rightarrow> log_view \<Rightarrow> kernel_error + rat" where
  "write_error_rate other window now flt v = and_then (load_filtered other window now flt v) (\<lambda>rs.
     Inr (rate_over (count_such (\<lambda>r. field r ''write_error_observed'' JNull = JBool True)) (excluding_unreachable rs)))"

definition aphelion_unreachable_rate :: "(pystr \<Rightarrow> int option) \<Rightarrow> pystr \<Rightarrow> int \<Rightarrow> pystr list option \<Rightarrow> log_view \<Rightarrow> kernel_error + rat" where
  "aphelion_unreachable_rate other window now flt v = and_then (load_filtered other window now flt v) (\<lambda>rs.
     Inr (rate_over (count_such (\<lambda>r. normalize_outcome r = Some ''aphelion_unreachable'')) rs))"

definition crosswalk_miss_rate :: "(pystr \<Rightarrow> int option) \<Rightarrow> pystr \<Rightarrow> int \<Rightarrow> pystr list option \<Rightarrow> log_view \<Rightarrow> kernel_error + rat" where
  "crosswalk_miss_rate other window now flt v = and_then (load_filtered other window now flt v) (\<lambda>rs.
     Inr (rate_over (count_such (\<lambda>r. field r ''crosswalk_status'' JNull = JStr ''miss'')) (excluding_unreachable rs)))"

definition circuit_open_count :: "(pystr \<Rightarrow> int option) \<Rightarrow> pystr \<Rightarrow> int \<Rightarrow> pystr list option \<Rightarrow> log_view \<Rightarrow> kernel_error + nat" where
  "circuit_open_count other window now flt v = and_then (load_filtered other window now flt v) (\<lambda>rs.
     Inr (count_such (\<lambda>r. field r ''circuit_breaker_tripped'' JNull = JBool True) rs))"

record all_rates =
  ar_discrepancy :: rat
  ar_conflict :: rat
  ar_write_error :: rat
  ar_unreachable :: rat
  ar_crosswalk_miss :: rat
  ar_circuit_open :: nat

definition compute_all_rates :: "row list \<Rightarrow> pystr list option \<Rightarrow> all_rates" where
  "compute_all_rates records flt =
    (let filtered = filter_by_quality records flt; denom = excluding_unreachable filtered;
         denom_n = length denom; all_n = length filtered;
         (d, c, w, x) = (if denom_n = 0 then (0, 0, 0, 0)
           else (ratio (count_such (\<lambda>r. normalize_outcome r = Some ''diverge'') denom) denom_n,
             ratio (conflicts_loop denom 0) denom_n,
             ratio (count_such (\<lambda>r. field r ''write_error_observed'' JNull = JBool True) denom) denom_n,
             ratio (count_such (\<lambda>r. field r ''crosswalk_status'' JNull = JStr ''miss'') denom) denom_n));
         u = (if all_n = 0 then 0 else ratio (count_such (\<lambda>r. normalize_outcome r = Some ''aphelion_unreachable'') filtered) all_n)
     in \<lparr>ar_discrepancy = d, ar_conflict = c, ar_write_error = w, ar_unreachable = u, ar_crosswalk_miss = x,
         ar_circuit_open = count_such (\<lambda>r. field r ''circuit_breaker_tripped'' JNull = JBool True) filtered\<rparr>)"

section \<open>The one-pass computation\<close>

lemma rate_over_cases: "(if length denom = 0 then 0 else ratio (cnt denom) (length denom)) = rate_over cnt denom"
  by (simp add: rate_over_def)

lemma compute_all_rates_fields:
  "ar_discrepancy (compute_all_rates rs flt) = rate_over (count_such (\<lambda>r. normalize_outcome r = Some ''diverge'')) (excluding_unreachable (filter_by_quality rs flt))"
  "ar_conflict (compute_all_rates rs flt) = rate_over (\<lambda>denom. conflicts_loop denom 0) (excluding_unreachable (filter_by_quality rs flt))"
  "ar_write_error (compute_all_rates rs flt) = rate_over (count_such (\<lambda>r. field r ''write_error_observed'' JNull = JBool True)) (excluding_unreachable (filter_by_quality rs flt))"
  "ar_unreachable (compute_all_rates rs flt) = rate_over (count_such (\<lambda>r. normalize_outcome r = Some ''aphelion_unreachable'')) (filter_by_quality rs flt)"
  "ar_crosswalk_miss (compute_all_rates rs flt) = rate_over (count_such (\<lambda>r. field r ''crosswalk_status'' JNull = JStr ''miss'')) (excluding_unreachable (filter_by_quality rs flt))"
  "ar_circuit_open (compute_all_rates rs flt) = count_such (\<lambda>r. field r ''circuit_breaker_tripped'' JNull = JBool True) (filter_by_quality rs flt)"
  by (simp_all add: compute_all_rates_def Let_def rate_over_def)

lemma conflicts_loop_eq: "conflicts_loop rs n = n + count_such is_conflict rs"
  by (induction rs arbitrary: n) (auto simp: count_such_def is_conflict_def split: json.splits)

lemma ratio_bounds: "length (filter P xs) \<le> n \<Longrightarrow> 0 < n \<Longrightarrow> 0 \<le> ratio (length (filter P xs)) n \<and> ratio (length (filter P xs)) n \<le> 1"
  by (simp add: ratio_def)

section \<open>What was appended is found\<close>

definition logged :: "(append_env \<times> row) list \<Rightarrow> (int \<times> row) list" where
  "logged calls = map (\<lambda>(e, r). (ap_now_us e, r))
     (filter (\<lambda>(e, r). is_log_enabled (ap_environ e) \<and> ap_writable e \<and> iso_us (ap_now_us e) \<noteq> None) calls)"

definition run_appends :: "(append_env \<times> row) list \<Rightarrow> log_lines" where
  "run_appends calls = fold (\<lambda>(e, r) ls. snd (append_decision e r ls)) calls []"

definition stamp_of :: "int \<Rightarrow> pystr" where
  "stamp_of t = (case iso_us t of Some s \<Rightarrow> s | None \<Rightarrow> [])"

definition file_of :: "int \<Rightarrow> pystr" where
  "file_of t = daily_name DECISION_PREFIX (case day_text t of Some d \<Rightarrow> d | None \<Rightarrow> [])"

definition stored :: "int \<times> row \<Rightarrow> row" where
  "stored x = sort_key fst (build_record (snd x) (fst x) (stamp_of (fst x)))"

lemma run_appends_lines:
  "run_appends calls = map (\<lambda>(t, r). (file_of t, dumps_sorted (build_record r t (stamp_of t)))) (logged calls)"
proof (induction calls rule: rev_induct)
  case Nil
  show ?case by (simp add: run_appends_def logged_def)
next
  case (snoc c calls)
  obtain e r where c: "c = (e, r)" by (cases c)
  have run: "run_appends (calls @ [c]) = snd (append_decision e r (run_appends calls))"
    by (simp add: run_appends_def c)
  show ?case
  proof (cases "is_log_enabled (ap_environ e) \<and> ap_writable e \<and> iso_us (ap_now_us e) \<noteq> None")
    case True
    then obtain s day where "iso_us (ap_now_us e) = Some s" "day_text (ap_now_us e) = Some day" using iso_day by blast
    then show ?thesis unfolding run using True snoc by (simp add: append_decision_def logged_def c file_of_def stamp_of_def)
  next
    case False
    then have "snd (append_decision e r ls) = ls" for ls
      by (auto simp: append_decision_def split: option.splits)
    then show ?thesis unfolding run using False snoc by (simp add: logged_def c)
  qed
qed

lemma logged_props:
  assumes "x \<in> set (logged calls)" "\<forall>(e, r) \<in> set calls. distinct (map fst r)"
  shows "\<exists>s day. iso_us (fst x) = Some s \<and> day_text (fst x) = Some day \<and> length day = 10 \<and> distinct (map fst (snd x))"
proof -
  have "iso_us (fst x) \<noteq> None" "distinct (map fst (snd x))" using assms by (auto simp: logged_def)
  then show ?thesis using iso_day by blast
qed

lemma concat_only:
  "distinct ns \<Longrightarrow> n0 \<in> set ns \<Longrightarrow> (\<And>n. n \<in> set ns \<Longrightarrow> n \<noteq> n0 \<Longrightarrow> h n = []) \<Longrightarrow> concat (map h ns) = h n0"
proof (induction ns)
  case (Cons n ns)
  show ?case
  proof (cases "n = n0")
    case True
    then have "concat (map h ns) = []" using Cons.prems by auto
    with True show ?thesis by simp
  next
    case False
    with Cons show ?thesis by auto
  qed
qed simp

text \<open>Splitting a list by a name that its key determines and sorting by the key is the stable sort of the list.\<close>

lemma sort_by_files:
  assumes d: "distinct ns" and cover: "\<And>x. x \<in> set xs \<Longrightarrow> g (f x) \<in> set ns"
  shows "sort_key f (concat (map (\<lambda>n. filter (\<lambda>x. g (f x) = n) xs) ns)) = sort_key (f :: 'a \<Rightarrow> 'k :: linorder) xs"
proof -
  let ?c = "concat (map (\<lambda>n. filter (\<lambda>x. g (f x) = n) xs) ns)"
  have fc: "filter (\<lambda>x. f x = k) ?c = filter (\<lambda>x. f x = k) xs" for k
  proof (cases "\<exists>x \<in> set xs. f x = k")
    case True
    then have n0: "g k \<in> set ns" using cover by blast
    have "filter (\<lambda>x. f x = k) ?c = concat (map (\<lambda>n. filter (\<lambda>x. f x = k \<and> g (f x) = n) xs) ns)"
      by (simp add: filter_concat comp_def conj_commute)
    also have "\<dots> = filter (\<lambda>x. f x = k \<and> g (f x) = g k) xs"
      using d n0 by (rule concat_only) (auto simp: filter_empty_conv)
    also have "\<dots> = filter (\<lambda>x. f x = k) xs" by (rule filter_cong) auto
    finally show ?thesis .
  next
    case False
    then have "filter (\<lambda>x. f x = k) xs = []" "filter (\<lambda>x. f x = k) ?c = []" by (auto simp: filter_empty_conv)
    then show ?thesis by simp
  qed
  have "mset ?c = mset xs"
  proof (rule multiset_eqI)
    fix x
    have "count (mset ys) x = count (mset (filter (\<lambda>y. f y = f x) ys)) x" for ys by simp
    then show "count (mset ?c) x = count (mset xs) x" using fc by metis
  qed
  moreover have "filter (\<lambda>x. f k = f x) (sort_key f ?c) = filter (\<lambda>x. f k = f x) xs" for k
    unfolding eq_commute [of "f k"] sort_key_stable fc ..
  ultimately show ?thesis by (intro properties_for_sort_key [symmetric]) simp_all
qed

lemma sort_key_pairs:
  assumes "\<And>z. fst (h z) = fst z"
  shows "sort_key fst (map h zs) = map h (sort_key fst (zs :: ('k :: linorder \<times> 'v) list))"
proof -
  have "insort_key fst (h z) (map h zs) = map h (insort_key fst z zs)" for z zs
    by (induction zs) (simp_all add: assms)
  then show ?thesis by (induction zs) simp_all
qed

definition all_readable :: "log_lines \<Rightarrow> log_view" where
  "all_readable ls = \<lparr>lv_missing = False, lv_state = (\<lambda>_. Readable), lv_lines = ls\<rparr>"

lemma parse_stored:
  assumes "\<And>x. x \<in> set xs \<Longrightarrow> iso_us (fst x) \<noteq> None \<and> distinct (map fst (snd x))"
  shows "parse_all other (map (\<lambda>(t, r). dumps_sorted (build_record r t (stamp_of t))) xs) = map (\<lambda>x. (fst x, stored x)) xs \<and>
    malformed_in other (map (\<lambda>(t, r). dumps_sorted (build_record r t (stamp_of t))) xs) = 0"
  using assms
proof (induction xs)
  case (Cons x xs)
  obtain s where s: "iso_us (fst x) = Some s" using Cons.prems by fastforce
  have "parse_line other (dumps_sorted (build_record (snd x) (fst x) (stamp_of (fst x)))) = RecordLine (fst x) (stored x)"
    using record_timestamp [OF s] Cons.prems s by (simp add: stored_def stamp_of_def)
  with Cons show ?case by (simp add: parse_all_def malformed_in_def line_record_def map_filter_simps case_prod_beta)
qed (simp add: parse_all_def malformed_in_def map_filter_simps)

lemma load_files_logged:
  assumes ok: "\<And>x. x \<in> set xs \<Longrightarrow> \<exists>s day. iso_us (fst x) = Some s \<and> day_text (fst x) = Some day \<and> length day = 10 \<and> distinct (map fst (snd x))"
    and v: "v = all_readable (map (\<lambda>(t, r). (file_of t, dumps_sorted (build_record r t (stamp_of t)))) xs)"
    and coff: "day_text c = Some cday"
  shows "load_files other DECISION_PREFIX (Some (c, cday)) v ns =
    Inr (concat (map (\<lambda>n. map (\<lambda>x. (fst x, stored x)) (filter (\<lambda>x. file_of (fst x) = n) (filter (\<lambda>x. c \<le> fst x) xs))) ns), 0)"
proof (induction ns)
  case (Cons n ns)
  let ?xs = "filter (\<lambda>x. file_of (fst x) = n) xs"
  have lines: "file_lines v n = map (\<lambda>(t, r). dumps_sorted (build_record r t (stamp_of t))) ?xs"
    unfolding v by (induction xs) (auto simp: file_lines_def all_readable_def)
  have p: "parse_all other (file_lines v n) = map (\<lambda>x. (fst x, stored x)) ?xs" "malformed_in other (file_lines v n) = 0"
    using parse_stored [of ?xs other] ok unfolding lines by fastforce+
  have st: "lv_state v n = Readable" by (simp add: v all_readable_def)
  have f: "filter (in_cutoff (Some c)) (map (\<lambda>x. (fst x, stored x)) ?xs) =
      map (\<lambda>x. (fst x, stored x)) (filter (\<lambda>x. file_of (fst x) = n) (filter (\<lambda>x. c \<le> fst x) xs))"
    by (simp add: filter_map comp_def in_cutoff_def conj_commute)
  show ?case
  proof (cases "skipped_file (Some (c, cday)) (file_date DECISION_PREFIX n)")
    case True
    then obtain d where d: "file_date DECISION_PREFIX n = Some d" "d < cday"
      by (auto simp: skipped_file_def split: option.splits)
    have "\<not> c \<le> fst x" if x: "x \<in> set xs" "file_of (fst x) = n" for x
    proof
      assume le: "c \<le> fst x"
      obtain day where day: "day_text (fst x) = Some day" "length day = 10" using ok [OF x(1)] by blast
      have n: "n = daily_name DECISION_PREFIX day" using x(2) day by (simp add: file_of_def)
      have "d = day" using d(1) day(2) unfolding n by (rule file_date_daily)
      with day_text_mono [OF le coff day(1)] d(2) show False by simp
    qed
    then have "filter (\<lambda>x. file_of (fst x) = n) (filter (\<lambda>x. c \<le> fst x) xs) = []" by (auto simp: filter_empty_conv)
    with True Cons st show ?thesis by (simp add: Let_def)
  next
    case False
    with Cons st p f show ?thesis by (simp add: Let_def)
  qed
qed simp

lemma load_run_appends:
  assumes calls: "\<forall>(e, r) \<in> set calls. distinct (map fst r)"
    and start: "day_text (now - w) = Some cday"
  shows "load_records other (Some w) now (all_readable (run_appends calls)) =
    Inr \<lparr>lr_records = map stored (sort_key fst (filter (\<lambda>x. now - w \<le> fst x) (logged calls))),
         lr_dir_missing = False, lr_malformed = 0\<rparr>"
proof -
  let ?xs = "logged calls" and ?v = "all_readable (run_appends calls)" and ?c = "now - w"
  let ?in = "filter (\<lambda>x. ?c \<le> fst x) ?xs" and ?ns = "log_names DECISION_PREFIX ?v"
  have ok: "\<exists>s day. iso_us (fst x) = Some s \<and> day_text (fst x) = Some day \<and> length day = 10 \<and> distinct (map fst (snd x))"
    if "x \<in> set ?xs" for x
    using logged_props [OF that calls] .
  have load: "load_files other DECISION_PREFIX (Some (?c, cday)) ?v ?ns =
      Inr (concat (map (\<lambda>n. map (\<lambda>x. (fst x, stored x)) (filter (\<lambda>x. file_of (fst x) = n) ?in)) ?ns), 0)"
    by (rule load_files_logged [OF ok _ start]) (simp_all add: run_appends_lines)
  have names: "file_of (fst x) \<in> set ?ns" if x: "x \<in> set ?xs" for x
  proof -
    obtain day where "day_text (fst x) = Some day" "length day = 10" using ok [OF x] by blast
    then have "log_glob DECISION_PREFIX (file_of (fst x))" by (simp add: file_of_def daily_name_glob)
    moreover have "map fst (lv_lines ?v) = map (\<lambda>x. file_of (fst x)) ?xs"
      by (simp add: all_readable_def run_appends_lines comp_def case_prod_beta)
    ultimately show "file_of (fst x) \<in> set ?ns"
      using x by (simp add: log_names_def image_iff) blast
  qed
  have "distinct ?ns" by (simp add: log_names_def)
  then have "sort_key fst (concat (map (\<lambda>n. filter (\<lambda>x. file_of (fst x) = n) ?in) ?ns)) = sort_key fst ?in"
    using names by (intro sort_by_files) auto
  moreover have "concat (map (\<lambda>n. map (\<lambda>x. (fst x, stored x)) (filter (\<lambda>x. file_of (fst x) = n) ?in)) ?ns) =
      map (\<lambda>x. (fst x, stored x)) (concat (map (\<lambda>n. filter (\<lambda>x. file_of (fst x) = n) ?in) ?ns))"
    by (simp add: map_concat comp_def)
  moreover have "sort_key fst (map (\<lambda>x. (fst x, stored x)) zs) = map (\<lambda>x. (fst x, stored x)) (sort_key fst zs)" for zs
    by (rule sort_key_pairs) simp
  ultimately show ?thesis
    using load start by (simp add: load_records_def comp_def) (simp add: all_readable_def)
qed

text \<open>Whatever was appended, in whatever order of clock readings, a load over a window returns exactly the records
  the producer wrote with a time in the window, sorted by time and in the order of appending where times are equal, and
  counts no malformed line, although it never opens the lines of a file whose name is dated before the window.\<close>

theorem log_reload:
  assumes "\<forall>(e, r) \<in> set calls. distinct (map fst r)" "day_text (now - w) = Some cday"
  shows "load_records other (Some w) now (all_readable (run_appends calls)) =
    Inr \<lparr>lr_records = map stored (sort_key fst (filter (\<lambda>x. now - w \<le> fst x) (logged calls))),
         lr_dir_missing = False, lr_malformed = 0\<rparr>"
  using assms by (rule load_run_appends)

definition demo_append :: "pystr \<Rightarrow> int \<Rightarrow> append_env" where
  "demo_append flag us = \<lparr>ap_environ = [''DUAL_READ'' \<mapsto> flag], ap_writable = True, ap_now_us = us\<rparr>"

text \<open>The first instants of the calendar.\<close>

definition demo_base :: int where
  "demo_base = - 62135596800000000"

lemma log_reload_witness:
  "load_records (\<lambda>_. None) (Some 1000000) (demo_base + 1000000) (all_readable (run_appends
     [(demo_append ''yes'' (demo_base + 500000), [(''outcome'', JStr ''match'')]), (demo_append ''no'' (demo_base + 7), [])])) =
   Inr \<lparr>lr_records = [stored (demo_base + 500000, [(''outcome'', JStr ''match'')])], lr_dir_missing = False, lr_malformed = 0\<rparr>"
proof -
  let ?calls = "[(demo_append ''yes'' (demo_base + 500000), [(''outcome'', JStr ''match'')]), (demo_append ''no'' (demo_base + 7), [])]"
  have d0: "date_text 0 = Some ''0001-01-01''" by code_simp
  then have day: "day_text (demo_base + 1000000 - 1000000) = Some ''0001-01-01''"
    by (simp add: day_text_def EPOCH_DAYS_def demo_base_def)
  have en: "is_log_enabled [''DUAL_READ'' \<mapsto> ''yes'']" "\<not> is_log_enabled [''DUAL_READ'' \<mapsto> ''no'']" by code_simp+
  have "iso_us (demo_base + 500000) \<noteq> None" by (simp add: iso_us_def EPOCH_DAYS_def demo_base_def d0)
  then have l: "logged ?calls = [(demo_base + 500000, [(''outcome'', JStr ''match'')])]"
    by (simp add: logged_def demo_append_def en)
  have "\<forall>(e, r) \<in> set ?calls. distinct (map fst r)" by simp
  from log_reload [OF this day, of "\<lambda>_. None"] show ?thesis unfolding l by simp
qed

section \<open>The two computations agree\<close>

definition one_pass :: "(pystr \<Rightarrow> int option) \<Rightarrow> pystr \<Rightarrow> int \<Rightarrow> pystr list option \<Rightarrow> log_view \<Rightarrow> kernel_error + all_rates" where
  "one_pass other window now flt v = and_then (parse_window window) (\<lambda>w.
     and_then (load_records other (Some w) now v) (\<lambda>raw. Inr (compute_all_rates (lr_records raw) flt)))"

text \<open>For every window, log and filter, each of the six public functions raises exactly when the load raises and otherwise
  returns the corresponding number of the one-pass computation over the loaded records.\<close>

theorem rates_agree:
  "discrepancy_rate other window now flt v = map_sum id ar_discrepancy (one_pass other window now flt v) \<and>
   arbitration_conflict_rate other window now flt v = map_sum id ar_conflict (one_pass other window now flt v) \<and>
   write_error_rate other window now flt v = map_sum id ar_write_error (one_pass other window now flt v) \<and>
   aphelion_unreachable_rate other window now flt v = map_sum id ar_unreachable (one_pass other window now flt v) \<and>
   crosswalk_miss_rate other window now flt v = map_sum id ar_crosswalk_miss (one_pass other window now flt v) \<and>
   circuit_open_count other window now flt v = map_sum id ar_circuit_open (one_pass other window now flt v)"
  unfolding one_pass_def discrepancy_rate_def arbitration_conflict_rate_def write_error_rate_def aphelion_unreachable_rate_def
    crosswalk_miss_rate_def circuit_open_count_def load_filtered_def
  by (cases "parse_window window") (auto simp: and_then_def compute_all_rates_fields split: sum.splits)

section \<open>One bad file\<close>

text \<open>A single file of the directory that is not UTF-8 makes every load raise, and with it all six numbers, whatever
  the window and however old the date in the file's name; no line of another file is counted.\<close>

theorem bad_bytes_break_metrics:
  assumes "name \<in> set (log_names DECISION_PREFIX v)" "lv_state v name = NotUtf8Text" "\<not> lv_missing v"
    and "day_text (now - w) \<noteq> None" "parse_window window = Inr w"
  shows "load_records other (Some w) now v = Inl (ValueError ''utf-8'') \<and>
    one_pass other window now flt v = Inl (ValueError ''utf-8'')"
proof -
  have "load_files other DECISION_PREFIX coff v ns = Inl (ValueError ''utf-8'')" if "name \<in> set ns" for coff ns
    using that assms(2)
  proof (induction ns)
    case (Cons n ns)
    then show ?case by (cases "lv_state v n") (auto simp: Let_def)
  qed simp
  with assms show ?thesis by (auto simp: load_records_def one_pass_def)
qed

lemma bad_bytes_break_metrics_witness:
  "one_pass other ''1s'' (demo_base + 1000000) None \<lparr>lv_missing = False, lv_state = (\<lambda>_. NotUtf8Text),
     lv_lines = [(''dual-read-decisions-0001-01-01.jsonl'', JBad)]\<rparr> = Inl (ValueError ''utf-8'')"
proof -
  let ?v = "\<lparr>lv_missing = False, lv_state = (\<lambda>_. NotUtf8Text), lv_lines = [(''dual-read-decisions-0001-01-01.jsonl'', JBad)]\<rparr>"
  have "date_text 0 = Some ''0001-01-01''" by code_simp
  then have day: "day_text (demo_base + 1000000 - 1000000) \<noteq> None" by (simp add: day_text_def EPOCH_DAYS_def demo_base_def)
  have w: "parse_window ''1s'' = Inr 1000000" by code_simp
  have "log_glob DECISION_PREFIX ''dual-read-decisions-0001-01-01.jsonl''" by code_simp
  then have n: "''dual-read-decisions-0001-01-01.jsonl'' \<in> set (log_names DECISION_PREFIX ?v)" by (simp add: log_names_def)
  show ?thesis using bad_bytes_break_metrics [OF n _ _ day w, of other None] by simp
qed

end
