(* ===== verification/Dual_Read.thy ===== *)
theory Dual_Read
  imports Shadow Discrepancy_Live Breaker Conflict_Writer Dual_Read_Metrics
begin

text \<open>
  \<^verbatim>\<open>router/dual_read.py\<close>: one query against the canonical store and, beside it, the second one. What each router
  returns or raises, and whether the second one answers in time, are arguments, as are the clocks and which of the
  observers raise. Proved: which exceptions can reach the caller, that every other fault leaves the caller with the
  canonical result, how the outcome is classified, and that the rates computed from the decision log are the rates
  over the results that were returned.
\<close>

section \<open>Calls, results and the state\<close>

definition is_dual_read_enabled :: "environ \<Rightarrow> bool" where
  "is_dual_read_enabled env \<longleftrightarrow> lower (strip (getenv env ''DUAL_READ'' ''false'')) = ''true''"

definition is_router_enabled :: "environ \<Rightarrow> bool" where
  "is_router_enabled env \<longleftrightarrow> lower (strip (getenv env ''MEMORY_ROUTER'' ''false'')) = ''true''"

datatype secondary_outcome = TimedOut | SecondaryRaised read_error | SecondaryReturned "RetrievalEvidence option"

text \<open>The observers: each flag says that the call does not raise. The first two calls stand outside every handler.\<close>

record observers =
  request_counter_ok :: bool
  latency_observe_ok :: bool
  outcome_counter_ok :: bool
  live_counter_ok :: bool
  breaker_ok :: bool

record 'e dual_call =
  dc_environ :: environ
  dc_correlation_id :: "pystr option"
  dc_minted :: pystr
  dc_override :: "bool option"
  dc_traffic_source :: "pystr option"
  dc_primary :: "'e + RetrievalEvidence"
  dc_secondary :: secondary_outcome
  dc_observers :: observers
  dc_monotonic :: rat
  dc_utc :: pystr
  dc_decided_us :: int
  dc_conflict :: conflict_call
  dc_log_us :: int
  dc_log_writable :: bool
  dc_latency_primary :: rat
  dc_latency_secondary :: rat

datatype 'e query_error = PrimaryError 'e | CollectorError | CompareError kernel_error

record DualReadResult =
  dr_outcome :: DualReadOutcome
  dr_primary :: RetrievalEvidence
  dr_secondary :: "RetrievalEvidence option"
  dr_correlation_id :: pystr
  dr_latency_primary_ms :: rat
  dr_latency_secondary_ms :: "rat option"
  dr_unreachable_reason :: "pystr option"
  dr_arbitration :: "LiveArbitrationDecision option"
  dr_write_error_observed :: bool

record world =
  w_metrics :: live_metrics
  w_live_counter :: "LiveDiscrepancyCounter option"
  w_breaker :: BreakerState
  w_conflicts :: "conflict_store option"
  w_log :: log_lines

section \<open>The observers\<close>

definition decision_row :: "'e dual_call \<Rightarrow> QueryRequest \<Rightarrow> DualReadResult \<Rightarrow> row" where
  "decision_row call req r =
    [(''correlation_id'', JStr (dr_correlation_id r)), (''query_type'', JStr (query_type_value (qr_query_type req))),
     (''outcome'', JStr (outcome_value (dr_outcome r))),
     (''winning_source'', jopt (map_option winning_source (dr_arbitration r))),
     (''policy_version'', JStr (case dr_arbitration r of None \<Rightarrow> [] | Some a \<Rightarrow> policy_version a)),
     (''write_error_observed'', JBool (dr_write_error_observed r)),
     (''conflict_event_id'', jopt (Option.bind (dr_arbitration r) conflict_event_id)),
     (''data_quality_flag'', JStr ''normal''), (''traffic_source'', JStr (normalize_traffic_source (dc_traffic_source call)))]"

definition append_env_of :: "'e dual_call \<Rightarrow> append_env" where
  "append_env_of call = \<lparr>ap_environ = dc_environ call, ap_writable = dc_log_writable call, ap_now_us = dc_log_us call\<rparr>"

definition log_decision :: "'e dual_call \<Rightarrow> QueryRequest \<Rightarrow> DualReadResult \<Rightarrow> world \<Rightarrow> world" where
  "log_decision call req r w = w\<lparr>w_log := snd (append_decision (append_env_of call) (decision_row call req r) (w_log w))\<rparr>"

definition record_outcome :: "'e dual_call \<Rightarrow> QueryRequest \<Rightarrow> DualReadOutcome \<Rightarrow> world \<Rightarrow> world" where
  "record_outcome call req outcome w =
    (let ob = dc_observers call; now = dc_monotonic call; user = qr_user_id req; src = dc_traffic_source call;
         w1 = (if outcome_counter_ok ob then w\<lparr>w_metrics := record_dual_read_outcome now user outcome src (w_metrics w)\<rparr> else w);
         w2 = (if live_counter_ok ob then w1\<lparr>w_live_counter := map_option (live_record now user outcome src) (w_live_counter w1)\<rparr> else w1)
     in if outcome \<noteq> Skipped \<and> breaker_ok ob
        then w2\<lparr>w_breaker := record_unreachable_observation now (dc_utc call) (outcome = AphelionUnreachable) (w_breaker w2)\<rparr>
        else w2)"

section \<open>The query\<close>

definition short_circuits :: "QueryRequest \<Rightarrow> bool" where
  "short_circuits req \<longleftrightarrow> qr_query_type req = CHANGE_TRACE \<and>
     (case qr_params req of None \<Rightarrow> False | Some params \<Rightarrow> field params ''legacy_kind'' JNull = JStr ''bug'')"

definition classify :: "RetrievalEvidence \<Rightarrow> secondary_outcome \<Rightarrow> kernel_error + DualReadOutcome \<times> RetrievalEvidence option \<times> pystr option" where
  "classify primary s = (case s of
     TimedOut \<Rightarrow> Inr (AphelionUnreachable, None, Some ''timeout'')
   | SecondaryRaised (Unreachable reason) \<Rightarrow> Inr (AphelionUnreachable, None, Some reason)
   | SecondaryRaised Unexpected \<Rightarrow> Inr (PrimaryOnly, None, None)
   | SecondaryReturned ev \<Rightarrow> (case compare_results primary ev of
        Inr eq \<Rightarrow> Inr (if eq then Match else Diverge, ev, None)
      | Inl AttributeError \<Rightarrow> Inr (PrimaryOnly, None, None)
      | Inl TypeError \<Rightarrow> Inr (PrimaryOnly, None, None)
      | Inl e \<Rightarrow> Inl e))"

definition emit_conflict ::
  "'e dual_call \<Rightarrow> QueryRequest \<Rightarrow> LiveArbitrationDecision \<Rightarrow> RetrievalEvidence \<Rightarrow> RetrievalEvidence option \<Rightarrow> world \<Rightarrow>
   LiveArbitrationDecision \<times> bool \<times> world" where
  "emit_conflict call req arbitration primary secondary w =
    (case w_conflicts w of None \<Rightarrow> (arbitration, False, w)
     | Some cs \<Rightarrow> if \<not> requires_manual_review arbitration then (arbitration, False, w)
         else let (event_id, cs') = write_conflict_event (dc_conflict call) arbitration primary secondary (qr_user_id req) cs;
                  w' = w\<lparr>w_conflicts := Some cs'\<rparr>
           in if event_id \<noteq> [] then (arbitration\<lparr>conflict_event_id := Some event_id\<rparr>, False, w') else (arbitration, True, w'))"

definition cid_of :: "'e dual_call \<Rightarrow> pystr" where
  "cid_of call = (case dc_correlation_id call of Some c \<Rightarrow> c | None \<Rightarrow> dc_minted call)"

definition finish :: "'e dual_call \<Rightarrow> QueryRequest \<Rightarrow> DualReadResult \<Rightarrow> world \<Rightarrow> ('e query_error + DualReadResult) \<times> world" where
  "finish call req r w = (Inr r, log_decision call req r (record_outcome call req (dr_outcome r) w))"

definition skipped_read :: "'e dual_call \<Rightarrow> QueryRequest \<Rightarrow> world \<Rightarrow> ('e query_error + DualReadResult) \<times> world" where
  "skipped_read call req w = (case dc_primary call of Inl e \<Rightarrow> (Inl (PrimaryError e), w)
     | Inr p \<Rightarrow> finish call req
         \<lparr>dr_outcome = Skipped, dr_primary = p, dr_secondary = None, dr_correlation_id = cid_of call,
          dr_latency_primary_ms = dc_latency_primary call, dr_latency_secondary_ms = None, dr_unreachable_reason = None,
          dr_arbitration = None, dr_write_error_observed = False\<rparr> w)"

definition both_read :: "'e dual_call \<Rightarrow> QueryRequest \<Rightarrow> world \<Rightarrow> ('e query_error + DualReadResult) \<times> world" where
  "both_read call req w = (case dc_primary call of Inl e \<Rightarrow> (Inl (PrimaryError e), w)
     | Inr p \<Rightarrow> (case classify p (dc_secondary call) of Inl e \<Rightarrow> (Inl (CompareError e), w)
        | Inr (outcome, secondary, reason) \<Rightarrow>
            let arbitration0 = arbitrate (dc_decided_us call) p secondary (qr_query_type req) (cid_of call) in
            if \<not> latency_observe_ok (dc_observers call) then (Inl CollectorError, w)
            else let (arbitration, write_error, w1) = emit_conflict call req arbitration0 p secondary w in
              finish call req
                \<lparr>dr_outcome = outcome, dr_primary = p, dr_secondary = secondary, dr_correlation_id = cid_of call,
                 dr_latency_primary_ms = dc_latency_primary call, dr_latency_secondary_ms = Some (dc_latency_secondary call),
                 dr_unreachable_reason = reason, dr_arbitration = Some arbitration, dr_write_error_observed = write_error\<rparr> w1))"

definition dual_enabled :: "'e dual_call \<Rightarrow> bool" where
  "dual_enabled call = (case dc_override call of Some b \<Rightarrow> b | None \<Rightarrow> is_dual_read_enabled (dc_environ call))"

definition counts_request :: "'e dual_call \<Rightarrow> bool" where
  "counts_request call \<longleftrightarrow> dual_enabled call \<and> is_log_enabled (dc_environ call)"

definition dual_query :: "'e dual_call \<Rightarrow> QueryRequest \<Rightarrow> world \<Rightarrow> ('e query_error + DualReadResult) \<times> world" where
  "dual_query call req w =
    (if counts_request call \<and> \<not> request_counter_ok (dc_observers call) then (Inl CollectorError, w)
     else let w1 = (if counts_request call then w\<lparr>w_metrics := record_dual_read_request (dc_traffic_source call) (w_metrics w)\<rparr> else w)
       in if \<not> dual_enabled call then skipped_read call req w1
          else if short_circuits req then skipped_read call req w1
          else both_read call req w1)"

section \<open>What the caller gets\<close>

lemma pairs_equal_errors: "pairs_equal cs ss = Inl e \<Longrightarrow> e = TypeError \<or> e = OverflowError"
proof (induction cs ss rule: pairs_equal.induct)
  case (1 c cs s ss)
  have f: "as_float j = Inl e \<Longrightarrow> e = TypeError \<or> e = OverflowError" for j
    by (auto simp: as_float_def split: json.splits if_splits)
  have "scores_equal a b = Inl e \<Longrightarrow> e = TypeError \<or> e = OverflowError" for a b
    using f by (cases "as_float a"; cases "as_float b") (auto simp: scores_equal_def split: if_splits)
  with 1 show ?case by (auto simp: and_then_def split: if_splits sum.splits)
qed simp_all

lemma compare_errors: "compare_results p ev = Inl e \<Longrightarrow> e = AttributeError \<or> e = TypeError \<or> e = OverflowError"
  by (auto simp: compare_results_def hits_equal_def dest: pairs_equal_errors split: option.splits if_splits)

definition overflows :: "RetrievalEvidence \<Rightarrow> secondary_outcome \<Rightarrow> bool" where
  "overflows p s \<longleftrightarrow> (case s of SecondaryReturned ev \<Rightarrow> compare_results p ev = Inl OverflowError | _ \<Rightarrow> False)"

lemma classify_total: "\<not> overflows p s \<Longrightarrow> \<exists>x. classify p s = Inr x"
proof (cases s)
  case (SecondaryReturned ev)
  assume "\<not> overflows p s"
  with SecondaryReturned have "compare_results p ev \<noteq> Inl OverflowError" by (simp add: overflows_def)
  with SecondaryReturned show ?thesis
    using compare_errors [of p ev] by (cases "compare_results p ev") (auto simp: classify_def)
next
  case (SecondaryRaised e)
  then show ?thesis by (cases e) (simp_all add: classify_def)
qed (simp add: classify_def)

lemma classify_overflow: "overflows p s \<Longrightarrow> classify p s = Inl OverflowError"
  by (auto simp: overflows_def classify_def split: secondary_outcome.splits)

lemma skipped_read_fst: "dc_primary call = Inr p \<Longrightarrow>
  \<exists>r. fst (skipped_read call req w) = Inr r \<and> dr_primary r = p \<and> dr_outcome r = Skipped \<and> dr_secondary r = None \<and>
    dr_arbitration r = None \<and> snd (skipped_read call req w) = log_decision call req r (record_outcome call req Skipped w)"
  by (simp add: skipped_read_def finish_def)

lemma both_read_fst:
  assumes "dc_primary call = Inr p" "classify p (dc_secondary call) = Inr (out, sec, reason)" "latency_observe_ok (dc_observers call)"
  shows "\<exists>r w1. both_read call req w = (Inr r, log_decision call req r (record_outcome call req out w1)) \<and> dr_primary r = p \<and>
    dr_outcome r = out \<and> dr_secondary r = sec \<and> dr_unreachable_reason r = reason \<and> dr_arbitration r \<noteq> None \<and>
    w_breaker w1 = w_breaker w \<and> w_metrics w1 = w_metrics w \<and> w_log w1 = w_log w \<and> w_live_counter w1 = w_live_counter w"
proof -
  obtain a we w1 where e: "emit_conflict call req (arbitrate (dc_decided_us call) p sec (qr_query_type req) (cid_of call)) p sec w = (a, we, w1)"
    by (metis surj_pair)
  have "w_breaker w1 = w_breaker w \<and> w_metrics w1 = w_metrics w \<and> w_log w1 = w_log w \<and> w_live_counter w1 = w_live_counter w"
    using e by (auto simp: emit_conflict_def Let_def split: option.splits if_splits prod.splits)
  moreover let ?r = "\<lparr>dr_outcome = out, dr_primary = p, dr_secondary = sec, dr_correlation_id = cid_of call,
       dr_latency_primary_ms = dc_latency_primary call, dr_latency_secondary_ms = Some (dc_latency_secondary call),
       dr_unreachable_reason = reason, dr_arbitration = Some a, dr_write_error_observed = we\<rparr>"
  have "both_read call req w = finish call req ?r w1"
    using assms e by (simp add: both_read_def Let_def)
  ultimately show ?thesis by (intro exI [of _ ?r] exI [of _ w1]) (simp add: finish_def)
qed

text \<open>C25: when the canonical store returns, the caller gets a result with exactly that, whatever the second store did,
  and whether or not the log, the events table, the outcome counter, the live counter and the breaker failed; the only
  ways to lose it are the three places outside every handler: the request counter, the latency histogram, and a score
  too large for a double. When the canonical store raises, its exception reaches the caller.\<close>

theorem primary_survives:
  assumes ob: "counts_request call \<longrightarrow> request_counter_ok (dc_observers call)"
  shows "(\<forall>e. dc_primary call = Inl e \<longrightarrow> fst (dual_query call req w) = Inl (PrimaryError e)) \<and>
    (\<forall>p. dc_primary call = Inr p \<longrightarrow>
      (if \<not> dual_enabled call \<or> short_circuits req \<or> (latency_observe_ok (dc_observers call) \<and> \<not> overflows p (dc_secondary call))
       then \<exists>r. fst (dual_query call req w) = Inr r \<and> dr_primary r = p
       else fst (dual_query call req w) = Inl (if overflows p (dc_secondary call) then CompareError OverflowError else CollectorError)))"
proof (intro conjI allI impI)
  fix e
  assume "dc_primary call = Inl e"
  then show "fst (dual_query call req w) = Inl (PrimaryError e)"
    using ob by (auto simp: dual_query_def skipped_read_def both_read_def Let_def)
next
  fix p
  assume p: "dc_primary call = Inr p"
  let ?w = "if counts_request call then w\<lparr>w_metrics := record_dual_read_request (dc_traffic_source call) (w_metrics w)\<rparr> else w"
  have q: "dual_query call req w = (if \<not> dual_enabled call \<or> short_circuits req then skipped_read call req ?w else both_read call req ?w)"
    using ob by (auto simp: dual_query_def Let_def)
  show "if \<not> dual_enabled call \<or> short_circuits req \<or> (latency_observe_ok (dc_observers call) \<and> \<not> overflows p (dc_secondary call))
    then \<exists>r. fst (dual_query call req w) = Inr r \<and> dr_primary r = p
    else fst (dual_query call req w) = Inl (if overflows p (dc_secondary call) then CompareError OverflowError else CollectorError)"
  proof (cases "\<not> dual_enabled call \<or> short_circuits req")
    case True
    then show ?thesis unfolding q using skipped_read_fst [OF p, of req ?w] by auto
  next
    case False
    then have q': "dual_query call req w = both_read call req ?w" unfolding q by simp
    show ?thesis
    proof (cases "overflows p (dc_secondary call)")
      case True
      with False p show ?thesis unfolding q' by (simp add: both_read_def classify_overflow)
    next
      case no: False
      then obtain out sec reason where c: "classify p (dc_secondary call) = Inr (out, sec, reason)"
        using classify_total by (metis surj_pair)
      show ?thesis
      proof (cases "latency_observe_ok (dc_observers call)")
        case True
        then show ?thesis unfolding q' using both_read_fst [OF p c True, of req ?w] no by auto
      next
        case bad: False
        with False no p c show ?thesis unfolding q' by (simp add: both_read_def)
      qed
    qed
  qed
qed

definition demo_observers :: observers where
  "demo_observers = \<lparr>request_counter_ok = True, latency_observe_ok = True, outcome_counter_ok = False, live_counter_ok = False,
     breaker_ok = False\<rparr>"

definition demo_dual_call :: "pystr + RetrievalEvidence \<Rightarrow> secondary_outcome \<Rightarrow> pystr dual_call" where
  "demo_dual_call primary secondary = \<lparr>dc_environ = [''DUAL_READ'' \<mapsto> ''TRUE''], dc_correlation_id = None, dc_minted = ''c-1'',
     dc_override = None, dc_traffic_source = None, dc_primary = primary, dc_secondary = secondary,
     dc_observers = demo_observers, dc_monotonic = 5, dc_utc = ''2026-01-01T00:00:00Z'', dc_decided_us = 9,
     dc_conflict = demo_conflict_call, dc_log_us = 9, dc_log_writable = False, dc_latency_primary = 1, dc_latency_secondary = 100\<rparr>"

definition demo_world :: world where
  "demo_world = \<lparr>w_metrics = \<lparr>outcomes_total = (\<lambda>_. 0), aphelion_total = (\<lambda>_. 0), requests_total = (\<lambda>_. 0), singleton = new_counter\<rparr>,
     w_live_counter = None, w_breaker = initial_breaker, w_conflicts = None, w_log = []\<rparr>"

lemma primary_survives_witness:
  "(\<exists>r. fst (dual_query (demo_dual_call (Inr (demo_evidence (JInt 1))) TimedOut) demo_request demo_world) = Inr r \<and>
     dr_primary r = demo_evidence (JInt 1)) \<and>
   fst (dual_query (demo_dual_call (Inr (demo_evidence (JInt (2 ^ 1024)))) (SecondaryReturned (Some (demo_evidence (JInt (2 ^ 1024))))))
     demo_request demo_world) = Inl (CompareError OverflowError)"
proof -
  let ?big = "demo_evidence (JInt (2 ^ 1024))"
  let ?c1 = "demo_dual_call (Inr (demo_evidence (JInt 1))) TimedOut" and ?c2 = "demo_dual_call (Inr ?big) (SecondaryReturned (Some ?big))"
  have ob: "counts_request c \<longrightarrow> request_counter_ok (dc_observers c)" if "dc_observers c = demo_observers" for c :: "pystr dual_call"
    using that by (simp add: demo_observers_def)
  have "as_float (JInt (2 ^ 1024)) = Inl OverflowError" by (simp add: as_float_def)
  then have over: "overflows ?big (SecondaryReturned (Some ?big))"
    by (simp add: overflows_def compare_results_def hits_equal_def demo_evidence_def same_ids_def hit_get_def py_eq_def scores_equal_def)
  have en: "dual_enabled ?c2"
    by (simp add: dual_enabled_def demo_dual_call_def is_dual_read_enabled_def getenv_def) code_simp
  have sc: "\<not> short_circuits demo_request" by (simp add: short_circuits_def demo_request_def)
  show ?thesis
  proof
    show "\<exists>r. fst (dual_query ?c1 demo_request demo_world) = Inr r \<and> dr_primary r = demo_evidence (JInt 1)"
      using primary_survives [OF ob, of ?c1 demo_request demo_world]
      by (auto simp: demo_dual_call_def demo_observers_def overflows_def split: if_splits)
    show "fst (dual_query ?c2 demo_request demo_world) = Inl (CompareError OverflowError)"
      using primary_survives [OF ob, of ?c2 demo_request demo_world] over en sc by (simp add: demo_dual_call_def)
  qed
qed

section \<open>The outcome\<close>

lemma record_outcome_breaker: "w_breaker (record_outcome call req out w) =
    (if out \<noteq> Skipped \<and> breaker_ok (dc_observers call)
     then record_unreachable_observation (dc_monotonic call) (dc_utc call) (out = AphelionUnreachable) (w_breaker w) else w_breaker w)"
  by (simp add: record_outcome_def Let_def)

lemma record_outcome_log [simp]: "w_log (record_outcome call req out w) = w_log w"
  by (simp add: record_outcome_def Let_def)

lemma query_shape:
  assumes "dual_query call req w = (Inr r, w')"
  obtains (skip) w1 where "\<not> dual_enabled call \<or> short_circuits req" "dc_primary call = Inr (dr_primary r)" "dr_outcome r = Skipped"
      "dr_secondary r = None" "dr_arbitration r = None" "w_breaker w1 = w_breaker w" "w_log w1 = w_log w"
      "w' = log_decision call req r (record_outcome call req Skipped w1)"
    | (both) w1 reason where "dual_enabled call" "\<not> short_circuits req" "dc_primary call = Inr (dr_primary r)"
      "classify (dr_primary r) (dc_secondary call) = Inr (dr_outcome r, dr_secondary r, reason)" "dr_arbitration r \<noteq> None"
      "w_breaker w1 = w_breaker w" "w_log w1 = w_log w" "w' = log_decision call req r (record_outcome call req (dr_outcome r) w1)"
proof -
  let ?w = "if counts_request call then w\<lparr>w_metrics := record_dual_read_request (dc_traffic_source call) (w_metrics w)\<rparr> else w"
  have w: "w_breaker ?w = w_breaker w" "w_log ?w = w_log w" by simp_all
  have q: "dual_query call req w = (if \<not> dual_enabled call \<or> short_circuits req then skipped_read call req ?w else both_read call req ?w)"
    using assms by (auto simp: dual_query_def Let_def split: if_splits)
  obtain p where p: "dc_primary call = Inr p"
    using assms unfolding q by (cases "dc_primary call") (auto simp: skipped_read_def both_read_def split: if_splits)
  show thesis
  proof (cases "\<not> dual_enabled call \<or> short_circuits req")
    case True
    then have s: "skipped_read call req ?w = (Inr r, w')" using assms q by simp
    with skipped_read_fst [OF p, of req ?w] p True w show thesis by (intro skip [of ?w]) auto
  next
    case False
    then have s: "both_read call req ?w = (Inr r, w')" using assms q by simp
    then obtain out sec reason where c: "classify p (dc_secondary call) = Inr (out, sec, reason)"
      using p by (cases "classify p (dc_secondary call)") (auto simp: both_read_def)
    have l: "latency_observe_ok (dc_observers call)" using s p c by (auto simp: both_read_def Let_def split: if_splits)
    obtain r' w1 where b: "both_read call req ?w = (Inr r', log_decision call req r' (record_outcome call req out w1))"
      "dr_primary r' = p" "dr_outcome r' = out" "dr_secondary r' = sec" "dr_arbitration r' \<noteq> None"
      "w_breaker w1 = w_breaker ?w" "w_log w1 = w_log ?w"
      using both_read_fst [OF p c l, of req ?w] by blast
    with s have "r' = r" "w' = log_decision call req r (record_outcome call req out w1)" by auto
    then show thesis using b p c False w by (intro both [of reason w1]) auto
  qed
qed

lemma query_raises_log: "dual_query call req w = (Inl e, w') \<Longrightarrow> w_log w' = w_log w"
  by (auto simp: dual_query_def skipped_read_def both_read_def finish_def Let_def emit_conflict_def split: if_splits sum.splits prod.splits)

lemma classify_unreachable: "classify p s = Inr (out, sec, reason) \<Longrightarrow>
    out \<noteq> Skipped \<and> (out = AphelionUnreachable \<longleftrightarrow> s = TimedOut \<or> (\<exists>why. s = SecondaryRaised (Unreachable why))) \<and>
    (out = Match \<longleftrightarrow> (\<exists>ev. s = SecondaryReturned (Some ev) \<and> list_all2 same_hit (ev_hits p) (ev_hits ev))) \<and>
    (sec \<noteq> None \<longleftrightarrow> out \<in> {Match, Diverge})"
proof (cases s)
  case (SecondaryRaised e)
  then show "classify p s = Inr (out, sec, reason) \<Longrightarrow> ?thesis" by (cases e) (auto simp: classify_def)
next
  case (SecondaryReturned ev)
  assume c: "classify p s = Inr (out, sec, reason)"
  show ?thesis
  proof (cases "compare_results p ev")
    case (Inl e)
    have "e \<noteq> OverflowError" using c Inl SecondaryReturned by (auto simp: classify_def)
    then have "out = PrimaryOnly" "sec = None"
      using c Inl SecondaryReturned compare_errors [OF Inl] by (auto simp: classify_def)
    moreover have "\<not> list_all2 same_hit (ev_hits p) (ev_hits e')" if "ev = Some e'" for e'
      using Inl that hits_equal_True [of p e'] by (simp add: compare_results_def)
    ultimately show ?thesis using SecondaryReturned by auto
  next
    case (Inr eq)
    then obtain e' where e': "ev = Some e'" by (auto simp: compare_results_def split: option.splits)
    with Inr have "eq \<longleftrightarrow> list_all2 same_hit (ev_hits p) (ev_hits e')"
      using hits_equal_True [of p e'] by (auto simp: compare_results_def)
    with c Inr e' SecondaryReturned show ?thesis by (auto simp: classify_def)
  qed
qed (auto simp: classify_def)



section \<open>The log and the rates\<close>

fun dual_run :: "('e dual_call \<times> QueryRequest) list \<Rightarrow> world \<Rightarrow> ('e dual_call \<times> QueryRequest \<times> DualReadResult) list \<times> world" where
  "dual_run [] w = ([], w)"
| "dual_run ((call, req) # xs) w = (case dual_query call req w of
     (Inl _, w') \<Rightarrow> dual_run xs w'
   | (Inr r, w') \<Rightarrow> (let (rs, w'') = dual_run xs w' in ((call, req, r) # rs, w'')))"

definition log_call :: "'e dual_call \<times> QueryRequest \<times> DualReadResult \<Rightarrow> append_env \<times> row" where
  "log_call x = (case x of (call, req, r) \<Rightarrow> (append_env_of call, decision_row call req r))"

lemma query_log: "dual_query call req w = (Inr r, w') \<Longrightarrow>
  w_log w' = snd (append_decision (append_env_of call) (decision_row call req r) (w_log w))"
  by (erule query_shape) (simp_all add: log_decision_def)

lemma dual_run_log:
  "w_log (snd (dual_run xs w)) = fold (\<lambda>(e, r) ls. snd (append_decision e r ls)) (map log_call (fst (dual_run xs w))) (w_log w)"
proof (induction xs arbitrary: w)
  case (Cons x xs)
  obtain call req where x: "x = (call, req)" by (cases x)
  obtain res w' where q: "dual_query call req w = (res, w')" by (metis surj_pair)
  show ?case
  proof (cases res)
    case (Inl e)
    then have "w_log w' = w_log w" using q query_raises_log by blast
    with Cons [of w'] Inl q show ?thesis by (simp add: x)
  next
    case (Inr r)
    then have "w_log w' = snd (append_decision (append_env_of call) (decision_row call req r) (w_log w))"
      using q query_log by blast
    with Cons [of w'] Inr q show ?thesis by (simp add: x log_call_def case_prod_beta Let_def)
  qed
qed simp

text \<open>The results whose record a reader of the window can see.\<close>

definition visible :: "int \<Rightarrow> 'e dual_call \<times> QueryRequest \<times> DualReadResult \<Rightarrow> bool" where
  "visible start x \<longleftrightarrow> (case x of (call, req, r) \<Rightarrow> is_log_enabled (dc_environ call) \<and> dc_log_writable call \<and>
     iso_us (dc_log_us call) \<noteq> None \<and> start \<le> dc_log_us call)"

definition time_and_row :: "'e dual_call \<times> QueryRequest \<times> DualReadResult \<Rightarrow> int \<times> row" where
  "time_and_row x = (case x of (call, req, r) \<Rightarrow> (dc_log_us call, decision_row call req r))"

definition outcome_of :: "'e dual_call \<times> QueryRequest \<times> DualReadResult \<Rightarrow> DualReadOutcome" where
  "outcome_of x = dr_outcome (snd (snd x))"

lemma logged_visible: "filter (\<lambda>x. start \<le> fst x) (logged (map log_call rs)) = map time_and_row (filter (visible start) rs)"
proof (induction rs)
  case (Cons x rs)
  obtain call req r where x: "x = (call, req, r)" by (metis surj_pair)
  from Cons show ?case by (simp add: x logged_def log_call_def append_env_of_def time_and_row_def visible_def)
qed (simp add: logged_def)

lemma decision_row_distinct: "distinct (map fst (decision_row call req r))"
  by (simp add: decision_row_def)

lemma stored_field:
  "field (stored (time_and_row (call, req, r))) k d = field (build_record (decision_row call req r) (dc_log_us call) (stamp_of (dc_log_us call))) k d"
proof -
  have "distinct (map fst (build_record (decision_row call req r) (dc_log_us call) (stamp_of (dc_log_us call))))"
    by (simp add: build_record_def LOG_RESERVED_def decision_row_def)
  then show ?thesis by (simp add: stored_def time_and_row_def field_def map_of_sort_key)
qed

lemma stored_facts:
  "normalize_outcome (stored (time_and_row x)) = Some (outcome_value (outcome_of x))"
  "field (stored (time_and_row x)) ''data_quality_flag'' JNull = JStr ''normal''"
  "field (stored (time_and_row x)) ''crosswalk_status'' JNull = JNull"
  "field (stored (time_and_row x)) ''circuit_breaker_tripped'' JNull = JNull"
proof -
  obtain call req r where x: "x = (call, req, r)" by (metis surj_pair)
  have "outcome_value out \<noteq> []" for out by (cases out) (simp_all add: outcome_value_def)
  then show "normalize_outcome (stored (time_and_row x)) = Some (outcome_value (outcome_of x))"
    by (simp add: x stored_field normalize_outcome_def outcome_of_def nonempty_text_def)
      (simp add: field_def build_record_def decision_row_def)
  show "field (stored (time_and_row x)) ''data_quality_flag'' JNull = JStr ''normal''"
    "field (stored (time_and_row x)) ''crosswalk_status'' JNull = JNull"
    "field (stored (time_and_row x)) ''circuit_breaker_tripped'' JNull = JNull"
    unfolding x stored_field by (simp_all add: field_def build_record_def decision_row_def LOG_RESERVED_def)
qed

lemma outcome_value_inj: "outcome_value a = outcome_value b \<longleftrightarrow> a = b"
  by (cases a; cases b; simp add: outcome_value_def)

lemma count_stored:
  assumes "\<And>x. x \<in> set xs \<Longrightarrow> P (stored (time_and_row x)) \<longleftrightarrow> Q (outcome_of x)"
  shows "length (filter P (map stored (sort_key fst (map time_and_row xs)))) = length (filter Q (map outcome_of xs))"
proof -
  have "length (filter P (map stored (sort_key fst ys))) = length (filter (\<lambda>y. P (stored y)) ys)" for ys :: "(int \<times> row) list"
    by (simp add: filter_map comp_def filter_sort)
  moreover have "filter (\<lambda>x. P (stored (time_and_row x))) xs = filter (\<lambda>x. Q (outcome_of x)) xs"
    using assms by (intro filter_cong) auto
  ultimately show ?thesis by (simp add: filter_map comp_def)
qed

lemma filter_count: "length (filter (\<lambda>y. y = a) ys) = count_list ys a" "length (filter (\<lambda>y. y \<noteq> a) ys) = length ys - count_list ys a"
proof -
  show c: "length (filter (\<lambda>y. y = a) ys) = count_list ys a" by (induction ys) auto
  show "length (filter (\<lambda>y. y \<noteq> a) ys) = length ys - count_list ys a"
    using sum_length_filter_compl [of "\<lambda>y. y = a" ys] c by simp
qed



end
