(* ===== verification/Sqlite_Gate.thy ===== *)
theory Sqlite_Gate
  imports Prelude
begin

text \<open>
  \<^verbatim>\<open>router/sqlite_gate.py\<close>: the lock around a shared connection, the gauge of waiting threads and the registry of
  gates, as steps of threads. A thread that reads takes the lock twice, for the statement and for the path of the WAL
  file. Proved: with one gate per connection at most one thread is inside a connection and the gauge is the number of
  waiting threads; the operations of any number of threads all end; with two gates on a connection neither holds, and
  the registry forgets the older gate when the newer one is collected.
\<close>

section \<open>The state\<close>

datatype gate_op = GateRead | GateWrite

datatype gate_phase = GateIdle | Queued nat gate_op | Holding nat gate_op | SampleWait nat | SampleHold nat

record gate_state =
  phase :: "nat \<Rightarrow> gate_phase"
  lock_of :: "nat \<Rightarrow> nat option"
  queue_depth :: int
  sqlite_errors :: nat
  conn_of :: "nat \<Rightarrow> nat option"
  live :: "nat \<Rightarrow> bool"
  registry :: "(nat \<times> nat) list"
  pragmas :: "nat \<Rightarrow> nat"

definition initial_gates :: gate_state where
  "initial_gates = \<lparr>phase = (\<lambda>_. GateIdle), lock_of = (\<lambda>_. None), queue_depth = 0, sqlite_errors = 0,
     conn_of = (\<lambda>_. None), live = (\<lambda>_. False), registry = [], pragmas = (\<lambda>_. 0)\<rparr>"

section \<open>The registry\<close>

definition prune_dead_refs :: "gate_state \<Rightarrow> gate_state" where
  "prune_dead_refs s = s\<lparr>registry := filter (\<lambda>(c, g). live s g) (registry s)\<rparr>"

definition is_connection_gated :: "nat \<Rightarrow> gate_state \<Rightarrow> bool \<times> gate_state" where
  "is_connection_gated c s = (let s' = prune_dead_refs s in
     ((case map_of (registry s') c of None \<Rightarrow> False | Some g \<Rightarrow> live s' g), s'))"

definition register_gate :: "nat \<Rightarrow> nat \<Rightarrow> gate_state \<Rightarrow> gate_state" where
  "register_gate g c s =
    (let s1 = prune_dead_refs (s\<lparr>conn_of := (conn_of s)(g := Some c), live := (live s)(g := True), lock_of := (lock_of s)(g := None)\<rparr>);
         need_apply = (case map_of (registry s1) c of None \<Rightarrow> True | Some g' \<Rightarrow> \<not> live s1 g')
     in s1\<lparr>pragmas := (if need_apply then (pragmas s1)(c := pragmas s1 c + 1) else pragmas s1),
           registry := (c, g) # filter (\<lambda>e. fst e \<noteq> c) (registry s1)\<rparr>)"

section \<open>The steps of an operation\<close>

definition begin_op :: "nat \<Rightarrow> nat \<Rightarrow> gate_op \<Rightarrow> gate_state \<Rightarrow> gate_state" where
  "begin_op t g op s = s\<lparr>phase := (phase s)(t := Queued g op), queue_depth := queue_depth s + 1\<rparr>"

definition acquire :: "nat \<Rightarrow> nat \<Rightarrow> gate_op \<Rightarrow> gate_state \<Rightarrow> gate_state" where
  "acquire t g op s = s\<lparr>phase := (phase s)(t := Holding g op), lock_of := (lock_of s)(g := Some t), queue_depth := queue_depth s - 1\<rparr>"

text \<open>The lock raises instead of being taken: the \<^verbatim>\<open>finally\<close> of the outer block corrects the gauge.\<close>

definition give_up :: "nat \<Rightarrow> gate_state \<Rightarrow> gate_state" where
  "give_up t s = s\<lparr>phase := (phase s)(t := GateIdle), queue_depth := queue_depth s - 1\<rparr>"

definition finish_op :: "nat \<Rightarrow> nat \<Rightarrow> gate_op \<Rightarrow> bool \<Rightarrow> gate_state \<Rightarrow> gate_state" where
  "finish_op t g op raised s =
    s\<lparr>phase := (phase s)(t := (if \<not> raised \<and> op = GateRead then SampleWait g else GateIdle)), lock_of := (lock_of s)(g := None),
      sqlite_errors := (if raised then sqlite_errors s + 1 else sqlite_errors s)\<rparr>"

definition sample_acquire :: "nat \<Rightarrow> nat \<Rightarrow> gate_state \<Rightarrow> gate_state" where
  "sample_acquire t g s = s\<lparr>phase := (phase s)(t := SampleHold g), lock_of := (lock_of s)(g := Some t)\<rparr>"

definition sample_release :: "nat \<Rightarrow> nat \<Rightarrow> gate_state \<Rightarrow> gate_state" where
  "sample_release t g s = s\<lparr>phase := (phase s)(t := GateIdle), lock_of := (lock_of s)(g := None)\<rparr>"

text \<open>The gate a thread refers to.\<close>

fun gate_of :: "gate_phase \<Rightarrow> nat option" where
  "gate_of GateIdle = None"
| "gate_of (Queued g op) = Some g"
| "gate_of (Holding g op) = Some g"
| "gate_of (SampleWait g) = Some g"
| "gate_of (SampleHold g) = Some g"

fun holds :: "gate_phase \<Rightarrow> nat option" where
  "holds (Holding g op) = Some g"
| "holds (SampleHold g) = Some g"
| "holds _ = None"

text \<open>What the threads that are inside an operation do.\<close>

inductive gate_work :: "gate_state \<Rightarrow> gate_state \<Rightarrow> bool" where
  work_acquire: "phase s t = Queued g op \<Longrightarrow> lock_of s g = None \<Longrightarrow> gate_work s (acquire t g op s)"
| work_finish: "phase s t = Holding g op \<Longrightarrow> gate_work s (finish_op t g op raised s)"
| work_sample: "phase s t = SampleWait g \<Longrightarrow> lock_of s g = None \<Longrightarrow> gate_work s (sample_acquire t g s)"
| work_sampled: "phase s t = SampleHold g \<Longrightarrow> gate_work s (sample_release t g s)"

text \<open>What else may happen: a lock raises, a gate is constructed or
  dropped while no thread uses it, the registry is asked, or a thread starts an operation (there are \<open>n\<close> threads).\<close>

inductive gate_step :: "nat \<Rightarrow> gate_state \<Rightarrow> gate_state \<Rightarrow> bool" for n where
  step_work: "gate_work s s' \<Longrightarrow> gate_step n s s'"
| step_give_up: "phase s t = Queued g op \<Longrightarrow> gate_step n s (give_up t s)"
| step_new: "conn_of s g = None \<Longrightarrow> gate_step n s (register_gate g c s)"
| step_collect: "live s g \<Longrightarrow> \<forall>t. gate_of (phase s t) \<noteq> Some g \<Longrightarrow> gate_step n s (s\<lparr>live := (live s)(g := False)\<rparr>)"
| step_ask: "gate_step n s (snd (is_connection_gated c s))"
| step_begin: "t < n \<Longrightarrow> phase s t = GateIdle \<Longrightarrow> live s g \<Longrightarrow> gate_step n s (begin_op t g op s)"

inductive_cases gate_workE: "gate_work s s'"

abbreviation reachable :: "nat \<Rightarrow> gate_state \<Rightarrow> bool" where
  "reachable n s \<equiv> (gate_step n)\<^sup>*\<^sup>* initial_gates s"

section \<open>The invariant\<close>

definition waiting :: "gate_state \<Rightarrow> nat set" where
  "waiting s = {t. \<exists>g op. phase s t = Queued g op}"

definition gate_inv :: "nat \<Rightarrow> gate_state \<Rightarrow> bool" where
  "gate_inv n s \<longleftrightarrow> (\<forall>g t. lock_of s g = Some t \<longleftrightarrow> holds (phase s t) = Some g) \<and>
     (\<forall>t \<ge> n. phase s t = GateIdle) \<and> queue_depth s = int (card (waiting s)) \<and>
     (\<forall>t g. gate_of (phase s t) = Some g \<longrightarrow> live s g) \<and> (\<forall>g. live s g \<longrightarrow> conn_of s g \<noteq> None)"

lemma waiting_finite: "\<forall>t \<ge> n. phase s t = GateIdle \<Longrightarrow> finite (waiting s)"
  by (rule finite_subset [of _ "{..<n}"]) (auto simp: waiting_def not_le [symmetric])

lemma holds_gate: "holds p = Some g \<Longrightarrow> gate_of p = Some g"
  by (cases p) simp_all

lemma gate_inv_initial: "gate_inv n initial_gates"
  by (simp add: gate_inv_def initial_gates_def waiting_def)

text \<open>A step that moves one thread: its new phase, the lock of its gate and the gauge change together.\<close>

lemma gate_inv_move:
  assumes inv: "gate_inv n s" and t: "t < n"
    and ph: "phase s' = (phase s)(t := p)" and g: "gate_of p = Some g \<or> p = GateIdle" "live s g"
    and lock: "lock_of s' = (lock_of s)(g := l)"
    and lo: "l = (if holds p = Some g then Some t else if lock_of s g = Some t then None else lock_of s g)"
    and free: "holds p = Some g \<Longrightarrow> lock_of s g = None \<or> lock_of s g = Some t"
    and own: "gate_of (phase s t) = Some g \<or> phase s t = GateIdle"
    and q: "queue_depth s' = queue_depth s - (if t \<in> waiting s then 1 else 0) + (if \<exists>g op. p = Queued g op then 1 else 0)"
    and rest: "live s' = live s" "conn_of s' = conn_of s"
  shows "gate_inv n s'"
proof -
  have i: "\<And>g t. lock_of s g = Some t \<longleftrightarrow> holds (phase s t) = Some g" "\<And>t. n \<le> t \<Longrightarrow> phase s t = GateIdle"
    "queue_depth s = int (card (waiting s))" "\<And>t g. gate_of (phase s t) = Some g \<Longrightarrow> live s g" "\<And>g. live s g \<Longrightarrow> conn_of s g \<noteq> None"
    using inv unfolding gate_inv_def by blast+
  have fin: "finite (waiting s)" by (rule waiting_finite [of n]) (use i(2) in blast)
  have w: "waiting s' = (if \<exists>g op. p = Queued g op then insert t (waiting s) else waiting s - {t})"
    by (auto simp: waiting_def ph)
  have "queue_depth s' = int (card (waiting s'))"
    unfolding w q i(3) using fin card_Suc_Diff1 [OF fin, of t] by (auto simp: card_insert_if card_Diff_singleton_if)
  moreover have "lock_of s' g' = Some t' \<longleftrightarrow> holds (phase s' t') = Some g'" for g' t'
    using i(1) [of g' t'] i(1) [of g t] i(1) [of g t'] lock lo free own g holds_gate [of p g'] holds_gate [of "phase s t" g']
    by (cases "t' = t"; cases "g' = g") (auto simp: ph)
  moreover have "\<forall>t' \<ge> n. phase s' t' = GateIdle" using i(2) t by (auto simp: ph)
  moreover have "gate_of (phase s' t') = Some g' \<longrightarrow> live s' g'" for t' g'
    using i(4) g by (auto simp: ph rest)
  ultimately show ?thesis using i(5) unfolding gate_inv_def rest by blast
qed

lemma gate_inv_work:
  assumes inv: "gate_inv n s" and step: "gate_work s s'"
  shows "gate_inv n s'"
proof -
  have idle: "t < n" if "phase s t \<noteq> GateIdle" for t
    using inv that unfolding gate_inv_def by (meson not_le)
  have liv: "live s g" if "gate_of (phase s t) = Some g" for t g
    using inv that unfolding gate_inv_def by blast
  have lk: "lock_of s g = Some t \<longleftrightarrow> holds (phase s t) = Some g" for g t
    using inv unfolding gate_inv_def by blast
  show ?thesis
    using step
  proof (cases rule: gate_work.cases)
    case (work_acquire t g op)
    then have "t \<in> waiting s" by (auto simp: waiting_def)
    show ?thesis
      by (rule gate_inv_move [OF inv, where t = t and g = g and p = "Holding g op" and l = "Some t"])
        (use work_acquire idle [of t] liv [of t g] \<open>t \<in> waiting s\<close> in \<open>simp_all add: acquire_def\<close>)
  next
    case (work_finish t g op raised)
    then have "t \<notin> waiting s" by (auto simp: waiting_def)
    show ?thesis
      by (rule gate_inv_move [OF inv, where t = t and g = g and l = None and
          p = "if \<not> raised \<and> op = GateRead then SampleWait g else GateIdle"])
        (use work_finish idle [of t] liv [of t g] lk [of g t] \<open>t \<notin> waiting s\<close> in \<open>simp_all add: finish_op_def\<close>)
  next
    case (work_sample t g)
    then have "t \<notin> waiting s" by (auto simp: waiting_def)
    show ?thesis
      by (rule gate_inv_move [OF inv, where t = t and g = g and p = "SampleHold g" and l = "Some t"])
        (use work_sample idle [of t] liv [of t g] \<open>t \<notin> waiting s\<close> in \<open>simp_all add: sample_acquire_def\<close>)
  next
    case (work_sampled t g)
    then have "t \<notin> waiting s" by (auto simp: waiting_def)
    show ?thesis
      by (rule gate_inv_move [OF inv, where t = t and g = g and p = GateIdle and l = None])
        (use work_sampled idle [of t] liv [of t g] lk [of g t] \<open>t \<notin> waiting s\<close> in \<open>simp_all add: sample_release_def\<close>)
  qed
qed

lemma gate_inv_step:
  assumes inv: "gate_inv n s" and step: "gate_step n s s'"
  shows "gate_inv n s'"
  using step
proof (cases rule: gate_step.cases)
  case step_work
  then show ?thesis using gate_inv_work [OF inv] by blast
next
  case (step_give_up t g op)
  have t: "t \<in> waiting s" using step_give_up by (auto simp: waiting_def)
  have "t < n" "live s g" "lock_of s g \<noteq> Some t"
    using inv step_give_up unfolding gate_inv_def by (metis gate_phase.distinct(1) not_le, metis gate_of.simps(2), metis holds.simps(4) option.distinct(1))
  then show ?thesis
    by (intro gate_inv_move [OF inv, where t = t and g = g and p = GateIdle and l = "lock_of s g"])
      (use step_give_up t in \<open>simp_all add: give_up_def\<close>)
next
  case (step_new g c)
  have "\<not> live s g" using inv step_new(2) unfolding gate_inv_def by blast
  then have "\<And>t. gate_of (phase s t) \<noteq> Some g" using inv unfolding gate_inv_def by blast
  then have "\<And>t. holds (phase s t) \<noteq> Some g" using holds_gate by blast
  moreover have "waiting s' = waiting s" by (simp add: waiting_def step_new(1) register_gate_def prune_dead_refs_def Let_def)
  ultimately show ?thesis
    using inv unfolding gate_inv_def step_new(1) register_gate_def prune_dead_refs_def Let_def by (simp add: waiting_def)
next
  case (step_collect g)
  then show ?thesis using inv by (simp add: gate_inv_def waiting_def)
next
  case (step_ask c)
  then show ?thesis using inv by (simp add: gate_inv_def waiting_def is_connection_gated_def prune_dead_refs_def Let_def)
next
  case (step_begin t g op)
  then have "t \<notin> waiting s" by (auto simp: waiting_def)
  have "lock_of s g \<noteq> Some t" using inv step_begin unfolding gate_inv_def by (metis holds.simps(3) option.distinct(1))
  then show ?thesis
    by (intro gate_inv_move [OF inv, where t = t and g = g and p = "Queued g op" and l = "lock_of s g"])
      (use step_begin \<open>t \<notin> waiting s\<close> in \<open>simp_all add: begin_op_def\<close>)
qed

lemma gate_inv_reachable: "reachable n s \<Longrightarrow> gate_inv n s"
  by (induction rule: rtranclp_induct) (auto intro: gate_inv_initial gate_inv_step)

text \<open>A thread is inside a connection from taking the lock of one of its gates to releasing it.\<close>

definition inside :: "gate_state \<Rightarrow> nat \<Rightarrow> nat \<Rightarrow> bool" where
  "inside s t c \<longleftrightarrow> (\<exists>g. holds (phase s t) = Some g \<and> conn_of s g = Some c)"

text \<open>C28: in every reachable state of any number of threads, gates and connections, while no two live gates wrap one
  connection, at most one thread is inside a connection; and the gauge is exactly the number of threads that wait for a
  lock, so it returns to zero, whatever fails.\<close>

theorem one_thread_inside:
  assumes "reachable n s"
    and one: "\<And>g g'. live s g \<Longrightarrow> live s g' \<Longrightarrow> conn_of s g = conn_of s g' \<Longrightarrow> g = g'"
  shows "(inside s t c \<longrightarrow> inside s t' c \<longrightarrow> t = t') \<and> queue_depth s = int (card {t. \<exists>g op. phase s t = Queued g op})"
proof -
  have inv: "gate_inv n s" by (rule gate_inv_reachable [OF assms(1)])
  have "t = t'" if ins: "inside s t c" "inside s t' c"
  proof -
    obtain g g' where g: "holds (phase s t) = Some g" "conn_of s g = Some c" "holds (phase s t') = Some g'" "conn_of s g' = Some c"
      using ins unfolding inside_def by blast
    then have "live s g" "live s g'" using inv holds_gate unfolding gate_inv_def by blast+
    with one g have "g = g'" by simp
    with g inv have "lock_of s g = Some t" "lock_of s g = Some t'" unfolding gate_inv_def by blast+
    then show ?thesis by simp
  qed
  with inv show ?thesis unfolding gate_inv_def waiting_def by blast
qed

section \<open>Every operation ends\<close>

fun rank :: "gate_phase \<Rightarrow> nat" where
  "rank GateIdle = 0"
| "rank (SampleHold g) = 1"
| "rank (SampleWait g) = 2"
| "rank (Holding g op) = 3"
| "rank (Queued g op) = 4"

definition work_left :: "nat \<Rightarrow> gate_state \<Rightarrow> nat" where
  "work_left n s = (\<Sum>t < n. rank (phase s t))"

lemma work_decreases:
  assumes inv: "gate_inv n s" and step: "gate_work s s'"
  shows "work_left n s' < work_left n s"
proof -
  have move: "work_left n (s1 :: gate_state) < work_left n s"
    if "phase s1 = (phase s)(t := p)" "rank p < rank (phase s t)" for s1 t p
  proof -
    have "phase s t \<noteq> GateIdle" using that(2) by auto
    then have t: "t \<in> {..<n}" using inv unfolding gate_inv_def by (meson lessThan_iff not_le)
    have "(\<Sum>x < n. rank (phase s1 x)) < (\<Sum>x < n. rank (phase s x))"
      using t that by (intro sum_strict_mono_ex1) (auto simp: that(1) intro!: bexI [of _ t])
    then show ?thesis by (simp add: work_left_def)
  qed
  show ?thesis
    using step by (cases rule: gate_work.cases)
      (rule move, simp_all add: acquire_def give_up_def finish_op_def sample_acquire_def sample_release_def; simp)+
qed

lemma work_progress:
  assumes inv: "gate_inv n s" and busy: "phase s t \<noteq> GateIdle"
  shows "\<exists>s'. gate_work s s'"
proof -
  have held: "\<exists>s'. gate_work s s'" if h: "lock_of s g = Some t'" for g t'
  proof -
    have "holds (phase s t') = Some g" using inv h unfolding gate_inv_def by blast
    then consider op where "phase s t' = Holding g op" | "phase s t' = SampleHold g" by (cases "phase s t'") auto
    then show ?thesis using work_finish [of s t' g _ False] work_sampled [of s t' g] by cases blast+
  qed
  show ?thesis
  proof (cases "phase s t")
    case (Queued g op)
    then show ?thesis using held [of g] work_acquire [of s t g op] by (cases "lock_of s g") blast+
  next
    case (SampleWait g)
    then show ?thesis using held [of g] work_sample [of s t g] by (cases "lock_of s g") blast+
  next
    case (Holding g op)
    then show ?thesis using work_finish [of s t g op False] by blast
  next
    case (SampleHold g)
    then show ?thesis using work_sampled [of s t g] by blast
  qed (use busy in simp)
qed

lemma work_run: "(gate_work ^^ k) s s' \<Longrightarrow> gate_inv n s \<Longrightarrow> gate_inv n s' \<and> k + work_left n s' \<le> work_left n s"
proof (induction k arbitrary: s')
  case (Suc k)
  then obtain s1 where s1: "(gate_work ^^ k) s s1" "gate_work s1 s'" by auto
  with Suc have i: "gate_inv n s1" "k + work_left n s1 \<le> work_left n s" by blast+
  then show ?case using gate_inv_work [OF i(1) s1(2)] work_decreases [OF i(1) s1(2)] by auto
qed simp

lemma idle_depth: "gate_inv n s \<Longrightarrow> \<forall>t. phase s t = GateIdle \<Longrightarrow> queue_depth s = 0"
  by (simp add: gate_inv_def waiting_def)

lemma work_reaches_idle: "gate_inv n s \<Longrightarrow> \<exists>k s'. (gate_work ^^ k) s s' \<and> (\<forall>t. phase s' t = GateIdle)"
proof (induction "work_left n s" arbitrary: s rule: less_induct)
  case less
  show ?case
  proof (cases "\<forall>t. phase s t = GateIdle")
    case True
    then show ?thesis by (intro exI [of _ 0]) auto
  next
    case False
    then obtain s1 where s1: "gate_work s s1" using work_progress [OF less.prems] by blast
    with less.hyps [OF work_decreases [OF less.prems s1]] gate_inv_work [OF less.prems s1]
    obtain k s' where "(gate_work ^^ k) s1 s'" "\<forall>t. phase s' t = GateIdle" by blast
    moreover from this(1) s1 have "(gate_work ^^ Suc k) s s'" by (rule relpowp_Suc_I2 [rotated])
    ultimately show ?thesis by blast
  qed
qed

text \<open>C40: the operations of any number of threads on any gates all end. From every reachable state the threads inside an
  operation make at most four steps each, in any order, whatever statements raise; as long as one has not returned, some
  step is possible, so there is no deadlock; and when none is, every thread has returned and the gauge is zero.\<close>

theorem operations_end:
  assumes "reachable n s"
  shows "(\<forall>k s'. (gate_work ^^ k) s s' \<longrightarrow> k \<le> 4 * n \<and>
      ((\<exists>t. phase s' t \<noteq> GateIdle) \<longrightarrow> (\<exists>s''. gate_work s' s'')) \<and>
      ((\<nexists>s''. gate_work s' s'') \<longrightarrow> (\<forall>t. phase s' t = GateIdle) \<and> queue_depth s' = 0)) \<and>
    (\<exists>k s'. (gate_work ^^ k) s s' \<and> (\<forall>t. phase s' t = GateIdle))"
proof -
  have inv: "gate_inv n s" by (rule gate_inv_reachable [OF assms])
  have "rank p \<le> 4" for p by (cases p) simp_all
  then have "work_left n s \<le> (\<Sum>t < n. 4)" unfolding work_left_def by (intro sum_mono) auto
  then have bound: "work_left n s \<le> 4 * n" by simp
  show ?thesis
  proof (intro conjI allI impI)
    fix k s'
    assume run: "(gate_work ^^ k) s s'"
    note r = work_run [OF run inv]
    show "k \<le> 4 * n" using r bound by simp
    show "\<exists>s''. gate_work s' s''" if "\<exists>t. phase s' t \<noteq> GateIdle" using that work_progress r by blast
    assume stuck: "\<nexists>s''. gate_work s' s''"
    then have idle: "\<forall>t. phase s' t = GateIdle" using work_progress r by blast
    then show "phase s' t = GateIdle" for t by blast
    show "queue_depth s' = 0" using idle_depth idle r by blast
  qed (rule work_reaches_idle [OF inv])
qed

section \<open>Two gates on a connection\<close>

lemma reach_step: "reachable n s \<Longrightarrow> gate_step n s s' \<Longrightarrow> reachable n s'"
  by (rule rtranclp.rtrancl_into_rtrancl)

definition one_gate :: "nat \<Rightarrow> gate_state" where
  "one_gate c = register_gate 0 c initial_gates"

definition two_gates :: "nat \<Rightarrow> gate_state" where
  "two_gates c = register_gate 1 c (one_gate c)"

lemma one_gate_state: "one_gate c = initial_gates\<lparr>conn_of := (\<lambda>_. None)(0 := Some c), live := (\<lambda>_. False)(0 := True),
    registry := [(c, 0)], pragmas := (\<lambda>_. 0)(c := 1)\<rparr>"
  by (simp add: one_gate_def register_gate_def prune_dead_refs_def initial_gates_def Let_def fun_eq_iff)

lemma two_gates_state: "two_gates c = initial_gates\<lparr>conn_of := (\<lambda>_. None)(0 := Some c, 1 := Some c),
    live := (\<lambda>_. False)(0 := True, 1 := True), registry := [(c, 1)], pragmas := (\<lambda>_. 0)(c := 1)\<rparr>"
  by (simp add: two_gates_def one_gate_state register_gate_def prune_dead_refs_def initial_gates_def Let_def fun_eq_iff)

lemma one_gate_reachable: "reachable n (one_gate c)"
  unfolding one_gate_def by (rule r_into_rtranclp, rule step_new) (simp add: initial_gates_def)

lemma two_gates_reachable: "reachable n (two_gates c)"
  unfolding two_gates_def by (rule reach_step [OF one_gate_reachable], rule step_new) (simp add: one_gate_state initial_gates_def)

definition busy_gates :: "nat \<Rightarrow> gate_state" where
  "busy_gates c = acquire 0 0 GateRead (begin_op 0 0 GateRead (two_gates c))"

lemma busy_gates_reachable: "reachable 2 (busy_gates c)"
proof -
  have "reachable 2 (begin_op 0 0 GateRead (two_gates c))"
    by (rule reach_step [OF two_gates_reachable], rule step_begin) (simp_all add: two_gates_state initial_gates_def)
  then show ?thesis unfolding busy_gates_def
    by (rule reach_step, intro step_work work_acquire) (simp_all add: begin_op_def two_gates_state initial_gates_def)
qed

text \<open>C27: a second gate on a connection has a lock of its own, so two threads can be inside one connection at once; and its
  entry replaces the first one's in the registry, so once it is collected a connection that a live gate wraps, with a
  thread inside it, is reported as not gated.\<close>

theorem second_gate_defeats_first:
  "(\<exists>s. reachable 2 s \<and> inside s 0 c \<and> inside s 1 c) \<and>
   (\<exists>s. reachable 2 s \<and> inside s 0 c \<and> live s 0 \<and> \<not> fst (is_connection_gated c s))"
proof
  let ?s = "begin_op 1 1 GateWrite (busy_gates c)"
  have st: "phase (busy_gates c) = (\<lambda>_. GateIdle)(0 := Holding 0 GateRead)" "live (busy_gates c) = (\<lambda>_. False)(0 := True, 1 := True)"
    "conn_of (busy_gates c) = (\<lambda>_. None)(0 := Some c, 1 := Some c)" "registry (busy_gates c) = [(c, 1)]"
    "lock_of (busy_gates c) = (\<lambda>_. None)(0 := Some 0)"
    by (simp_all add: busy_gates_def acquire_def begin_op_def two_gates_state initial_gates_def fun_eq_iff)
  have "reachable 2 ?s"
    by (rule reach_step [OF busy_gates_reachable], rule step_begin) (simp_all add: st)
  then have "reachable 2 (acquire 1 1 GateWrite ?s)"
    by (rule reach_step, intro step_work work_acquire) (simp_all add: begin_op_def st)
  moreover have "inside (acquire 1 1 GateWrite ?s) 0 c" "inside (acquire 1 1 GateWrite ?s) 1 c"
    by (simp_all add: inside_def acquire_def begin_op_def st)
  ultimately show "\<exists>s. reachable 2 s \<and> inside s 0 c \<and> inside s 1 c" by blast
  let ?t = "(busy_gates c)\<lparr>live := (live (busy_gates c))(1 := False)\<rparr>"
  have "reachable 2 ?t"
    by (rule reach_step [OF busy_gates_reachable], rule step_collect) (simp_all add: st)
  moreover have "inside ?t 0 c" "live ?t 0" "\<not> fst (is_connection_gated c ?t)"
    by (simp_all add: inside_def st is_connection_gated_def prune_dead_refs_def Let_def)
  ultimately show "\<exists>s. reachable 2 s \<and> inside s 0 c \<and> live s 0 \<and> \<not> fst (is_connection_gated c s)" by blast
qed

lemma one_thread_inside_witness:
  "queue_depth (begin_op 1 0 GateWrite (begin_op 0 0 GateRead (one_gate 7))) =
     int (card {t. \<exists>g op. phase (begin_op 1 0 GateWrite (begin_op 0 0 GateRead (one_gate 7))) t = Queued g op})"
proof -
  let ?s = "begin_op 0 0 GateRead (one_gate 7)"
  have "reachable 2 ?s"
    by (rule reach_step [OF one_gate_reachable], rule step_begin) (simp_all add: one_gate_state initial_gates_def)
  then have r: "reachable 2 (begin_op 1 0 GateWrite ?s)"
    by (rule reach_step, intro step_begin) (simp_all add: begin_op_def one_gate_state initial_gates_def)
  have "g = g'" if "live (begin_op 1 0 GateWrite ?s) g" "live (begin_op 1 0 GateWrite ?s) g'" for g g'
    using that by (simp add: begin_op_def one_gate_state initial_gates_def split: if_splits)
  from one_thread_inside [OF r this] show ?thesis by blast
qed

lemma operations_end_witness:
  "\<exists>k s'. (gate_work ^^ k) (busy_gates 7) s' \<and> (\<forall>t. phase s' t = GateIdle)"
  using operations_end [OF busy_gates_reachable [of 7]] by blast

end
