(* ===== verification/Sql_Text.thy ===== *)
theory Sql_Text
  imports Prelude
begin

text \<open>
  The text operations of the retrieval queries (\<^verbatim>\<open>parallax/retrieve.py\<close>): the \<^verbatim>\<open>LIKE\<close> operator of SQLite with its
  \<^verbatim>\<open>ESCAPE\<close> clause, \<^verbatim>\<open>LOWER\<close>, the phrase match of an FTS5 trigram index, \<^verbatim>\<open>LIMIT\<close> and the slice \<^verbatim>\<open>xs[:n]\<close>, the
  stable sorts of the results; and the two quotations the module writes for them, \<^verbatim>\<open>_like_escape\<close> and \<^verbatim>\<open>_fts_phrase\<close>.
  Proved: a quoted text is matched literally by either engine, and on ASCII text the two agree.
\<close>

section \<open>Lists\<close>

definition sort_desc :: "('a \<Rightarrow> 'k::linorder) \<Rightarrow> 'a list \<Rightarrow> 'a list" where
  "sort_desc key xs = rev (sort_key key (rev xs))"

definition sql_limit :: "int \<Rightarrow> 'a list \<Rightarrow> 'a list" where
  "sql_limit n xs = (if n < 0 then xs else take (nat n) xs)"

definition py_head :: "int \<Rightarrow> 'a list \<Rightarrow> 'a list" where
  "py_head n xs = take (nat (if n < 0 then int (length xs) + n else n)) xs"

lemma set_sort_desc [simp]: "set (sort_desc key xs) = set xs"
  by (simp add: sort_desc_def)

lemma length_sort_desc [simp]: "length (sort_desc key xs) = length xs"
  by (simp add: sort_desc_def)

lemma sorted_sort_desc: "sorted_wrt (\<lambda>x y. key y \<le> key x) (sort_desc key xs)"
  using sorted_sort_key [of key "rev xs"] by (simp add: sort_desc_def sorted_wrt_rev sorted_map)

lemma set_sql_limit: "set (sql_limit n xs) \<subseteq> set xs"
  by (auto simp: sql_limit_def dest: in_set_takeD)

lemma length_sql_limit: "0 \<le> n \<Longrightarrow> length (sql_limit n xs) \<le> nat n"
  by (simp add: sql_limit_def)

lemma sql_limit_map: "sql_limit n (map f xs) = map f (sql_limit n xs)"
  by (simp add: sql_limit_def take_map)

lemma set_py_head: "set (py_head n xs) \<subseteq> set xs"
  by (auto simp: py_head_def dest: in_set_takeD)

lemma py_head_mem: "x \<in> set (py_head n (sort_desc key xs)) \<Longrightarrow> x \<in> set xs"
  using set_py_head [of n "sort_desc key xs"] by auto

lemma length_py_head: "0 \<le> n \<Longrightarrow> length (py_head n xs) \<le> nat n"
  by (simp add: py_head_def)

lemma sorted_py_head: "sorted_wrt P xs \<Longrightarrow> sorted_wrt P (py_head n xs)"
  by (simp add: py_head_def sorted_wrt_take)

section \<open>\<^verbatim>\<open>LIKE\<close>\<close>

text \<open>SQLite folds the ASCII letters only.\<close>

definition ascii_lower_char :: "char \<Rightarrow> char" where
  "ascii_lower_char c = (let n = (of_char c :: nat) in if 65 \<le> n \<and> n \<le> 90 then char_of (n + 32) else c)"

definition sql_lower :: "pystr \<Rightarrow> pystr" where
  "sql_lower s = map ascii_lower_char s"

fun sql_like :: "char option \<Rightarrow> pystr \<Rightarrow> pystr \<Rightarrow> bool" where
  "sql_like esc [] t = (t = [])"
| "sql_like esc (p # ps) t =
    (if esc = Some p then
       (case ps of [] \<Rightarrow> False
        | q # qs \<Rightarrow> (case t of [] \<Rightarrow> False | c # cs \<Rightarrow> ascii_lower_char q = ascii_lower_char c \<and> sql_like esc qs cs))
     else if p = CHR 0x25 then sql_like esc ps t \<or> (case t of [] \<Rightarrow> False | c # cs \<Rightarrow> sql_like esc (p # ps) cs)
     else (case t of [] \<Rightarrow> False | c # cs \<Rightarrow> (p = CHR ''_'' \<or> ascii_lower_char p = ascii_lower_char c) \<and> sql_like esc ps cs))"

definition replace_char :: "char \<Rightarrow> pystr \<Rightarrow> pystr \<Rightarrow> pystr" where
  "replace_char c r s = concat (map (\<lambda>x. if x = c then r else [x]) s)"

definition LIKE_ESCAPE :: char where
  "LIKE_ESCAPE = CHR 0x5C"

definition like_escape :: "pystr \<Rightarrow> pystr" where
  "like_escape s = replace_char (CHR ''_'') [LIKE_ESCAPE, CHR ''_'']
     (replace_char (CHR 0x25) [LIKE_ESCAPE, CHR 0x25]
       (replace_char LIKE_ESCAPE [LIKE_ESCAPE, LIKE_ESCAPE] s))"

text \<open>The substring test the patterns stand for.\<close>

fun contains :: "pystr \<Rightarrow> pystr \<Rightarrow> bool" where
  "contains needle [] = (needle = [])"
| "contains needle (c # cs) = (startswith (c # cs) needle \<or> contains needle cs)"

definition like_char :: "char \<Rightarrow> pystr" where
  "like_char c = (if c = LIKE_ESCAPE \<or> c = CHR 0x25 \<or> c = CHR ''_'' then [LIKE_ESCAPE, c] else [c])"

lemma like_escape_chars: "like_escape s = concat (map like_char s)"
  by (induction s) (auto simp: like_escape_def replace_char_def like_char_def LIKE_ESCAPE_def)

lemma startswith_Cons: "startswith t (p # ps) \<longleftrightarrow> (case t of [] \<Rightarrow> False | c # cs \<Rightarrow> c = p \<and> startswith cs ps)"
  by (cases t) (auto simp: startswith_def)

lemma startswith_Nil [simp]: "startswith t []"
  by (simp add: startswith_def)

lemma startswith_prefix: "startswith t p \<longleftrightarrow> (\<exists>r. t = p @ r)"
  by (auto simp: startswith_def intro: exI [of _ "drop (length p) t"]) (metis append_take_drop_id)

lemma like_percent: "sql_like (Some LIKE_ESCAPE) [CHR 0x25] t"
  by (induction t) (simp_all add: LIKE_ESCAPE_def)

lemma like_literal_step:
  "sql_like (Some LIKE_ESCAPE) (like_char p @ ps) t =
     (case t of [] \<Rightarrow> False | c # cs \<Rightarrow> ascii_lower_char p = ascii_lower_char c \<and> sql_like (Some LIKE_ESCAPE) ps cs)"
  by (cases t) (simp_all add: like_char_def LIKE_ESCAPE_def)

lemma like_prefix:
  "sql_like (Some LIKE_ESCAPE) (like_escape s @ [CHR 0x25]) t = startswith (sql_lower t) (sql_lower s)"
proof (induction s arbitrary: t)
  case Nil
  have "like_escape [] = []" by (simp add: like_escape_chars)
  then show ?case by (simp only: append_Nil like_percent) (simp add: sql_lower_def)
next
  case (Cons p s)
  have e: "like_escape (p # s) @ [CHR 0x25] = like_char p @ (like_escape s @ [CHR 0x25])"
    by (simp add: like_escape_chars)
  show ?case unfolding e like_literal_step
    by (cases t) (auto simp: Cons.IH sql_lower_def startswith_Cons)
qed

lemma like_substring:
  "sql_like (Some LIKE_ESCAPE) (CHR 0x25 # like_escape s @ [CHR 0x25]) t = contains (sql_lower s) (sql_lower t)"
proof (induction t)
  case Nil
  have "sql_like (Some LIKE_ESCAPE) (CHR 0x25 # like_escape s @ [CHR 0x25]) [] =
    sql_like (Some LIKE_ESCAPE) (like_escape s @ [CHR 0x25]) []" by (simp add: LIKE_ESCAPE_def)
  then show ?case unfolding like_prefix by (simp add: sql_lower_def startswith_def)
next
  case (Cons c t)
  have "sql_like (Some LIKE_ESCAPE) (CHR 0x25 # like_escape s @ [CHR 0x25]) (c # t) =
    (sql_like (Some LIKE_ESCAPE) (like_escape s @ [CHR 0x25]) (c # t) \<or>
     sql_like (Some LIKE_ESCAPE) (CHR 0x25 # like_escape s @ [CHR 0x25]) t)" by (simp add: LIKE_ESCAPE_def)
  then show ?case unfolding like_prefix Cons.IH by (simp add: sql_lower_def)
qed

section \<open>The trigram index\<close>

definition TRIGRAM_MIN_CHARS :: int where
  "TRIGRAM_MIN_CHARS = 3"

definition fts_phrase :: "pystr \<Rightarrow> pystr" where
  "fts_phrase s = [CHR 0x22] @ replace_char (CHR 0x22) [CHR 0x22, CHR 0x22] s @ [CHR 0x22]"

definition FTS_USER_SENTINEL :: char where
  "FTS_USER_SENTINEL = CHR 0x02"

definition fts_user_tag :: "pystr \<Rightarrow> pystr" where
  "fts_user_tag user_id = [FTS_USER_SENTINEL] @ user_id @ [FTS_USER_SENTINEL]"

text \<open>A match expression is the quoted phrase asked of \<^verbatim>\<open>user_tag\<close> and the quoted phrases of which \<^verbatim>\<open>payload_json\<close>
  must have one.\<close>

definition fts_scoped_match :: "pystr \<Rightarrow> pystr list \<Rightarrow> pystr \<times> pystr list" where
  "fts_scoped_match user_id payload = (fts_phrase (fts_user_tag user_id), payload)"

text \<open>FTS5 reads a quoted phrase up to its closing quote; the trigram tokenizer folds case and a phrase of three
  characters or more is a substring test.\<close>

fun fts_body :: "pystr \<Rightarrow> pystr" where
  "fts_body [] = []"
| "fts_body (c # cs) = (if c = CHR 0x22 then (case cs of [] \<Rightarrow> [] | d # ds \<Rightarrow> if d = CHR 0x22 then CHR 0x22 # fts_body ds else [])
     else c # fts_body cs)"

definition phrase_text :: "pystr \<Rightarrow> pystr" where
  "phrase_text q = fts_body (tl q)"

definition fts_phrase_in :: "pystr \<Rightarrow> pystr \<Rightarrow> bool" where
  "fts_phrase_in q col = contains (lower (phrase_text q)) (lower col)"

definition fts_match :: "pystr \<times> pystr list \<Rightarrow> pystr \<Rightarrow> pystr \<Rightarrow> bool" where
  "fts_match m tag col \<longleftrightarrow> fts_phrase_in (fst m) tag \<and> list_ex (\<lambda>q. fts_phrase_in q col) (snd m)"

lemma fts_body_quoted: "fts_body (replace_char (CHR 0x22) [CHR 0x22, CHR 0x22] s @ [CHR 0x22]) = s"
  by (induction s) (simp_all add: replace_char_def)

lemma phrase_text_phrase [simp]: "phrase_text (fts_phrase s) = s"
  by (simp add: phrase_text_def fts_phrase_def fts_body_quoted)

lemma contains_self [simp]: "contains s s"
  by (cases s) (simp_all add: startswith_def)

lemma fts_match_own:
  "fts_match (fts_scoped_match user_id (map fts_phrase needles)) (fts_user_tag user_id) col =
   list_ex (\<lambda>s. contains (lower s) (lower col)) needles"
  by (simp add: fts_match_def fts_scoped_match_def fts_phrase_in_def list_ex_iff)

definition ascii :: "pystr \<Rightarrow> bool" where
  "ascii s \<longleftrightarrow> (\<forall>c \<in> set s. (of_char c :: nat) < 128)"

lemma ascii_fold: "ascii s \<Longrightarrow> lower s = sql_lower s"
  by (auto simp: ascii_def lower_def sql_lower_def lower_char_def ascii_lower_char_def Let_def)

text \<open>On ASCII text the two engines select the same rows.\<close>

lemma engines_agree:
  assumes "ascii s" "ascii col"
  shows "fts_match (fts_scoped_match user_id [fts_phrase s]) (fts_user_tag user_id) col =
    sql_like (Some LIKE_ESCAPE) (CHR 0x25 # like_escape s @ [CHR 0x25]) col"
  using fts_match_own [of user_id "[s]" col] assms unfolding like_substring by (simp add: ascii_fold)

lemma contains_set: "contains s t \<Longrightarrow> set s \<subseteq> set t"
  by (induction t) (auto simp: startswith_def dest: in_set_takeD, metis in_set_takeD set_ConsD)

end
