(* ===== verification/Retrieval.thy ===== *)
theory Retrieval
  imports Sql_Text Store Iso_Time Telemetry Aphelion_Adapter "HOL-Library.Option_ord"
begin

text \<open>
  \<^verbatim>\<open>parallax/retrieve.py\<close>: the row-level helpers, the hit and its three projections, the normalisation of time
  bounds and the recency score. The queries are in \<open>Retrieval_Queries\<close>.

  What a call reads beside the tables is the record \<open>retrieve_env\<close>: the clock when a row is scored, the stored
  text of a payload column, whether the trigram index exists, the order SQLite gives rows of equal
  \<^verbatim>\<open>created_at\<close> (the two \<open>ORDER BY\<close> functions), the formats of \<^verbatim>\<open>fromisoformat\<close> other than the extended ones,
  and the text of a float. A score is an exact rational, a limit an integer that SQLite can bind.
\<close>

record retrieve_env =
  rt_now :: "event_row \<Rightarrow> int"
  rt_payload :: "event_row \<Rightarrow> pystr"
  rt_fts :: bool
  rt_newest_first :: "event_row list \<Rightarrow> event_row list"
  rt_oldest_first :: "event_row list \<Rightarrow> event_row list"
  rt_other :: "pystr \<Rightarrow> int option"
  rt_other_date :: "pystr \<Rightarrow> bool"
  rt_float :: "rat \<Rightarrow> pystr"

text \<open>What SQL promises of \<open>ORDER BY created_at DESC\<close> and \<open>ASC\<close>.\<close>

definition orders_rows :: "retrieve_env \<Rightarrow> bool" where
  "orders_rows env \<longleftrightarrow> (\<forall>xs. mset (rt_newest_first env xs) = mset xs \<and> mset (rt_oldest_first env xs) = mset xs \<and>
     sorted_wrt (\<lambda>x y. evt_created_at y \<le> evt_created_at x) (rt_newest_first env xs) \<and>
     sorted_wrt (\<lambda>x y. evt_created_at x \<le> evt_created_at y) (rt_oldest_first env xs))"

section \<open>Row-level helpers\<close>

definition memories_by_user :: "db \<Rightarrow> pystr \<Rightarrow> pystr option \<Rightarrow> counter_registry \<Rightarrow> memory_row list \<times> counter_registry" where
  "memories_by_user d user_id state r =
    (filter (\<lambda>m. mem_user_id m = user_id \<and> (case state of None \<Rightarrow> True | Some s \<Rightarrow> mem_state m = s)) (memories d),
     counter_inc ''retrieve_total'' 1 r)"

definition claims_by_user :: "db \<Rightarrow> pystr \<Rightarrow> pystr option \<Rightarrow> counter_registry \<Rightarrow> claim_row list \<times> counter_registry" where
  "claims_by_user d user_id state r =
    (filter (\<lambda>c. clm_user_id c = user_id \<and> (case state of None \<Rightarrow> True | Some s \<Rightarrow> clm_state c = s)) (claims d),
     counter_inc ''retrieve_total'' 1 r)"

definition claims_by_subject :: "db \<Rightarrow> pystr \<Rightarrow> pystr \<Rightarrow> claim_row list" where
  "claims_by_subject d user_id subject = filter (\<lambda>c. clm_user_id c = user_id \<and> clm_subject c = subject) (claims d)"

definition memory_by_content_hash :: "db \<Rightarrow> pystr \<Rightarrow> pystr \<Rightarrow> memory_row option" where
  "memory_by_content_hash d chash user_id =
    List.find (\<lambda>m. mem_content_hash m = chash \<and> mem_user_id m = user_id) (memories d)"

definition claim_by_content_hash :: "db \<Rightarrow> pystr \<Rightarrow> pystr \<Rightarrow> claim_row option" where
  "claim_by_content_hash d chash user_id =
    List.find (\<lambda>c. clm_content_hash c = chash \<and> clm_user_id c = user_id) (claims d)"

section \<open>Hits\<close>

text \<open>A title is a text, or the text of a claim and the title of the event that targets it, with a dash between.\<close>

datatype hit_title = Title pystr | Enriched pystr hit_title

datatype hit_row = EventRow event_row | ClaimRow claim_row

record retrieval_hit =
  entity_kind :: pystr
  entity_id :: pystr
  hit_title :: hit_title
  score :: rat
  hit_evidence :: "pystr option"
  hit_full :: "hit_row option"
  explain_reason :: pystr
  score_components :: "(pystr \<times> rat) list"

datatype full_view = FullRow hit_row | FullEvidence "pystr option"

datatype projection =
    Layer1 pystr pystr hit_title rat
  | Layer2 pystr pystr hit_title rat "pystr option"
  | Layer3 pystr pystr hit_title rat "pystr option" full_view

definition project :: "retrieval_hit \<Rightarrow> int \<Rightarrow> kernel_error + projection" where
  "project h level =
    (if level \<notin> {1, 2, 3} then Inl (ValueError (''level must be one of 1, 2, 3; got '' @ dec level))
     else if level = 1 then Inr (Layer1 (entity_kind h) (entity_id h) (hit_title h) (score h))
     else if level = 2 then Inr (Layer2 (entity_kind h) (entity_id h) (hit_title h) (score h) (hit_evidence h))
     else Inr (Layer3 (entity_kind h) (entity_id h) (hit_title h) (score h) (hit_evidence h)
       (case hit_full h of Some r \<Rightarrow> FullRow r | None \<Rightarrow> FullEvidence (hit_evidence h))))"

section \<open>Times\<close>

text \<open>
  \<^verbatim>\<open>datetime.fromisoformat\<close>: a date, or a date and a time to the second or microsecond, without a zone or with
  \<^verbatim>\<open>+00:00\<close>, is completed to the text of the writers. A reading without a zone is taken as UTC, which every caller does.
\<close>

definition complete_iso :: "pystr \<Rightarrow> pystr" where
  "complete_iso s =
    (if length s = 10 then s @ ''T00:00:00.000000+00:00''
     else if length s = 19 then s @ ''.000000+00:00''
     else if length s = 26 then s @ ''+00:00''
     else if length s = 25 \<and> drop 19 s = ''+00:00'' then take 19 s @ ''.000000+00:00''
     else s)"

definition iso_instant :: "(pystr \<Rightarrow> int option) \<Rightarrow> pystr \<Rightarrow> int option" where
  "iso_instant other s = (let c = complete_iso s; t = iso_fields c in if iso_us t = Some c then Some t else other s)"

definition parse_iso :: "retrieve_env \<Rightarrow> pystr \<Rightarrow> int option" where
  "parse_iso env ts = iso_instant (rt_other env) (if ts \<noteq> [] \<and> last ts = CHR ''Z'' then butlast ts @ ''+00:00'' else ts)"

definition is_date_only :: "retrieve_env \<Rightarrow> pystr \<Rightarrow> bool" where
  "is_date_only env ts \<longleftrightarrow>
    (length ts = 10 \<and> iso_us (iso_fields (complete_iso ts)) = Some (complete_iso ts)) \<or> rt_other_date env ts"

definition DAY_US :: int where
  "DAY_US = 86400000000"

definition SECOND_US :: int where
  "SECOND_US = 1000000"

text \<open>The instant of the bound; \<^verbatim>\<open>astimezone\<close> raises \<^verbatim>\<open>OverflowError\<close> for one outside the calendar.\<close>

definition bound_instant :: "retrieve_env \<Rightarrow> pystr \<Rightarrow> pystr \<Rightarrow> int \<Rightarrow> int" where
  "bound_instant env kind ts t =
    (if kind = ''until'' \<and> is_date_only env ts then t div DAY_US * DAY_US + (DAY_US - 1)
     else if kind = ''until'' \<and> t mod SECOND_US = 0 then t + 999999
     else t)"

definition iso_normalize :: "retrieve_env \<Rightarrow> pystr \<Rightarrow> pystr \<Rightarrow> kernel_error + pystr" where
  "iso_normalize env kind ts =
    (if kind \<notin> {''since'', ''until''} then Inl (ValueError (''kind must be 'since' or 'until'; got '' @ py_repr kind))
     else case parse_iso env ts of
       None \<Rightarrow> Inl (ValueError ts)
     | Some t \<Rightarrow> (case iso_us (bound_instant env kind ts t) of None \<Rightarrow> Inl OverflowError | Some s \<Rightarrow> Inr s))"

definition recency_score :: "retrieve_env \<Rightarrow> event_row \<Rightarrow> rat" where
  "recency_score env e =
    (case parse_iso env (evt_created_at e) of None \<Rightarrow> 0
     | Some t \<Rightarrow> (let age_h = max (of_int (rt_now env e - t) / 3600000000) 0
        in max 0 (min 1 (1 / (1 + age_h / 24)))))"

section \<open>From rows to hits\<close>

definition py_round6 :: "rat \<Rightarrow> rat" where
  "py_round6 q = of_int (py_round (q * 1000000)) / 1000000"

definition component_score :: "(pystr \<times> rat) list \<Rightarrow> rat" where
  "component_score cs = py_round6 (sum_list (map snd cs))"

definition truthy_str :: "pystr option \<Rightarrow> bool" where
  "truthy_str x = (case x of None \<Rightarrow> False | Some s \<Rightarrow> s \<noteq> [])"

definition event_title :: "event_row \<Rightarrow> pystr" where
  "event_title e =
    (case (evt_target_kind e, evt_target_id e) of
       (Some k, Some t) \<Rightarrow> if k \<noteq> [] \<and> t \<noteq> [] then evt_type e @ '' ['' @ k @ '':'' @ t @ '']'' else evt_type e
     | _ \<Rightarrow> evt_type e)"

definition event_to_hit :: "retrieve_env \<Rightarrow> pystr \<Rightarrow> (pystr \<times> rat) list \<Rightarrow> event_row \<Rightarrow> retrieval_hit" where
  "event_to_hit env reason comps e =
    \<lparr>entity_kind = ''event'', entity_id = evt_id e, hit_title = Title (event_title e), score = component_score comps,
     hit_evidence = Some (evt_created_at e @ '' '' @ evt_type e @ '' '' @ take 160 (rt_payload env e)),
     hit_full = Some (EventRow e), explain_reason = reason, score_components = comps\<rparr>"

definition spo :: "claim_row \<Rightarrow> pystr" where
  "spo c = strip (clm_subject c @ '' '' @ clm_predicate c @ '' '' @ clm_object c)"

definition claim_to_hit :: "retrieve_env \<Rightarrow> pystr \<Rightarrow> (pystr \<times> rat) list \<Rightarrow> claim_row \<Rightarrow> retrieval_hit" where
  "claim_to_hit env reason comps c =
    \<lparr>entity_kind = ''claim'', entity_id = clm_id c, hit_title = Title (if spo c \<noteq> [] then spo c else ''(empty claim)''),
     score = component_score comps,
     hit_evidence = Some (''confidence='' @ (case clm_confidence c of None \<Rightarrow> ''None'' | Some q \<Rightarrow> rt_float env q) @
       '' state='' @ clm_state c),
     hit_full = Some (ClaimRow c), explain_reason = reason, score_components = comps\<rparr>"

section \<open>Facts\<close>

lemma recency_bounds: "0 \<le> recency_score env e" "recency_score env e \<le> 1"
  by (simp_all add: recency_score_def Let_def split: option.split)

lemma py_round_close: "\<bar>of_int (py_round q) - q\<bar> \<le> 1 / 2"
proof -
  have f: "of_int \<lfloor>q\<rfloor> \<le> q" "q < of_int \<lfloor>q\<rfloor> + 1" by linarith+
  show ?thesis unfolding py_round_def Let_def
    by (cases "q - of_int \<lfloor>q\<rfloor> < 1 / 2"; cases "1 / 2 < q - of_int \<lfloor>q\<rfloor>"; cases "even \<lfloor>q\<rfloor>") (use f in \<open>simp_all add: abs_le_iff\<close>)
qed

lemma py_round_range: "of_int a \<le> q \<Longrightarrow> q \<le> of_int b \<Longrightarrow> a \<le> py_round q \<and> py_round q \<le> b"
proof -
  assume a: "of_int a \<le> q" and b: "q \<le> of_int b"
  have "of_int (py_round q) - q \<le> 1 / 2" "q - of_int (py_round q) \<le> 1 / 2"
    using py_round_close [of q] by (simp_all only: abs_le_iff minus_diff_eq)
  then have "of_int (py_round q) < (of_int b + 1 :: rat)" "(of_int a - 1 :: rat) < of_int (py_round q)"
    using a b by linarith+
  then have "of_int (py_round q) < (of_int (b + 1) :: rat)" "(of_int (a - 1) :: rat) < of_int (py_round q)" by simp_all
  then show "a \<le> py_round q \<and> py_round q \<le> b" by (simp only: of_int_less_iff) simp
qed

lemma component_score_range:
  assumes "of_int a / 1000000 \<le> sum_list (map snd cs)" "sum_list (map snd cs) \<le> of_int b / 1000000"
  shows "of_int a / 1000000 \<le> component_score cs" "component_score cs \<le> of_int b / 1000000"
  using py_round_range [of a "sum_list (map snd cs) * 1000000" b] assms
  by (simp_all add: component_score_def py_round6_def field_simps)

lemma parse_iso_writer:
  assumes "iso_us t = Some s"
  shows "parse_iso env s = Some t"
proof -
  have "length s = 32" "last s \<noteq> CHR ''Z''"
    using assms by (auto simp: iso_us_def date_text_def clock_text_def Let_def split: if_splits prod.splits)
  then have "parse_iso env s = iso_instant (rt_other env) s" "complete_iso s = s"
    by (simp_all add: parse_iso_def complete_iso_def)
  then show ?thesis using iso_fields_iso [OF assms] assms by (simp add: iso_instant_def)
qed

lemma writer_not_date:
  assumes "iso_us t = Some s"
  shows "is_date_only env s = rt_other_date env s"
proof -
  have "length s = 32"
    using assms by (auto simp: iso_us_def date_text_def clock_text_def Let_def split: if_splits prod.splits)
  then show ?thesis by (simp add: is_date_only_def)
qed

end
