(* ===== verification/Retrieval_Queries.thy ===== *)
theory Retrieval_Queries
  imports Retrieval
begin

text \<open>
  The six queries of \<^verbatim>\<open>parallax/retrieve.py\<close> over the tables of \<open>Store\<close>. A query selects rows with its \<^verbatim>\<open>WHERE\<close> clause, orders
  and cuts them as its \<^verbatim>\<open>ORDER BY ... LIMIT\<close> does, turns them into hits and merges them.
\<close>

section \<open>Selections\<close>

definition FIX_TOKENS :: "pystr list" where
  "FIX_TOKENS = [''fix'', ''bug'', ''FIX-'', ''regression'', ''hotfix'']"

definition FILE_EVENT_TYPES :: "pystr list" where
  "FILE_EVENT_TYPES = [''tool.edit'', ''tool.write'', ''file.edit'']"

definition like_pattern :: "pystr \<Rightarrow> pystr" where
  "like_pattern s = CHR 0x25 # like_escape s @ [CHR 0x25]"

definition use_fts :: "retrieve_env \<Rightarrow> pystr \<Rightarrow> bool" where
  "use_fts env needle \<longleftrightarrow> TRIGRAM_MIN_CHARS \<le> int (length needle) \<and> rt_fts env"

text \<open>The payload condition of \<^verbatim>\<open>by_file\<close> and \<^verbatim>\<open>by_entity\<close>. The index holds one row per event, written by a trigger.\<close>

definition payload_matches :: "retrieve_env \<Rightarrow> pystr \<Rightarrow> pystr \<Rightarrow> event_row \<Rightarrow> bool" where
  "payload_matches env user_id needle e =
    (if use_fts env needle
     then fts_match (fts_scoped_match user_id [fts_phrase needle]) (fts_user_tag (evt_user_id e)) (rt_payload env e)
     else sql_like (Some LIKE_ESCAPE) (like_pattern needle) (rt_payload env e))"

definition newest :: "retrieve_env \<Rightarrow> int \<Rightarrow> (event_row \<Rightarrow> bool) \<Rightarrow> db \<Rightarrow> event_row list" where
  "newest env limit sel d = sql_limit limit (rt_newest_first env (filter sel (events d)))"

text \<open>\<^verbatim>\<open>ORDER BY confidence DESC, updated_at DESC, claim_id ASC\<close>; \<^verbatim>\<open>NULL\<close> is the least value.\<close>

definition by_confidence :: "claim_row list \<Rightarrow> claim_row list" where
  "by_confidence cs = sort_desc clm_confidence (sort_desc clm_updated_at (sort_key clm_id cs))"

section \<open>\<^verbatim>\<open>recent_context\<close>\<close>

definition latest_session :: "retrieve_env \<Rightarrow> db \<Rightarrow> pystr \<Rightarrow> pystr option" where
  "latest_session env d user_id =
    (case newest env 1 (\<lambda>e. evt_user_id e = user_id \<and> evt_type e = ''session.start'') d of
       [] \<Rightarrow> None | e # _ \<Rightarrow> evt_session_id e)"

definition resolved_session :: "retrieve_env \<Rightarrow> db \<Rightarrow> pystr \<Rightarrow> pystr option \<Rightarrow> pystr option" where
  "resolved_session env d user_id session_id =
    (case session_id of Some s \<Rightarrow> Some s | None \<Rightarrow> latest_session env d user_id)"

definition recent_context :: "retrieve_env \<Rightarrow> db \<Rightarrow> pystr \<Rightarrow> pystr option \<Rightarrow> int \<Rightarrow> retrieval_hit list" where
  "recent_context env d user_id session_id limit =
    (let sid = resolved_session env d user_id session_id;
         rows = newest env limit (\<lambda>e. evt_user_id e = user_id \<and>
           (case sid of None \<Rightarrow> True | Some s \<Rightarrow> evt_session_id e = Some s)) d;
         reason = (case sid of
           None \<Rightarrow> ''recent_context fallback (no session.start found); newest events for user''
         | Some s \<Rightarrow> ''recent_context match on session_id='' @ py_repr s)
     in sort_desc score (map (\<lambda>e. event_to_hit env reason [(''recency'', recency_score env e)] e) rows))"

section \<open>\<^verbatim>\<open>by_file\<close>\<close>

definition file_event :: "pystr \<Rightarrow> event_row \<Rightarrow> bool" where
  "file_event user_id e \<longleftrightarrow> evt_user_id e = user_id \<and> evt_type e \<in> set FILE_EVENT_TYPES"

definition file_hit :: "retrieve_env \<Rightarrow> pystr \<Rightarrow> event_row \<Rightarrow> retrieval_hit" where
  "file_hit env path e = event_to_hit env (''by_file match on events.payload_json LIKE %'' @ path @ ''%'')
     [(''keyword'', 6 / 10), (''recency'', 3 / 10 * recency_score env e), (''source'', 1 / 10)] e"

definition by_file :: "retrieve_env \<Rightarrow> db \<Rightarrow> pystr \<Rightarrow> pystr \<Rightarrow> int \<Rightarrow> retrieval_hit list" where
  "by_file env d user_id path limit =
    (if path = [] then []
     else map (file_hit env path)
       (newest env limit (\<lambda>e. file_event user_id e \<and> payload_matches env user_id path e) d))"

section \<open>\<^verbatim>\<open>by_decision\<close>\<close>

definition decision_event :: "pystr \<Rightarrow> event_row \<Rightarrow> bool" where
  "decision_event user_id e \<longleftrightarrow> evt_user_id e = user_id \<and>
     (evt_type e = ''claim.state_changed'' \<or> sql_like None ''decision.%'' (evt_type e))"

text \<open>The dictionary the batch of referenced claims fills.\<close>

definition spo_by_id :: "db \<Rightarrow> pystr \<Rightarrow> event_row list \<Rightarrow> pystr \<rightharpoonup> pystr" where
  "spo_by_id d user_id rows =
    (let ids = [the (evt_target_id e). e \<leftarrow> rows, evt_target_kind e = Some ''claim'' \<and> truthy_str (evt_target_id e)]
     in if ids = [] then Map.empty
        else fold (\<lambda>c m. if spo c \<noteq> [] then m(clm_id c \<mapsto> spo c) else m)
          (filter (\<lambda>c. clm_user_id c = user_id \<and> clm_id c \<in> set ids) (claims d)) Map.empty)"

definition by_decision :: "retrieve_env \<Rightarrow> db \<Rightarrow> pystr \<Rightarrow> int \<Rightarrow> retrieval_hit list" where
  "by_decision env d user_id limit =
    (let rows = newest env limit (decision_event user_id) d; titles = spo_by_id d user_id rows in
     map (\<lambda>e. let h = event_to_hit env ''by_decision match on event_type claim.state_changed OR decision.*''
                  [(''keyword'', 1 / 2), (''recency'', 1 / 2 * recency_score env e)] e in
          case titles (case evt_target_id e of None \<Rightarrow> [] | Some t \<Rightarrow> t) of
            None \<Rightarrow> h
          | Some t \<Rightarrow> h\<lparr>hit_title := Enriched t (hit_title h)\<rparr>) rows)"

section \<open>\<^verbatim>\<open>by_bug_fix\<close>\<close>

definition fix_payload :: "retrieve_env \<Rightarrow> pystr \<Rightarrow> event_row \<Rightarrow> bool" where
  "fix_payload env user_id e =
    (if rt_fts env \<and> list_all (\<lambda>tok. TRIGRAM_MIN_CHARS \<le> int (length tok)) FIX_TOKENS
     then fts_match (fts_scoped_match user_id (map fts_phrase FIX_TOKENS)) (fts_user_tag (evt_user_id e)) (rt_payload env e)
     else list_ex (\<lambda>tok. sql_like None (CHR 0x25 # tok @ [CHR 0x25]) (rt_payload env e)) FIX_TOKENS)"

definition bug_events :: "retrieve_env \<Rightarrow> db \<Rightarrow> pystr \<Rightarrow> int \<Rightarrow> event_row list" where
  "bug_events env d user_id limit = newest env limit (\<lambda>e. evt_user_id e = user_id \<and> fix_payload env user_id e) d"

definition fix_claim :: "claim_row \<Rightarrow> bool" where
  "fix_claim c = list_ex (\<lambda>tok. let p = CHR 0x25 # tok @ [CHR 0x25] in
     sql_like None p (clm_subject c) \<or> sql_like None p (clm_predicate c) \<or> sql_like None p (clm_object c)) FIX_TOKENS"

definition bug_claims :: "db \<Rightarrow> pystr \<Rightarrow> int \<Rightarrow> claim_row list" where
  "bug_claims d user_id limit = sql_limit limit (by_confidence (filter (\<lambda>c. clm_user_id c = user_id \<and> fix_claim c) (claims d)))"

fun first_by_id :: "pystr set \<Rightarrow> claim_row list \<Rightarrow> claim_row list" where
  "first_by_id seen [] = []"
| "first_by_id seen (c # cs) = (if clm_id c \<in> seen then first_by_id seen cs
     else c # first_by_id (insert (clm_id c) seen) cs)"

definition by_bug_fix :: "retrieve_env \<Rightarrow> db \<Rightarrow> pystr \<Rightarrow> int \<Rightarrow> retrieval_hit list" where
  "by_bug_fix env d user_id limit =
    py_head limit (sort_desc score
      (map (\<lambda>e. event_to_hit env ''by_bug_fix match on events.payload_json LIKE fix/bug tokens''
         [(''keyword'', 6 / 10), (''recency'', 4 / 10 * recency_score env e)] e) (bug_events env d user_id limit) @
       map (claim_to_hit env ''by_bug_fix match on claims.(subject|predicate|object) LIKE fix/bug''
         [(''keyword'', 7 / 10), (''source'', 1 / 10)]) (first_by_id {} (bug_claims d user_id limit))))"

section \<open>\<^verbatim>\<open>by_timeline\<close>\<close>

definition timeline_rows :: "retrieve_env \<Rightarrow> db \<Rightarrow> pystr \<Rightarrow> pystr \<Rightarrow> pystr \<Rightarrow> int \<Rightarrow> event_row list" where
  "timeline_rows env d user_id since_norm until_norm limit =
    sql_limit limit (rt_oldest_first env (filter (\<lambda>e. evt_user_id e = user_id \<and>
      since_norm \<le> evt_created_at e \<and> evt_created_at e \<le> until_norm) (events d)))"

definition timeline_bounds :: "retrieve_env \<Rightarrow> pystr \<Rightarrow> pystr \<Rightarrow> kernel_error + pystr \<times> pystr" where
  "timeline_bounds env since until =
    and_then (iso_normalize env ''since'' since) (\<lambda>s. and_then (iso_normalize env ''until'' until) (\<lambda>u.
      if u < s then Inl (ValueError (''by_timeline: since ('' @ since @ '') must be <= until ('' @ until @ '')''))
      else Inr (s, u)))"

definition timeline_hit :: "retrieve_env \<Rightarrow> pystr \<Rightarrow> pystr \<Rightarrow> event_row \<Rightarrow> retrieval_hit" where
  "timeline_hit env since until e = event_to_hit env
     (''by_timeline match on created_at BETWEEN '' @ py_repr since @ '' AND '' @ py_repr until)
     [(''recency'', recency_score env e)] e"

definition by_timeline :: "retrieve_env \<Rightarrow> db \<Rightarrow> pystr \<Rightarrow> pystr \<Rightarrow> pystr \<Rightarrow> int \<Rightarrow> kernel_error + retrieval_hit list" where
  "by_timeline env d user_id since until limit =
    and_then (timeline_bounds env since until) (\<lambda>(s, u).
      Inr (map (timeline_hit env since until) (timeline_rows env d user_id s u limit)))"

section \<open>\<^verbatim>\<open>by_entity\<close>\<close>

definition subject_matches :: "pystr \<Rightarrow> claim_row \<Rightarrow> bool" where
  "subject_matches subject c \<longleftrightarrow> clm_subject c = subject \<or>
     sql_like (Some LIKE_ESCAPE) (like_escape (lower subject) @ [CHR 0x25]) (sql_lower (clm_subject c))"

definition entity_claims :: "db \<Rightarrow> pystr \<Rightarrow> pystr \<Rightarrow> int \<Rightarrow> claim_row list" where
  "entity_claims d user_id subject limit =
    sql_limit limit (by_confidence (filter (\<lambda>c. clm_user_id c = user_id \<and> subject_matches subject c) (claims d)))"

definition entity_events :: "retrieve_env \<Rightarrow> db \<Rightarrow> pystr \<Rightarrow> pystr \<Rightarrow> int \<Rightarrow> event_row list" where
  "entity_events env d user_id subject limit =
    newest env limit (\<lambda>e. evt_user_id e = user_id \<and> payload_matches env user_id subject e) d"

definition entity_claim_hit :: "retrieve_env \<Rightarrow> pystr \<Rightarrow> claim_row \<Rightarrow> retrieval_hit" where
  "entity_claim_hit env subject c =
    (let exact = clm_subject c = subject in
     claim_to_hit env (''by_entity match on claims.subject '' @ (if exact then ''exact'' else ''prefix'') @ '' '' @ py_repr subject)
       [(''keyword'', if exact then 1 else 6 / 10), (''source'', 1 / 10)] c)"

definition entity_event_hit :: "retrieve_env \<Rightarrow> pystr \<Rightarrow> event_row \<Rightarrow> retrieval_hit" where
  "entity_event_hit env subject e =
    event_to_hit env (''by_entity match on events.payload_json LIKE %'' @ subject @ ''%'')
      [(''keyword'', 1 / 2), (''recency'', 3 / 10 * recency_score env e)] e"

definition by_entity :: "retrieve_env \<Rightarrow> db \<Rightarrow> pystr \<Rightarrow> pystr \<Rightarrow> int \<Rightarrow> retrieval_hit list" where
  "by_entity env d user_id subject limit =
    (if subject = [] then []
     else py_head limit (sort_desc score
       (map (entity_claim_hit env subject) (entity_claims d user_id subject limit) @
        map (entity_event_hit env subject) (entity_events env d user_id subject limit))))"

section \<open>\<^verbatim>\<open>explain_retrieve\<close>\<close>

text \<open>
  The recorder and the frozen trace. The SQL text of a fragment and the detail text of a stage are output only and
  are left out; the dash of three notes (U+2014) is written as a hyphen.
\<close>

record trace_stage =
  stage_name :: pystr
  candidates_in :: nat
  candidates_out :: nat

record trace_params =
  p_kind :: pystr
  p_user_id :: pystr
  p_query :: pystr
  p_limit :: int
  p_since :: "pystr option"
  p_until :: "pystr option"

record trace_builder =
  tb_params :: trace_params
  tb_normalized :: "pystr \<rightharpoonup> json"
  tb_stages :: "trace_stage list"
  tb_notes :: "pystr list"

record retrieval_trace = trace_builder +
  tr_hits :: "retrieval_hit list"

definition new_builder :: "trace_params \<Rightarrow> trace_builder" where
  "new_builder p = \<lparr>tb_params = p, tb_normalized = Map.empty, tb_stages = [], tb_notes = []\<rparr>"

definition stage :: "pystr \<Rightarrow> nat \<Rightarrow> nat \<Rightarrow> trace_builder \<Rightarrow> trace_builder" where
  "stage name n m b = b\<lparr>tb_stages := tb_stages b @ [\<lparr>stage_name = name, candidates_in = n, candidates_out = m\<rparr>]\<rparr>"

definition note_line :: "pystr \<Rightarrow> trace_builder \<Rightarrow> trace_builder" where
  "note_line s b = b\<lparr>tb_notes := tb_notes b @ [s]\<rparr>"

definition set_normalized :: "(pystr \<times> json) list \<Rightarrow> trace_builder \<Rightarrow> trace_builder" where
  "set_normalized kvs b = b\<lparr>tb_normalized := tb_normalized b ++ map_of kvs\<rparr>"

definition freeze :: "retrieval_hit list \<Rightarrow> trace_builder \<Rightarrow> retrieval_trace" where
  "freeze hits b = trace_builder.extend b \<lparr>tr_hits = hits\<rparr>"

definition count_events_for_user :: "db \<Rightarrow> pystr \<Rightarrow> nat" where
  "count_events_for_user d user_id = length (filter (\<lambda>e. evt_user_id e = user_id) (events d))"

definition count_claims_for_user :: "db \<Rightarrow> pystr \<Rightarrow> nat" where
  "count_claims_for_user d user_id = length (filter (\<lambda>c. clm_user_id c = user_id) (claims d))"

text \<open>The text of a match expression.\<close>

definition fts_text :: "pystr \<times> pystr list \<Rightarrow> pystr" where
  "fts_text m = ''user_tag:'' @ fst m @ '' AND payload_json:'' @
     (case snd m of [q] \<Rightarrow> q | qs \<Rightarrow> ''('' @ join '' OR '' qs @ '')'')"

definition payload_pattern :: "retrieve_env \<Rightarrow> pystr \<Rightarrow> pystr \<Rightarrow> pystr" where
  "payload_pattern env user_id needle =
    (if use_fts env needle then fts_text (fts_scoped_match user_id [fts_phrase needle]) else like_pattern needle)"

definition trace_recent :: "retrieve_env \<Rightarrow> db \<Rightarrow> pystr \<Rightarrow> pystr option \<Rightarrow> retrieval_hit list \<Rightarrow> trace_builder \<Rightarrow> trace_builder" where
  "trace_recent env d user_id session_id hits b =
    (let n = count_events_for_user d user_id; sid = resolved_session env d user_id session_id;
         b' = stage ''final'' (length hits) (length hits) (stage ''session_scope'' n (length hits)
           (stage ''user_scope'' n n (set_normalized [(''resolved_session_id'', jopt sid)] b)))
     in if sid = None \<and> session_id = None
        then note_line ''no session.start event found - fell back to newest events for user'' b' else b')"

definition trace_file :: "retrieve_env \<Rightarrow> db \<Rightarrow> pystr \<Rightarrow> pystr \<Rightarrow> retrieval_hit list \<Rightarrow> trace_builder \<Rightarrow> trace_builder" where
  "trace_file env d user_id path hits b =
    (if path = [] then stage ''input_guard'' 0 0 (note_line ''empty path - skipped by_file scan'' b)
     else let n = count_events_for_user d user_id; k = length (filter (file_event user_id) (events d)) in
       stage ''final'' (length hits) (length hits) (stage ''payload_filter'' k (length hits)
         (stage ''event_type_filter'' n k (stage ''user_scope'' n n
           (set_normalized [(''payload_pattern'', JStr (payload_pattern env user_id path)),
              (''event_types'', JList (map JStr FILE_EVENT_TYPES))] b)))))"

definition trace_decision :: "db \<Rightarrow> pystr \<Rightarrow> retrieval_hit list \<Rightarrow> trace_builder \<Rightarrow> trace_builder" where
  "trace_decision d user_id hits b =
    (let n = count_events_for_user d user_id in
     stage ''final'' (length hits) (length hits) (stage ''decision_filter'' n (length hits) (stage ''user_scope'' n n b)))"

definition trace_bug :: "retrieve_env \<Rightarrow> db \<Rightarrow> pystr \<Rightarrow> int \<Rightarrow> retrieval_hit list \<Rightarrow> trace_builder \<Rightarrow> trace_builder" where
  "trace_bug env d user_id limit hits b =
    (let n = count_events_for_user d user_id; k = count_claims_for_user d user_id;
         i = length (bug_events env d user_id limit); j = length (bug_claims d user_id limit) in
     stage ''final'' (i + j) (length hits) (stage ''spo_token_filter'' k j (stage ''user_scope_claims'' k k
       (stage ''payload_token_filter'' n i (stage ''user_scope_events'' n n
         (set_normalized [(''fix_tokens'', JList (map JStr FIX_TOKENS))] b))))))"

definition trace_entity :: "retrieve_env \<Rightarrow> db \<Rightarrow> pystr \<Rightarrow> pystr \<Rightarrow> int \<Rightarrow> retrieval_hit list \<Rightarrow> trace_builder \<Rightarrow> trace_builder" where
  "trace_entity env d user_id subject limit hits b =
    (if subject = [] then stage ''input_guard'' 0 0 (note_line ''empty subject - skipped by_entity scan'' b)
     else let n = count_events_for_user d user_id; k = count_claims_for_user d user_id;
         j = length (entity_claims d user_id subject limit); i = length (entity_events env d user_id subject limit) in
       stage ''final'' (j + i) (length hits) (stage ''payload_filter'' n i (stage ''user_scope_events'' n n
         (stage ''subject_filter'' k j (stage ''user_scope_claims'' k k
           (set_normalized [(''subject_lower'', JStr (lower subject)),
              (''prefix_like'', JStr (like_escape (lower subject) @ [CHR 0x25]))] b))))))"

definition trace_timeline :: "db \<Rightarrow> pystr \<Rightarrow> pystr \<times> pystr \<Rightarrow> retrieval_hit list \<Rightarrow> trace_builder \<Rightarrow> trace_builder" where
  "trace_timeline d user_id bounds hits b =
    (let n = count_events_for_user d user_id in
     stage ''final'' (length hits) (length hits) (stage ''time_window'' n (length hits) (stage ''user_scope'' n n
       (set_normalized [(''since_norm'', JStr (fst bounds)), (''until_norm'', JStr (snd bounds))] b))))"

text \<open>The samples that explain an empty result.\<close>

definition fmt_claim_note :: "pystr \<Rightarrow> pystr \<Rightarrow> claim_row \<Rightarrow> pystr" where
  "fmt_claim_note kind label c = ''near_miss('' @ kind @ '') '' @ label @ '': sample='' @ clm_id c @ '': '' @ spo c"

definition fmt_file_note :: "retrieve_env \<Rightarrow> pystr \<Rightarrow> event_row \<Rightarrow> pystr" where
  "fmt_file_note env label e = ''near_miss(file) '' @ label @ '': sample='' @ evt_id e @ '': '' @
     replace_char (CHR 0x0A) '' '' (take 80 (rt_payload env e))"

definition recent_claims :: "(claim_row \<Rightarrow> bool) \<Rightarrow> db \<Rightarrow> pystr \<Rightarrow> claim_row list" where
  "recent_claims sel d user_id =
    take 3 (sort_desc clm_updated_at (sort_key clm_id (filter (\<lambda>c. clm_user_id c = user_id \<and> sel c) (claims d))))"

definition near_miss_notes :: "retrieve_env \<Rightarrow> db \<Rightarrow> pystr \<Rightarrow> pystr \<Rightarrow> pystr \<Rightarrow> pystr list" where
  "near_miss_notes env d kind user_id query_text =
    (let fuzzy = sql_like (Some LIKE_ESCAPE) (like_pattern (lower query_text)) in
     if kind = ''entity'' then
       (if count_claims_for_user d user_id = 0 then [''near_miss(entity): corpus empty for user_id='' @ py_repr user_id]
        else let near = (if query_text = [] then []
               else recent_claims (\<lambda>c. fuzzy (sql_lower (clm_subject c)) \<or> fuzzy (sql_lower (clm_object c))) d user_id) in
          if near \<noteq> [] then map (fmt_claim_note ''entity'' ''fuzzy'') near
          else map (fmt_claim_note ''entity'' ''recent'') (recent_claims (\<lambda>_. True) d user_id))
     else if kind = ''file'' then
       (let near = (if query_text = [] then []
               else newest env 3 (\<lambda>e. file_event user_id e \<and> fuzzy (sql_lower (rt_payload env e))) d) in
          if near \<noteq> [] then map (fmt_file_note env ''fuzzy'') near
          else let rows = newest env 3 (file_event user_id) d in
            if rows = [] then [''near_miss(file): corpus empty for user_id='' @ py_repr user_id]
            else map (fmt_file_note env ''recent'') rows)
     else if kind = ''bug'' then
       (if count_claims_for_user d user_id = 0 then [''near_miss(bug): corpus empty for user_id='' @ py_repr user_id]
        else map (fmt_claim_note ''bug'' ''recent'') (recent_claims (\<lambda>_. True) d user_id))
     else [])"

definition RETRIEVE_KINDS :: "pystr list" where
  "RETRIEVE_KINDS = [''recent'', ''file'', ''decision'', ''bug'', ''entity'', ''timeline'']"

text \<open>The dispatch: the hits of the query and what it records.\<close>

definition dispatch :: "retrieve_env \<Rightarrow> db \<Rightarrow> trace_params \<Rightarrow> kernel_error + retrieval_hit list \<times> trace_builder" where
  "dispatch env d p =
    (let u = p_user_id p; q = p_query p; n = p_limit p; b = new_builder p in
     if p_kind p = ''recent'' then let hs = recent_context env d u None n in Inr (hs, trace_recent env d u None hs b)
     else if p_kind p = ''file'' then let hs = by_file env d u q n in Inr (hs, trace_file env d u q hs b)
     else if p_kind p = ''decision'' then let hs = by_decision env d u n in Inr (hs, trace_decision d u hs b)
     else if p_kind p = ''bug'' then let hs = by_bug_fix env d u n in Inr (hs, trace_bug env d u n hs b)
     else if p_kind p = ''entity'' then let hs = by_entity env d u q n in Inr (hs, trace_entity env d u q n hs b)
     else (case (p_since p, p_until p) of
         (Some s, Some t) \<Rightarrow> and_then (by_timeline env d u s t n) (\<lambda>hs.
           and_then (timeline_bounds env s t) (\<lambda>bounds. Inr (hs, trace_timeline d u bounds hs b)))
       | _ \<Rightarrow> Inl (ValueError ''explain_retrieve(kind='timeline'): since and until are required'')))"

definition explain_retrieve :: "retrieve_env \<Rightarrow> db \<Rightarrow> trace_params \<Rightarrow> kernel_error + retrieval_trace" where
  "explain_retrieve env d p =
    (if p_kind p \<notin> set RETRIEVE_KINDS then Inl (ValueError (''explain_retrieve: unknown kind '' @ py_repr (p_kind p)))
     else and_then (dispatch env d p) (\<lambda>(hits, b).
       Inr (freeze hits (if hits = [] \<and> p_kind p \<in> {''entity'', ''file'', ''bug''}
         then fold note_line (near_miss_notes env d (p_kind p) (p_user_id p) (p_query p)) b else b))))"

section \<open>Whose rows a query returns\<close>

definition hit_of :: "db \<Rightarrow> pystr \<Rightarrow> retrieval_hit \<Rightarrow> bool" where
  "hit_of d user_id h \<longleftrightarrow>
    (case hit_full h of
       Some (EventRow e) \<Rightarrow> e \<in> set (events d) \<and> evt_user_id e = user_id
     | Some (ClaimRow c) \<Rightarrow> c \<in> set (claims d) \<and> clm_user_id c = user_id
     | None \<Rightarrow> False) \<and>
    (case hit_title h of Title _ \<Rightarrow> True
     | Enriched t _ \<Rightarrow> \<exists>c \<in> set (claims d). clm_user_id c = user_id \<and> t = spo c)"

lemma orders_set:
  assumes "orders_rows env"
  shows "set (rt_newest_first env xs) = set xs" "set (rt_oldest_first env xs) = set xs"
  using assms unfolding orders_rows_def by (metis set_mset_mset)+

lemma newest_sub: "orders_rows env \<Longrightarrow> e \<in> set (newest env n sel d) \<Longrightarrow> e \<in> set (events d) \<and> sel e"
  using set_sql_limit [of n "rt_newest_first env (filter sel (events d))"] by (auto simp: newest_def orders_set)

lemma set_by_confidence [simp]: "set (by_confidence cs) = set cs"
  by (simp add: by_confidence_def)

lemma limited_claims: "c \<in> set (sql_limit n (by_confidence (filter P cs))) \<Longrightarrow> c \<in> set cs \<and> P c"
  using set_sql_limit [of n "by_confidence (filter P cs)"] by auto

lemma event_hit_of: "e \<in> set (events d) \<Longrightarrow> evt_user_id e = u \<Longrightarrow> hit_of d u (event_to_hit env reason comps e)"
  by (simp add: hit_of_def event_to_hit_def)

lemma claim_hit_of: "c \<in> set (claims d) \<Longrightarrow> clm_user_id c = u \<Longrightarrow> hit_of d u (claim_to_hit env reason comps c)"
  by (simp add: hit_of_def claim_to_hit_def)

lemma first_by_id_set: "set (first_by_id seen cs) \<subseteq> set cs"
  by (induction seen cs rule: first_by_id.induct) auto

lemma recent_of: "orders_rows env \<Longrightarrow> h \<in> set (recent_context env d u s n) \<Longrightarrow> hit_of d u h"
  by (auto simp: recent_context_def Let_def intro!: event_hit_of dest!: newest_sub)

lemma file_of: "orders_rows env \<Longrightarrow> h \<in> set (by_file env d u path n) \<Longrightarrow> hit_of d u h"
  by (auto simp: by_file_def file_hit_def file_event_def split: if_splits intro!: event_hit_of dest!: newest_sub)

lemma spo_fold:
  "fold (\<lambda>c m. if spo c \<noteq> [] then m(clm_id c \<mapsto> spo c) else m) cs m k = Some t \<Longrightarrow>
    m k = Some t \<or> (\<exists>c \<in> set cs. t = spo c \<and> clm_id c = k)"
proof (induction cs arbitrary: m)
  case (Cons c cs)
  from Cons.IH [of "if spo c \<noteq> [] then m(clm_id c \<mapsto> spo c) else m"] Cons.prems
  show ?case by (auto split: if_splits)
qed simp

lemma spo_by_id_of: "spo_by_id d u rows k = Some t \<Longrightarrow> \<exists>c \<in> set (claims d). clm_user_id c = u \<and> t = spo c"
  by (auto simp: spo_by_id_def Let_def split: if_splits dest!: spo_fold)

lemma enriched_hit_of:
  assumes "e \<in> set (events d)" "evt_user_id e = u" "spo_by_id d u rows k = Some t"
  shows "hit_of d u ((event_to_hit env reason comps e)\<lparr>hit_title := Enriched t x\<rparr>)"
  using assms spo_by_id_of [OF assms(3)] by (simp add: hit_of_def event_to_hit_def)

lemma decision_of:
  assumes "orders_rows env" "h \<in> set (by_decision env d u n)"
  shows "hit_of d u h"
proof -
  define rows where "rows = newest env n (decision_event u) d"
  from assms(2) obtain e where e: "e \<in> set rows"
    and h: "h = (let h = event_to_hit env ''by_decision match on event_type claim.state_changed OR decision.*''
                  [(''keyword'', 1 / 2), (''recency'', 1 / 2 * recency_score env e)] e in
          case spo_by_id d u rows (case evt_target_id e of None \<Rightarrow> [] | Some t \<Rightarrow> t) of
            None \<Rightarrow> h | Some t \<Rightarrow> h\<lparr>hit_title := Enriched t (hit_title h)\<rparr>)"
    unfolding by_decision_def Let_def rows_def by auto
  have row: "e \<in> set (events d)" "evt_user_id e = u"
    using newest_sub [OF assms(1) e [unfolded rows_def]] by (simp_all add: decision_event_def)
  show ?thesis
  proof (cases "spo_by_id d u rows (case evt_target_id e of None \<Rightarrow> [] | Some t \<Rightarrow> t)")
    case None
    then show ?thesis using event_hit_of [OF row] by (simp add: h Let_def)
  next
    case (Some t)
    then show ?thesis using enriched_hit_of [OF row Some] by (simp add: h Let_def)
  qed
qed

lemma bug_of:
  assumes "orders_rows env" "h \<in> set (by_bug_fix env d u n)"
  shows "hit_of d u h"
proof -
  have ev: "e \<in> set (events d) \<and> evt_user_id e = u" if e: "e \<in> set (bug_events env d u n)" for e
    using newest_sub [OF assms(1) e [unfolded bug_events_def]] by simp
  have cl: "c \<in> set (claims d) \<and> clm_user_id c = u" if c: "c \<in> set (first_by_id {} (bug_claims d u n))" for c
    using limited_claims [of c n] first_by_id_set [of "{}" "bug_claims d u n"] c unfolding bug_claims_def by blast
  let ?ev = "event_to_hit env ''by_bug_fix match on events.payload_json LIKE fix/bug tokens''"
  let ?cl = "claim_to_hit env ''by_bug_fix match on claims.(subject|predicate|object) LIKE fix/bug''
         [(''keyword'', 7 / 10), (''source'', 1 / 10)]"
  have "h \<in> set (map (\<lambda>e. ?ev [(''keyword'', 6 / 10), (''recency'', 4 / 10 * recency_score env e)] e) (bug_events env d u n) @
      map ?cl (first_by_id {} (bug_claims d u n)))"
    using assms(2) unfolding by_bug_fix_def by (rule py_head_mem)
  then consider e where "e \<in> set (bug_events env d u n)"
      "h = ?ev [(''keyword'', 6 / 10), (''recency'', 4 / 10 * recency_score env e)] e"
    | c where "c \<in> set (first_by_id {} (bug_claims d u n))" "h = ?cl c" by auto
  then show ?thesis
  proof cases
    case 1
    then show ?thesis using ev by (blast intro: event_hit_of)
  next
    case 2
    then show ?thesis using cl by (blast intro: claim_hit_of)
  qed
qed

lemma timeline_of:
  assumes "orders_rows env" "by_timeline env d u s t n = Inr hs" "h \<in> set hs"
  shows "hit_of d u h"
proof -
  from assms(2) obtain b where hs: "hs = map (timeline_hit env s t) (timeline_rows env d u (fst b) (snd b) n)"
    unfolding by_timeline_def by (auto simp: and_then_Inr)
  with assms(3) obtain e where e: "e \<in> set (timeline_rows env d u (fst b) (snd b) n)" and h: "h = timeline_hit env s t e" by auto
  from subsetD [OF set_sql_limit, OF e [unfolded timeline_rows_def]] have "e \<in> set (events d) \<and> evt_user_id e = u"
    by (simp add: orders_set [OF assms(1)])
  then show ?thesis unfolding h timeline_hit_def by (blast intro: event_hit_of)
qed

lemma entity_of:
  assumes "orders_rows env" "h \<in> set (by_entity env d u subject n)"
  shows "hit_of d u h"
proof -
  have "h \<in> set (map (entity_claim_hit env subject) (entity_claims d u subject n) @
        map (entity_event_hit env subject) (entity_events env d u subject n))"
    using assms(2) unfolding by_entity_def
    by (cases "subject = []") (simp, simp only: if_False, rule py_head_mem)
  then consider c where "c \<in> set (entity_claims d u subject n)" "h = entity_claim_hit env subject c"
    | e where "e \<in> set (entity_events env d u subject n)" "h = entity_event_hit env subject e" by auto
  then show ?thesis
  proof cases
    case 1
    then show ?thesis using limited_claims [of c n] unfolding entity_claims_def entity_claim_hit_def Let_def
      by (blast intro: claim_hit_of)
  next
    case 2
    then show ?thesis using newest_sub [OF assms(1)] unfolding entity_events_def entity_event_hit_def
      by (blast intro: event_hit_of)
  qed
qed

lemma if_chain:
  "(if a then Inr (A, A') else if b then Inr (B, B') else if c then Inr (C, C') else if k then Inr (D, D')
    else if f then Inr (E, E') else F) = Inr (hs, x) \<Longrightarrow>
    hs = A \<or> hs = B \<or> hs = C \<or> hs = D \<or> hs = E \<or> F = Inr (hs, x)"
  by (simp split: if_split_asm)

lemma dispatch_of:
  assumes "orders_rows env" "dispatch env d p = Inr (hs, b)" "h \<in> set hs"
  shows "hit_of d (p_user_id p) h"
proof -
  let ?u = "p_user_id p"
  have timeline: "\<exists>s t. by_timeline env d ?u s t (p_limit p) = Inr hs"
    if "(case (p_since p, p_until p) of (Some s, Some t) \<Rightarrow> and_then (by_timeline env d ?u s t (p_limit p)) (\<lambda>hs.
           and_then (timeline_bounds env s t) (\<lambda>bounds. Inr (hs, trace_timeline d ?u bounds hs (new_builder p))))
       | _ \<Rightarrow> Inl e) = Inr (hs, b)" for e
    using that by (cases "p_since p"; cases "p_until p") (auto simp: and_then_Inr)
  have rec: "hs = recent_context env d ?u None (p_limit p) \<Longrightarrow> ?thesis"
    using recent_of [OF assms(1), of h d ?u None "p_limit p"] assms(3) by (simp only:)
  have fil: "hs = by_file env d ?u (p_query p) (p_limit p) \<Longrightarrow> ?thesis"
    using file_of [OF assms(1), of h d ?u "p_query p" "p_limit p"] assms(3) by (simp only:)
  have dcs: "hs = by_decision env d ?u (p_limit p) \<Longrightarrow> ?thesis"
    using decision_of [OF assms(1), of h d ?u "p_limit p"] assms(3) by (simp only:)
  have bug: "hs = by_bug_fix env d ?u (p_limit p) \<Longrightarrow> ?thesis"
    using bug_of [OF assms(1), of h d ?u "p_limit p"] assms(3) by (simp only:)
  have ent: "hs = by_entity env d ?u (p_query p) (p_limit p) \<Longrightarrow> ?thesis"
    using entity_of [OF assms(1), of h d ?u "p_query p" "p_limit p"] assms(3) by (simp only:)
  have tim: "\<exists>s t. by_timeline env d ?u s t (p_limit p) = Inr hs \<Longrightarrow> ?thesis"
    using timeline_of [OF assms(1) _ assms(3)] by blast
  from if_chain [OF assms(2) [unfolded dispatch_def Let_def]] show ?thesis
    by (elim disjE) ((erule rec fil dcs bug ent)+, rule tim, erule timeline)
qed

lemma explain_cases:
  assumes "explain_retrieve env d p = Inr tr"
  obtains hs b where "dispatch env d p = Inr (hs, b)" "tr_hits tr = hs" "p_kind p \<in> set RETRIEVE_KINDS"
    "tb_notes tr = tb_notes b @ (if hs = [] \<and> p_kind p \<in> {''entity'', ''file'', ''bug''}
       then near_miss_notes env d (p_kind p) (p_user_id p) (p_query p) else [])"
proof -
  have noted: "tb_notes (fold note_line ns b) = tb_notes b @ ns" for ns b
    by (induction ns arbitrary: b) (simp_all add: note_line_def)
  from assms obtain hs b where d: "dispatch env d p = Inr (hs, b)" and k: "p_kind p \<in> set RETRIEVE_KINDS"
    and tr: "tr = freeze hs (if hs = [] \<and> p_kind p \<in> {''entity'', ''file'', ''bug''}
         then fold note_line (near_miss_notes env d (p_kind p) (p_user_id p) (p_query p)) b else b)"
    unfolding explain_retrieve_def by (auto simp: and_then_Inr split: if_splits)
  show ?thesis
  proof (rule that [OF d _ k])
    show "tr_hits tr = hs" by (simp add: tr freeze_def trace_builder.defs)
    show "tb_notes tr = tb_notes b @ (if hs = [] \<and> p_kind p \<in> {''entity'', ''file'', ''bug''}
       then near_miss_notes env d (p_kind p) (p_user_id p) (p_query p) else [])"
      by (auto simp: tr freeze_def trace_builder.defs noted)
  qed
qed

end
