(* ===== verification/Retrieval_Laws.thy ===== *)
theory Retrieval_Laws
  imports Retrieval_Queries
begin

text \<open>
  What the retrieval queries promise: the rows of one user, a literal and case-insensitive payload search whatever
  engine runs it, an exact time window, a bounded and ranked result, and a note for every empty one.
\<close>

section \<open>A concrete environment\<close>

definition demo_retrieve_env :: "bool \<Rightarrow> retrieve_env" where
  "demo_retrieve_env fts = \<lparr>rt_now = (\<lambda>_. 0), rt_payload = (\<lambda>e. ''{\"file\": \"src/'' @ evt_id e @ ''.py\"}''), rt_fts = fts,
     rt_newest_first = sort_desc evt_created_at, rt_oldest_first = sort_key evt_created_at,
     rt_other = (\<lambda>_. None), rt_other_date = (\<lambda>_. False), rt_float = (\<lambda>_. ''0.5'')\<rparr>"

definition demo_edit :: "pystr \<Rightarrow> pystr \<Rightarrow> pystr \<Rightarrow> event_row" where
  "demo_edit i u stamp = \<lparr>evt_id = i, evt_user_id = u, evt_actor = ''a'', evt_type = ''tool.edit'', evt_target_kind = None,
     evt_target_id = None, evt_payload_json = JEmpty, evt_approval_tier = None, evt_created_at = stamp, evt_session_id = None\<rparr>"

definition demo_subject :: "pystr \<Rightarrow> pystr \<Rightarrow> rat \<Rightarrow> claim_row" where
  "demo_subject i s q = \<lparr>clm_id = i, clm_user_id = ''u'', clm_subject = s, clm_predicate = ''is'', clm_object = ''ok'',
     clm_source_id = ''s'', clm_content_hash = i, clm_confidence = Some q, clm_state = ''confirmed'',
     clm_created_at = ''t'', clm_updated_at = ''t''\<rparr>"

lemma mset_sort_desc [simp]: "mset (sort_desc key xs) = mset xs"
  by (simp add: sort_desc_def)

lemma demo_orders: "orders_rows (demo_retrieve_env b)"
  using sorted_sort_key by (auto simp: orders_rows_def demo_retrieve_env_def sorted_sort_desc sorted_map)

section \<open>Isolation\<close>

text \<open>Every hit of \<^verbatim>\<open>explain_retrieve\<close>, of any kind and on any table contents, shows a stored event or claim of the user who
  asked, and the claim text that a decision hit has in its title comes from a claim of that user too.\<close>

theorem hits_of_user:
  assumes "orders_rows env" "explain_retrieve env d p = Inr tr" "h \<in> set (tr_hits tr)"
  shows "hit_of d (p_user_id p) h"
proof (rule explain_cases [OF assms(2)])
  fix hs b
  assume "dispatch env d p = Inr (hs, b)" "tr_hits tr = hs"
  with assms(3) show ?thesis using dispatch_of [OF assms(1)] by simp
qed

definition demo_file_params :: trace_params where
  "demo_file_params = \<lparr>p_kind = ''file'', p_user_id = ''u'', p_query = ''SRC/A'', p_limit = 10, p_since = None, p_until = None\<rparr>"

definition demo_edits :: db where
  "demo_edits = empty_db\<lparr>events := [demo_edit ''a1'' ''u'' ''t'', demo_edit ''a2'' ''v'' ''t'']\<rparr>"

lemma demo_like: "sql_like (Some LIKE_ESCAPE) (like_pattern ''SRC/A'') ''{\"file\": \"src/a1.py\"}''"
  by code_simp

lemma demo_newest: "newest (demo_retrieve_env False) 10 (\<lambda>e. file_event ''u'' e \<and> payload_matches (demo_retrieve_env False) ''u'' ''SRC/A'' e) demo_edits =
    [demo_edit ''a1'' ''u'' ''t'']"
  using demo_like by (simp add: newest_def demo_edits_def demo_edit_def file_event_def FILE_EVENT_TYPES_def payload_matches_def
      use_fts_def demo_retrieve_env_def sort_desc_def sql_limit_def)

lemma demo_explain: "\<exists>tr. explain_retrieve (demo_retrieve_env False) demo_edits demo_file_params = Inr tr \<and>
    tr_hits tr = [file_hit (demo_retrieve_env False) ''SRC/A'' (demo_edit ''a1'' ''u'' ''t'')]"
  by (simp add: explain_retrieve_def dispatch_def by_file_def demo_newest demo_file_params_def RETRIEVE_KINDS_def Let_def
      freeze_def trace_builder.defs)

lemma hits_of_user_witness:
  "\<exists>tr h. explain_retrieve (demo_retrieve_env False) demo_edits demo_file_params = Inr tr \<and> h \<in> set (tr_hits tr) \<and> hit_of demo_edits ''u'' h"
proof -
  obtain tr h where tr: "explain_retrieve (demo_retrieve_env False) demo_edits demo_file_params = Inr tr" "tr_hits tr = [h]"
    using demo_explain by blast
  from hits_of_user [OF demo_orders tr(1), of h] tr show ?thesis by (auto simp: demo_file_params_def)
qed

section \<open>The payload search\<close>

lemma payload_matches_own:
  assumes "ascii needle" "ascii (rt_payload env e)" "evt_user_id e = u"
  shows "payload_matches env u needle e = contains (lower needle) (lower (rt_payload env e))"
  using assms engines_agree [OF assms(1,2), of u] like_substring [of needle "rt_payload env e"]
  unfolding payload_matches_def like_pattern_def by (simp only: ascii_fold) simp



text \<open>A subject with a character outside ASCII is never found in the payload of an event: the stored text is what
  \<^verbatim>\<open>json.dumps\<close> writes, which is ASCII, while the search is for the character itself. All hits of \<^verbatim>\<open>by_entity\<close> are then claims.\<close>

theorem non_ascii_subject_misses_events:
  assumes "orders_rows env" "\<forall>e \<in> set (events d). ascii (rt_payload env e)" "\<not> ascii subject"
    "h \<in> set (by_entity env d u subject limit)"
  shows "entity_kind h = ''claim''"
proof -
  have high: "\<not> ascii s \<Longrightarrow> ascii t \<Longrightarrow> contains (map f s) (map g t) \<Longrightarrow>
      (\<And>c. (128 \<le> (of_char c :: nat)) \<Longrightarrow> 128 \<le> (of_char (f c) :: nat)) \<Longrightarrow>
      (\<And>c. (of_char c :: nat) < 128 \<Longrightarrow> (of_char (g c) :: nat) < 128) \<Longrightarrow> False" for s t :: pystr and f g
  proof -
    assume a: "\<not> ascii s" "ascii t" "contains (map f s) (map g t)"
      and f: "\<And>c. (128 \<le> (of_char c :: nat)) \<Longrightarrow> 128 \<le> (of_char (f c) :: nat)"
      and g: "\<And>c. (of_char c :: nat) < 128 \<Longrightarrow> (of_char (g c) :: nat) < 128"
    from a(1) obtain c where c: "c \<in> set s" "128 \<le> (of_char c :: nat)" by (auto simp: ascii_def not_less)
    with contains_set [OF a(3)] obtain x where "x \<in> set t" "f c = g x" by auto
    then show False using f [OF c(2)] g [of x] a(2) by (auto simp: ascii_def)
  qed
  have low: "(of_char (ascii_lower_char c) :: nat) < 128 \<longleftrightarrow> (of_char c :: nat) < 128" for c
    by (simp add: ascii_lower_char_def Let_def)
  have fold: "128 \<le> (of_char c :: nat) \<Longrightarrow> 128 \<le> (of_char (lower_char c) :: nat)" "(of_char c :: nat) < 128 \<Longrightarrow> (of_char (lower_char c) :: nat) < 128" for c
    by (simp_all add: lower_char_def Let_def)
  have none: "\<not> payload_matches env u subject e" if e: "e \<in> set (events d)" "evt_user_id e = u" for e
  proof -
    have p: "ascii (rt_payload env e)" using assms(2) e by simp
    have "\<not> contains (sql_lower subject) (sql_lower (rt_payload env e))" "\<not> contains (lower subject) (lower (rt_payload env e))"
      using high [OF assms(3) p] low fold by (auto simp: sql_lower_def lower_def not_less [symmetric])
    then show ?thesis
      using fts_match_own [of u "[subject]" "rt_payload env e"] e(2) like_substring [of subject "rt_payload env e"]
      unfolding payload_matches_def like_pattern_def by simp
  qed
  have "entity_events env d u subject limit = []"
  proof -
    have "e \<notin> set (entity_events env d u subject limit)" for e
      unfolding entity_events_def using newest_sub [OF assms(1), of e limit _ d] none by blast
    then show ?thesis by (metis list.set_intros(1) neq_Nil_conv)
  qed
  then have "h \<in> set (py_head limit (sort_desc score (map (entity_claim_hit env subject) (entity_claims d u subject limit))))"
    using assms(4) unfolding by_entity_def by (cases "subject = []") simp_all
  then have "h \<in> set (map (entity_claim_hit env subject) (entity_claims d u subject limit))" by (rule py_head_mem)
  then show ?thesis by (auto simp: entity_claim_hit_def claim_to_hit_def Let_def)
qed

lemma non_ascii_subject_misses_events_witness:
  "\<forall>h \<in> set (by_entity (demo_retrieve_env False) (demo_edits\<lparr>claims := [demo_subject ''c'' [CHR 0xE9] 1]\<rparr>) ''u'' [CHR 0xE9] 5). entity_kind h = ''claim''"
  by (intro ballI, rule non_ascii_subject_misses_events [OF demo_orders [of False]])
    (simp_all add: ascii_def demo_edits_def demo_retrieve_env_def demo_edit_def)

section \<open>The time window\<close>

text \<open>The last instant of a second is in the calendar when the second is.\<close>

lemma iso_us_same_day:
  assumes "iso_us t \<noteq> None" "t div DAY_US = r div DAY_US"
  shows "iso_us r \<noteq> None"
  using assms by (auto simp: iso_us_def DAY_US_def Let_def split: option.splits if_splits)

lemma bound_in_calendar:
  assumes "iso_us t = Some s"
  shows "\<exists>x. iso_us (bound_instant env kind ts t) = Some x"
proof -
  have sec: "(t + 999999) div DAY_US = t div DAY_US" if z: "t mod SECOND_US = 0"
  proof -
    obtain k where "t = SECOND_US * k" using z by (metis add.right_neutral mult_div_mod_eq)
    then show ?thesis by (simp add: SECOND_US_def DAY_US_def)
  qed
  have "(t div DAY_US * DAY_US + (DAY_US - 1)) div DAY_US = t div DAY_US" by (simp add: DAY_US_def)
  then have "t div DAY_US = bound_instant env kind ts t div DAY_US"
    using sec by (simp add: bound_instant_def)
  with iso_us_same_day [of t "bound_instant env kind ts t"] assms show ?thesis by (cases "iso_us (bound_instant env kind ts t)") auto
qed



section \<open>Ranking\<close>

lemma entity_scores:
  "1 / 2 \<le> score (entity_claim_hit env subject c)" "score (entity_claim_hit env subject c) \<le> 11 / 10"
  "1 / 2 \<le> score (entity_event_hit env subject e)" "score (entity_event_hit env subject e) \<le> 11 / 10"
proof -
  let ?c = "[(''keyword'', if clm_subject c = subject then 1 else 6 / 10), (''source'', 1 / 10)] :: (pystr \<times> rat) list"
  let ?e = "[(''keyword'', 1 / 2), (''recency'', 3 / 10 * recency_score env e)] :: (pystr \<times> rat) list"
  show "1 / 2 \<le> score (entity_claim_hit env subject c)" "score (entity_claim_hit env subject c) \<le> 11 / 10"
    using component_score_range [of 500000 ?c 1100000] by (simp_all add: entity_claim_hit_def claim_to_hit_def Let_def)
  show "1 / 2 \<le> score (entity_event_hit env subject e)" "score (entity_event_hit env subject e) \<le> 11 / 10"
    using component_score_range [of 500000 ?e 1100000] recency_bounds [of env e]
    by (simp_all add: entity_event_hit_def event_to_hit_def)
qed

text \<open>\<^verbatim>\<open>by_entity\<close> never returns more than \<^verbatim>\<open>limit\<close> hits, they are in descending order of score, and every score lies
  between 0.5 and 1.1.\<close>

theorem entity_hits_ranked:
  assumes "0 \<le> limit"
  shows "length (by_entity env d u subject limit) \<le> nat limit \<and>
    sorted_wrt (\<lambda>x y. score y \<le> score x) (by_entity env d u subject limit) \<and>
    (\<forall>h \<in> set (by_entity env d u subject limit). 1 / 2 \<le> score h \<and> score h \<le> 11 / 10)"
proof (cases "subject = []")
  case False
  let ?hs = "map (entity_claim_hit env subject) (entity_claims d u subject limit) @
        map (entity_event_hit env subject) (entity_events env d u subject limit)"
  have eq: "by_entity env d u subject limit = py_head limit (sort_desc score ?hs)" using False by (simp add: by_entity_def)
  have "1 / 2 \<le> score h \<and> score h \<le> 11 / 10" if h: "h \<in> set (py_head limit (sort_desc score ?hs))" for h
    using py_head_mem [OF h] entity_scores by auto
  then show ?thesis unfolding eq
    using length_py_head [OF assms, of "sort_desc score ?hs"] sorted_py_head [OF sorted_sort_desc [of score ?hs], of limit] by blast
qed (simp add: by_entity_def)

lemma entity_hits_ranked_witness:
  "length (by_entity (demo_retrieve_env False) (empty_db\<lparr>claims := [demo_subject ''c1'' ''ann'' (1 / 2), demo_subject ''c2'' ''anna'' (9 / 10)]\<rparr>) ''u'' ''ann'' 1) \<le> nat 1"
  using entity_hits_ranked [of 1 "demo_retrieve_env False"] by simp

section \<open>Empty results\<close>

definition searched_rows :: "db \<Rightarrow> pystr \<Rightarrow> pystr \<Rightarrow> nat" where
  "searched_rows d u kind = (if kind = ''file'' then length (filter (file_event u) (events d)) else count_claims_for_user d u)"

definition empty_note :: "pystr \<Rightarrow> pystr \<Rightarrow> pystr" where
  "empty_note kind u = ''near_miss('' @ kind @ ''): corpus empty for user_id='' @ py_repr u"

lemma sample_notes:
  "fmt_claim_note kind label c \<noteq> empty_note kind u" "fmt_file_note env label e \<noteq> empty_note ''file'' u"
  by (simp_all add: fmt_claim_note_def fmt_file_note_def empty_note_def)

lemma sort_desc_empty: "sort_desc key xs = [] \<longleftrightarrow> xs = []"
  by (metis length_0_conv length_sort_desc)

lemma sort_key_empty: "sort_key key xs = [] \<longleftrightarrow> xs = []"
  by (metis length_0_conv length_sort)

lemma recent_claims_empty: "recent_claims (\<lambda>_. True) d u = [] \<longleftrightarrow> count_claims_for_user d u = 0"
  by (simp add: recent_claims_def count_claims_for_user_def sort_desc_empty sort_key_empty)

lemma newest_files_empty:
  assumes "orders_rows env"
  shows "newest env 3 (file_event u) d = [] \<longleftrightarrow> length (filter (file_event u) (events d)) = 0"
proof -
  have "length (rt_newest_first env xs) = length xs" for xs
    using assms unfolding orders_rows_def by (metis size_mset)
  then show ?thesis by (simp add: newest_def sql_limit_def) (metis length_0_conv)
qed

lemma sampled:
  assumes "rows = [] \<longleftrightarrow> n = 0" "near \<noteq> [] \<Longrightarrow> n \<noteq> 0" "\<And>x. f x \<noteq> e" "\<And>x. g x \<noteq> e"
    "ns = (if n = 0 then [e] else if near \<noteq> [] then map f near else map g rows) \<or>
     ns = (if near \<noteq> [] then map f near else if rows = [] then [e] else map g rows)"
  shows "ns \<noteq> [] \<and> (e \<in> set ns \<longleftrightarrow> n = (0::nat))"
  using assms by (cases "n = 0"; cases "near = []") auto

lemma near_miss_facts:
  assumes "orders_rows env" "kind \<in> {''entity'', ''file'', ''bug''}"
  shows "near_miss_notes env d kind u q \<noteq> [] \<and> (empty_note kind u \<in> set (near_miss_notes env d kind u q) \<longleftrightarrow> searched_rows d u kind = 0)"
proof -
  let ?fuzzy = "sql_like (Some LIKE_ESCAPE) (like_pattern (lower q))"
  let ?near = "if q = [] then [] else recent_claims (\<lambda>c. ?fuzzy (sql_lower (clm_subject c)) \<or> ?fuzzy (sql_lower (clm_object c))) d u"
  let ?files = "if q = [] then [] else newest env 3 (\<lambda>e. file_event u e \<and> ?fuzzy (sql_lower (rt_payload env e))) d"
  let ?n = "count_claims_for_user d u" and ?k = "length (filter (file_event u) (events d))"
  have some: "?n \<noteq> 0" if "?near \<noteq> []"
    using that by (auto simp: recent_claims_def count_claims_for_user_def sort_desc_empty sort_key_empty filter_empty_conv split: if_splits)
  have fil: "?k \<noteq> 0" if f: "?files \<noteq> []"
  proof -
    obtain e where "e \<in> set (newest env 3 (\<lambda>e. file_event u e \<and> ?fuzzy (sql_lower (rt_payload env e))) d)"
      using f by (metis list.set_intros(1) neq_Nil_conv)
    from newest_sub [OF assms(1) this] show ?thesis by (auto simp: filter_empty_conv)
  qed
  consider "kind = ''entity''" | "kind = ''file''" | "kind = ''bug''" using assms(2) by auto
  then show ?thesis
  proof cases
    case 1
    have n: "near_miss_notes env d kind u q = (if ?n = 0 then [empty_note kind u]
        else if ?near \<noteq> [] then map (fmt_claim_note kind ''fuzzy'') ?near else map (fmt_claim_note kind ''recent'') (recent_claims (\<lambda>_. True) d u))"
      unfolding near_miss_notes_def Let_def 1 by (simp add: empty_note_def)
    have s: "searched_rows d u kind = ?n" by (simp add: searched_rows_def 1)
    show ?thesis unfolding s
      by (rule sampled [OF recent_claims_empty some sample_notes(1) sample_notes(1) disjI1 [OF n]])
  next
    case 2
    have n: "near_miss_notes env d kind u q = (if ?files \<noteq> [] then map (fmt_file_note env ''fuzzy'') ?files
        else if newest env 3 (file_event u) d = [] then [empty_note ''file'' u] else map (fmt_file_note env ''recent'') (newest env 3 (file_event u) d))"
      unfolding near_miss_notes_def Let_def 2 by (simp add: empty_note_def)
    have s: "searched_rows d u kind = ?k" "empty_note kind u = empty_note ''file'' u" by (simp_all add: searched_rows_def 2)
    show ?thesis unfolding s
      by (rule sampled [OF newest_files_empty [OF assms(1)] fil sample_notes(2) sample_notes(2) disjI2 [OF n]])
  next
    case 3
    have n: "near_miss_notes env d kind u q = (if ?n = 0 then [empty_note kind u]
        else if ([] :: claim_row list) \<noteq> [] then map (fmt_claim_note kind ''fuzzy'') [] else map (fmt_claim_note kind ''recent'') (recent_claims (\<lambda>_. True) d u))"
      unfolding near_miss_notes_def Let_def 3 by (simp add: empty_note_def)
    have s: "searched_rows d u kind = ?n" by (simp add: searched_rows_def 3)
    show ?thesis unfolding s
      by (rule sampled [OF recent_claims_empty _ sample_notes(1) sample_notes(1) disjI1 [OF n]]) simp
  qed
qed

text \<open>What a query itself notes: nothing but the guard for an empty text.\<close>

lemma stage_notes [simp]:
  "tb_notes (stage s i j b) = tb_notes b" "tb_notes (set_normalized kvs b) = tb_notes b" "tb_notes (new_builder p) = []"
  by (simp_all add: stage_def set_normalized_def new_builder_def)

lemma dispatch_notes:
  assumes "dispatch env d p = Inr (hs, b)" "p_kind p \<in> {''entity'', ''file'', ''bug''}"
  shows "tb_notes b \<in> {[], [''empty path - skipped by_file scan''], [''empty subject - skipped by_entity scan'']}"
proof -
  consider "p_kind p = ''entity''" | "p_kind p = ''file''" | "p_kind p = ''bug''" using assms(2) by auto
  then show ?thesis
  proof cases
    case 1
    with assms(1) have "b = trace_entity env d (p_user_id p) (p_query p) (p_limit p) hs (new_builder p)"
      by (simp add: dispatch_def Let_def) blast
    then show ?thesis by (cases "p_query p = []") (simp_all add: trace_entity_def Let_def note_line_def)
  next
    case 2
    with assms(1) have "b = trace_file env d (p_user_id p) (p_query p) hs (new_builder p)"
      by (simp add: dispatch_def Let_def) blast
    then show ?thesis by (cases "p_query p = []") (simp_all add: trace_file_def Let_def note_line_def)
  next
    case 3
    with assms(1) have "b = trace_bug env d (p_user_id p) (p_limit p) hs (new_builder p)"
      by (simp add: dispatch_def Let_def) blast
    then show ?thesis by (simp add: trace_bug_def Let_def)
  qed
qed

text \<open>A file, entity or bug query without hits always carries a note, and the note that the corpus is empty appears exactly when
  the user has no row of the kind the query searches.\<close>

theorem empty_result_explained:
  assumes "orders_rows env" "explain_retrieve env d p = Inr tr" "tr_hits tr = []" "p_kind p \<in> {''entity'', ''file'', ''bug''}"
  shows "tb_notes tr \<noteq> [] \<and>
    (empty_note (p_kind p) (p_user_id p) \<in> set (tb_notes tr) \<longleftrightarrow> searched_rows d (p_user_id p) (p_kind p) = 0)"
proof (rule explain_cases [OF assms(2)])
  fix hs b
  assume d: "dispatch env d p = Inr (hs, b)" "tr_hits tr = hs"
    and n: "tb_notes tr = tb_notes b @ (if hs = [] \<and> p_kind p \<in> {''entity'', ''file'', ''bug''}
       then near_miss_notes env d (p_kind p) (p_user_id p) (p_query p) else [])"
  have guard: "empty_note (p_kind p) (p_user_id p) \<notin> set (tb_notes b)"
    using dispatch_notes [OF d(1) assms(4)] by (auto simp: empty_note_def)
  have "tb_notes tr = tb_notes b @ near_miss_notes env d (p_kind p) (p_user_id p) (p_query p)"
    unfolding n using assms(3,4) d(2) by (simp only: simp_thms if_True)
  then show ?thesis
    using near_miss_facts [OF assms(1,4), of d "p_user_id p" "p_query p"] guard by auto
qed

lemma empty_result_explained_witness:
  "\<exists>tr. explain_retrieve (demo_retrieve_env False) empty_db demo_file_params = Inr tr \<and> empty_note ''file'' ''u'' \<in> set (tb_notes tr)"
proof -
  have kind: "p_kind demo_file_params = ''file''" "p_user_id demo_file_params = ''u''" by (simp_all add: demo_file_params_def)
  have n: "by_file (demo_retrieve_env False) empty_db u q l = []" for u q l
    by (simp add: by_file_def newest_def empty_db_def demo_retrieve_env_def sort_desc_def sql_limit_def)
  obtain tr where tr: "explain_retrieve (demo_retrieve_env False) empty_db demo_file_params = Inr tr" "tr_hits tr = []"
    by (simp add: explain_retrieve_def dispatch_def kind RETRIEVE_KINDS_def Let_def n freeze_def trace_builder.defs)
  have "searched_rows empty_db ''u'' ''file'' = 0" by (simp add: searched_rows_def empty_db_def)
  with empty_result_explained [OF demo_orders tr] tr(1) show ?thesis by (auto simp: kind)
qed

section \<open>What the limit costs\<close>

definition ann :: claim_row where
  "ann = demo_subject ''c1'' ''ann'' (1 / 2)"

definition anna :: claim_row where
  "anna = demo_subject ''c2'' ''anna'' (9 / 10)"

text \<open>The limit cuts the claims by confidence before they are scored, so \<^verbatim>\<open>by_entity\<close> can leave out its best hit: asked for one
  claim about \<open>ann\<close> it returns the more confident claim about \<open>anna\<close>, asked for two it ranks the exact match first.\<close>

theorem limit_drops_exact_match:
  "map hit_full (by_entity (demo_retrieve_env False) (empty_db\<lparr>claims := [ann, anna]\<rparr>) ''u'' ''ann'' 1) = [Some (ClaimRow anna)] \<and>
   map hit_full (by_entity (demo_retrieve_env False) (empty_db\<lparr>claims := [ann, anna]\<rparr>) ''u'' ''ann'' 2) = [Some (ClaimRow ann), Some (ClaimRow anna)]"
proof -
  let ?v = "demo_retrieve_env False" and ?d = "empty_db\<lparr>claims := [ann, anna]\<rparr>"
  have m: "subject_matches ''ann'' ann" "subject_matches ''ann'' anna" by code_simp+
  have sorted: "by_confidence [ann, anna] = [anna, ann]" by code_simp
  have c: "entity_claims ?d ''u'' ''ann'' n = sql_limit n [anna, ann]" for n
    using m by (simp add: entity_claims_def sorted) (simp add: ann_def anna_def demo_subject_def sorted [unfolded ann_def anna_def demo_subject_def])
  have e: "entity_events ?v ?d ''u'' ''ann'' n = []" for n
    by (simp add: entity_events_def newest_def empty_db_def demo_retrieve_env_def sort_desc_def sql_limit_def)
  have s: "score (entity_claim_hit ?v ''ann'' ann) = 11 / 10" "score (entity_claim_hit ?v ''ann'' anna) = 7 / 10"
    by code_simp+
  have f: "hit_full (entity_claim_hit ?v ''ann'' x) = Some (ClaimRow x)" for x
    by (simp add: entity_claim_hit_def claim_to_hit_def Let_def)
  show ?thesis
    by (simp add: by_entity_def c e sql_limit_def py_head_def sort_desc_def s f)
qed

end
