(* ===== verification/Memory_Router.thy ===== *)
theory Memory_Router
  imports Retrieval_Laws Shadow Ingest_Effects Query_Types
begin

text \<open>
  \<^verbatim>\<open>router/real_adapter.py\<close> and \<^verbatim>\<open>router/normalize.py\<close>: the adapter that answers a routed query from the retrieval
  functions and ingests a payload whose fields have several names. A payload is the JSON object of a request. The texts of
  the model have no surrogates, so the encoding check of \<^verbatim>\<open>_first_non_empty\<close> always passes.
\<close>

section \<open>Normalisation\<close>

text \<open>\<open>None\<close> as default is the required form; \<open>Some d\<close> returns \<open>d\<close> when no key resolves.\<close>

fun first_non_empty :: "row \<Rightarrow> pystr list \<Rightarrow> pystr \<Rightarrow> pystr option option \<Rightarrow> kernel_error + pystr option" where
  "first_non_empty payload [] field dflt =
    (case dflt of None \<Rightarrow> Inl (ValueError (field @ '': required field missing'')) | Some d \<Rightarrow> Inr d)"
| "first_non_empty payload (key # keys) field dflt =
    (case map_of payload key of
       None \<Rightarrow> first_non_empty payload keys field dflt
     | Some JNull \<Rightarrow> first_non_empty payload keys field dflt
     | Some (JStr s) \<Rightarrow> if s = [] then first_non_empty payload keys field dflt else Inr (Some s)
     | Some _ \<Rightarrow> Inl (ValueError (field @ '': alias '' @ py_repr key @ '' resolved to non-str value'')))"

definition required_text :: "row \<Rightarrow> pystr list \<Rightarrow> pystr \<Rightarrow> kernel_error + pystr" where
  "required_text payload keys field = and_then (first_non_empty payload keys field None)
     (\<lambda>v. case v of None \<Rightarrow> Inl TypeError | Some s \<Rightarrow> Inr s)"

definition coerce_optional_float :: "json \<Rightarrow> pystr \<Rightarrow> kernel_error + rat option" where
  "coerce_optional_float v field = (case v of
     JNull \<Rightarrow> Inr None
   | JBool _ \<Rightarrow> Inl (ValueError (field @ '': bool not accepted; use float or None''))
   | JInt _ \<Rightarrow> and_then (as_float v) (\<lambda>q. Inr (Some q))
   | JNum q \<Rightarrow> Inr (Some q)
   | _ \<Rightarrow> Inl (ValueError (field @ '': expected float|int|None'')))"

definition MEMORY_BODY_KEYS :: "pystr list" where
  "MEMORY_BODY_KEYS = [''body'', ''object_'', ''object'', ''payload_text'', ''text'', ''summary'', ''description'']"

definition MEMORY_TITLE_KEYS :: "pystr list" where
  "MEMORY_TITLE_KEYS = [''title'', ''name'']"

definition CLAIM_OBJECT_KEYS :: "pystr list" where
  "CLAIM_OBJECT_KEYS = [''object_'', ''object'', ''body'', ''payload_text'', ''text'', ''summary'']"

definition CLAIM_SUBJECT_KEYS :: "pystr list" where
  "CLAIM_SUBJECT_KEYS = [''subject'', ''entity'', ''name'']"

definition CLAIM_PREDICATE_KEYS :: "pystr list" where
  "CLAIM_PREDICATE_KEYS = [''predicate'', ''event_type'']"

section \<open>Queries\<close>

text \<open>The rows as the dictionaries a hit carries; only text columns are ever looked up.\<close>

definition claim_dict :: "claim_row \<Rightarrow> row" where
  "claim_dict c = [(''claim_id'', JStr (clm_id c)), (''user_id'', JStr (clm_user_id c)), (''subject'', JStr (clm_subject c)),
     (''predicate'', JStr (clm_predicate c)), (''object'', JStr (clm_object c)), (''source_id'', JStr (clm_source_id c)),
     (''content_hash'', JStr (clm_content_hash c)), (''confidence'', case clm_confidence c of None \<Rightarrow> JNull | Some q \<Rightarrow> JNum q),
     (''state'', JStr (clm_state c)), (''created_at'', JStr (clm_created_at c)), (''updated_at'', JStr (clm_updated_at c))]"

text \<open>The sources of a body that are mappings: the row of the hit, never its evidence, which is a text.\<close>

definition derive_body :: "retrieval_hit \<Rightarrow> hit_title" where
  "derive_body h =
    (if entity_kind h = ''claim'' then
       (case hit_full h of
          Some (ClaimRow c) \<Rightarrow> (case first_non_empty (claim_dict c) CLAIM_OBJECT_KEYS ''claim.body'' (Some None) of
            Inr (Some s) \<Rightarrow> Title s | _ \<Rightarrow> hit_title h)
        | _ \<Rightarrow> hit_title h)
     else hit_title h)"

record router_hit =
  rh_id :: pystr
  rh_text :: hit_title
  rh_body :: hit_title
  rh_created_at :: pystr
  rh_source_id :: pystr
  rh_kind :: pystr
  rh_score :: rat
  rh_evidence :: "pystr option"
  rh_full :: full_view

definition router_hit_of :: "retrieval_hit \<Rightarrow> router_hit" where
  "router_hit_of h =
    \<lparr>rh_id = entity_id h, rh_text = hit_title h, rh_body = derive_body h,
     rh_created_at = (case hit_full h of Some (ClaimRow c) \<Rightarrow> clm_created_at c | Some (EventRow e) \<Rightarrow> evt_created_at e | None \<Rightarrow> []),
     rh_source_id = (case hit_full h of Some (ClaimRow c) \<Rightarrow> clm_source_id c | _ \<Rightarrow> []),
     rh_kind = entity_kind h, rh_score = score h, rh_evidence = hit_evidence h,
     rh_full = (case hit_full h of Some r \<Rightarrow> FullRow r | None \<Rightarrow> FullEvidence (hit_evidence h))\<rparr>"

record router_evidence =
  re_hits :: "router_hit list"
  re_stages :: "pystr list"
  re_notes :: "pystr list"

definition MAX_QUERY_LIMIT :: int where
  "MAX_QUERY_LIMIT = 500"

definition capped_limit :: "int \<Rightarrow> int" where
  "capped_limit n = min (max n 1) MAX_QUERY_LIMIT"

definition QUERY_DISPATCH :: "QueryType \<Rightarrow> pystr" where
  "QUERY_DISPATCH q = (case q of RECENT_CONTEXT \<Rightarrow> ''recent_context'' | ARTIFACT_CONTEXT \<Rightarrow> ''by_file''
     | ENTITY_PROFILE \<Rightarrow> ''by_entity'' | CHANGE_TRACE \<Rightarrow> ''by_decision'' | TEMPORAL_CONTEXT \<Rightarrow> ''by_timeline'')"

definition asks_bug :: "QueryRequest \<Rightarrow> bool" where
  "asks_bug req \<longleftrightarrow> (case qr_params req of None \<Rightarrow> False | Some ps \<Rightarrow> map_of ps ''legacy_kind'' = Some (JStr ''bug''))"

text \<open>The retriever's name and its hits.\<close>

definition retriever_hits :: "retrieve_env \<Rightarrow> db \<Rightarrow> QueryRequest \<Rightarrow> kernel_error + pystr \<times> retrieval_hit list" where
  "retriever_hits env d req =
    (let u = qr_user_id req; n = capped_limit (qr_limit req); name = QUERY_DISPATCH (qr_query_type req) in
     case qr_query_type req of
       RECENT_CONTEXT \<Rightarrow> Inr (name, recent_context env d u None n)
     | ARTIFACT_CONTEXT \<Rightarrow> Inr (name, by_file env d u (qr_q req) n)
     | ENTITY_PROFILE \<Rightarrow> Inr (name, by_entity env d u (qr_q req) n)
     | CHANGE_TRACE \<Rightarrow> if asks_bug req then Inr (''by_bug_fix'', by_bug_fix env d u n) else Inr (name, by_decision env d u n)
     | TEMPORAL_CONTEXT \<Rightarrow> (case (qr_since req, qr_until req) of
         (Some s, Some t) \<Rightarrow> and_then (by_timeline env d u s t n) (\<lambda>hs. Inr (name, hs))
       | _ \<Rightarrow> Inl (ValueError ''TEMPORAL_CONTEXT requires since and until in QueryRequest'')))"

definition router_query :: "retrieve_env \<Rightarrow> db \<Rightarrow> QueryRequest \<Rightarrow> kernel_error + router_evidence" where
  "router_query env d req = and_then (retriever_hits env d req) (\<lambda>(name, hs).
     Inr \<lparr>re_hits = map router_hit_of hs, re_stages = [''real_adapter_dispatch''],
       re_notes = [''query_type='' @ query_type_value (qr_query_type req), ''retriever='' @ name]\<rparr>)"

section \<open>Ingest\<close>

record IngestRequest =
  ir_user_id :: pystr
  ir_kind :: pystr
  ir_payload :: json
  ir_source_id :: "pystr option"

record IngestResult =
  res_kind :: pystr
  res_identifier :: pystr
  res_deduped :: bool

record memory_fields =
  mf_body :: pystr
  mf_vault_path :: pystr
  mf_title :: "pystr option"

record claim_fields =
  cf_subject :: pystr
  cf_predicate :: pystr
  cf_object :: pystr
  cf_confidence :: "rat option"
  cf_state :: pystr

definition memory_fields_of :: "row \<Rightarrow> kernel_error + memory_fields" where
  "memory_fields_of payload =
    and_then (required_text payload MEMORY_BODY_KEYS ''memory.body'') (\<lambda>body.
    and_then (required_text payload [''vault_path''] ''memory.vault_path'') (\<lambda>vault_path.
    and_then (first_non_empty payload MEMORY_TITLE_KEYS ''memory.title'' (Some None)) (\<lambda>title.
    Inr \<lparr>mf_body = body, mf_vault_path = vault_path, mf_title = title\<rparr>)))"

definition confidence_of :: "row \<Rightarrow> kernel_error + rat option" where
  "confidence_of payload =
    and_then (coerce_optional_float (case map_of payload ''confidence'' of None \<Rightarrow> JNull | Some v \<Rightarrow> v) ''claim.confidence'') (\<lambda>c.
      case c of None \<Rightarrow> Inr None
      | Some q \<Rightarrow> if 0 \<le> q \<and> q \<le> 1 then Inr (Some q) else Inl (ValueError ''claim.confidence must be in [0, 1]''))"

definition claim_fields_of :: "row \<Rightarrow> kernel_error + claim_fields" where
  "claim_fields_of payload =
    and_then (required_text payload CLAIM_SUBJECT_KEYS ''claim.subject'') (\<lambda>subject.
    and_then (required_text payload CLAIM_PREDICATE_KEYS ''claim.predicate'') (\<lambda>predicate.
    and_then (required_text payload CLAIM_OBJECT_KEYS ''claim.object_'') (\<lambda>object.
    and_then (confidence_of payload) (\<lambda>confidence.
    case (case map_of payload ''state'' of None \<Rightarrow> JStr ''auto'' | Some v \<Rightarrow> v) of
      JStr state \<Rightarrow> Inr \<lparr>cf_subject = subject, cf_predicate = predicate, cf_object = object, cf_confidence = confidence, cf_state = state\<rparr>
    | _ \<Rightarrow> Inl (ValueError ''claim.state must be a str'')))))"

definition router_ingest :: "digests \<Rightarrow> ingest_env \<Rightarrow> IngestRequest \<Rightarrow> IngestResult kernel_op" where
  "router_ingest h env req =
    (if ir_kind req \<notin> {''memory'', ''claim''} then raise_st (ValueError (''unsupported ingest kind '' @ py_repr (ir_kind req)))
     else case ir_payload req of
       JObj payload \<Rightarrow>
         if ir_kind req = ''memory'' then
           (case memory_fields_of payload of Inl e \<Rightarrow> raise_st e
            | Inr f \<Rightarrow> bind_st (ingest_memory_with_status h env (ir_user_id req) (mf_title f) (Some (mf_body f)) (mf_vault_path f) (ir_source_id req))
                (\<lambda>(i, dup). return_st \<lparr>res_kind = ''memory'', res_identifier = i, res_deduped = dup\<rparr>))
         else
           (case claim_fields_of payload of Inl e \<Rightarrow> raise_st e
            | Inr f \<Rightarrow> bind_st (ingest_claim_with_status h env (ir_user_id req) (cf_subject f) (cf_predicate f) (cf_object f) (ir_source_id req)
                  (cf_confidence f) (cf_state f))
                (\<lambda>(i, dup). return_st \<lparr>res_kind = ''claim'', res_identifier = i, res_deduped = dup\<rparr>))
     | _ \<Rightarrow> raise_st (ValueError ''payload must be a Mapping''))"

record HealthReport =
  health_ok :: bool
  flag_enabled :: bool
  query_type_count :: nat
  ports_registered :: "pystr list"
  crosswalk_seed_hash :: pystr

definition PORTS :: "pystr list" where
  "PORTS = [''QueryPort'', ''IngestPort'', ''InspectPort'', ''BackfillPort'']"

definition router_health :: "bool \<Rightarrow> pystr \<Rightarrow> HealthReport" where
  "router_health enabled seed = \<lparr>health_ok = True, flag_enabled = enabled, query_type_count = 5, ports_registered = PORTS, crosswalk_seed_hash = seed\<rparr>"

section \<open>Which alias wins\<close>

definition skipped_value :: "json option \<Rightarrow> bool" where
  "skipped_value v \<longleftrightarrow> v \<in> {None, Some JNull, Some (JStr [])}"

lemma first_non_empty_Some:
  "first_non_empty payload keys field None = Inr (Some s) \<longleftrightarrow>
    (\<exists>before key after. keys = before @ key # after \<and> map_of payload key = Some (JStr s) \<and> s \<noteq> [] \<and>
      list_all (\<lambda>k. skipped_value (map_of payload k)) before)"
proof (induction keys)
  case (Cons key keys)
  have split: "(\<exists>before x after. key # keys = before @ x # after \<and> P x \<and> list_all Q before) \<longleftrightarrow>
      P key \<or> (Q key \<and> (\<exists>before x after. keys = before @ x # after \<and> P x \<and> list_all Q before))"
    (is "?L = ?R") for P Q
  proof
    assume ?L
    then obtain before x after where b: "key # keys = before @ x # after" "P x" "list_all Q before" by blast
    then show ?R by (cases before) auto
  next
    assume ?R
    then show ?L
    proof
      assume "P key"
      then show ?L by (intro exI [of _ "[]"] exI [of _ key] exI [of _ keys]) simp
    next
      assume "Q key \<and> (\<exists>before x after. keys = before @ x # after \<and> P x \<and> list_all Q before)"
      then obtain before x after where "Q key" "keys = before @ x # after" "P x" "list_all Q before" by blast
      then show ?L by (intro exI [of _ "key # before"] exI [of _ x] exI [of _ after]) simp
    qed
  qed
  let ?P = "\<lambda>x. map_of payload x = Some (JStr s) \<and> s \<noteq> []" and ?Q = "\<lambda>k. skipped_value (map_of payload k)"
  have "first_non_empty payload (key # keys) field None = Inr (Some s) \<longleftrightarrow>
      ?P key \<or> (?Q key \<and> first_non_empty payload keys field None = Inr (Some s))"
  proof (cases "map_of payload key")
    case (Some v)
    then show ?thesis by (cases v) (auto simp: skipped_value_def)
  qed (simp add: skipped_value_def)
  then show ?case unfolding Cons.IH using split [of ?P ?Q] by simp
qed simp

text \<open>A required field is the text under the first of its names that holds a text; names before it may only be absent,
  \<^verbatim>\<open>None\<close> or empty, for a value of another type there raises, whatever the later names hold.\<close>

theorem alias_precedence:
  "required_text payload keys field = Inr s \<longleftrightarrow>
    (\<exists>before key after. keys = before @ key # after \<and> map_of payload key = Some (JStr s) \<and> s \<noteq> [] \<and>
      list_all (\<lambda>k. skipped_value (map_of payload k)) before)"
proof -
  have "required_text payload keys field = Inr s \<longleftrightarrow> first_non_empty payload keys field None = Inr (Some s)"
    by (auto simp: required_text_def and_then_Inr split: option.splits)
  then show ?thesis by (simp only: first_non_empty_Some)
qed

section \<open>Bounded, isolated queries\<close>

lemma capped_limit_bounds: "1 \<le> capped_limit n" "capped_limit n \<le> 500"
  by (simp_all add: capped_limit_def MAX_QUERY_LIMIT_def)

lemma length_newest: "0 \<le> n \<Longrightarrow> length (newest env n sel d) \<le> nat n"
  by (simp add: newest_def length_sql_limit)

lemma retriever_facts:
  assumes "orders_rows env" "retriever_hits env d req = Inr (name, hs)"
  shows "length hs \<le> nat (capped_limit (qr_limit req)) \<and> (\<forall>h \<in> set hs. hit_of d (qr_user_id req) h)"
proof -
  let ?u = "qr_user_id req" and ?n = "capped_limit (qr_limit req)"
  have n: "0 \<le> ?n" using capped_limit_bounds [of "qr_limit req"] by simp
  have rec: "length (recent_context env d ?u None ?n) \<le> nat ?n" by (simp add: recent_context_def Let_def length_newest [OF n])
  have fil: "length (by_file env d ?u (qr_q req) ?n) \<le> nat ?n" by (simp add: by_file_def length_newest [OF n])
  have ent: "length (by_entity env d ?u (qr_q req) ?n) \<le> nat ?n" by (simp add: by_entity_def length_py_head [OF n])
  have bug: "length (by_bug_fix env d ?u ?n) \<le> nat ?n" by (simp add: by_bug_fix_def length_py_head [OF n])
  have dcs: "length (by_decision env d ?u ?n) \<le> nat ?n" by (simp add: by_decision_def Let_def length_newest [OF n])
  have tim: "length hs \<le> nat ?n" if t: "by_timeline env d ?u s t ?n = Inr hs" for s t
    using t by (auto simp: by_timeline_def and_then_Inr timeline_rows_def intro: length_sql_limit [OF n])
  show ?thesis
  proof (cases "qr_query_type req")
    case RECENT_CONTEXT
    then have "hs = recent_context env d ?u None ?n" using assms(2) by (simp add: retriever_hits_def Let_def)
    then show ?thesis using rec recent_of [OF assms(1)] by blast
  next
    case ARTIFACT_CONTEXT
    then have "hs = by_file env d ?u (qr_q req) ?n" using assms(2) by (simp add: retriever_hits_def Let_def)
    then show ?thesis using fil file_of [OF assms(1)] by blast
  next
    case ENTITY_PROFILE
    then have "hs = by_entity env d ?u (qr_q req) ?n" using assms(2) by (simp add: retriever_hits_def Let_def)
    then show ?thesis using ent entity_of [OF assms(1)] by blast
  next
    case CHANGE_TRACE
    then have "hs = by_bug_fix env d ?u ?n \<or> hs = by_decision env d ?u ?n"
      using assms(2) by (auto simp: retriever_hits_def Let_def split: if_splits)
    then show ?thesis using bug dcs bug_of [OF assms(1)] decision_of [OF assms(1)] by blast
  next
    case TEMPORAL_CONTEXT
    then obtain s t where "by_timeline env d ?u s t ?n = Inr hs"
      using assms(2) by (auto simp: retriever_hits_def Let_def and_then_Inr split: option.splits)
    then show ?thesis using tim timeline_of [OF assms(1)] by blast
  qed
qed

definition router_hit_of_user :: "db \<Rightarrow> pystr \<Rightarrow> router_hit \<Rightarrow> bool" where
  "router_hit_of_user d u h \<longleftrightarrow> (case rh_full h of
     FullRow (EventRow e) \<Rightarrow> e \<in> set (events d) \<and> evt_user_id e = u
   | FullRow (ClaimRow c) \<Rightarrow> c \<in> set (claims d) \<and> clm_user_id c = u
   | FullEvidence _ \<Rightarrow> False)"

lemma router_hit_user: "hit_of d u h \<Longrightarrow> router_hit_of_user d u (router_hit_of h)"
  by (auto simp: hit_of_def router_hit_of_user_def router_hit_of_def split: option.splits hit_row.splits)

text \<open>C26: Whatever limit, type and parameters a request carries, a routed query returns at most 500 hits, and each shows a stored row
  of the user of the request.\<close>

theorem routed_query_bounded:
  assumes "orders_rows env" "router_query env d req = Inr ev"
  shows "length (re_hits ev) \<le> 500 \<and> (\<forall>h \<in> set (re_hits ev). router_hit_of_user d (qr_user_id req) h)"
proof -
  obtain name hs where hs: "retriever_hits env d req = Inr (name, hs)" "re_hits ev = map router_hit_of hs"
    using assms(2) by (auto simp: router_query_def and_then_Inr)
  note facts = retriever_facts [OF assms(1) hs(1)]
  have "nat (capped_limit (qr_limit req)) \<le> 500" using capped_limit_bounds [of "qr_limit req"] by simp
  with facts have "length (re_hits ev) \<le> 500" by (simp add: hs(2))
  moreover have "\<forall>h \<in> set (re_hits ev). router_hit_of_user d (qr_user_id req) h"
    using facts by (auto simp: hs(2) intro: router_hit_user)
  ultimately show ?thesis by blast
qed

definition demo_profile :: "pystr \<Rightarrow> QueryRequest" where
  "demo_profile q = \<lparr>qr_query_type = ENTITY_PROFILE, qr_user_id = ''u'', qr_q = q, qr_limit = 9999, qr_since = None, qr_until = None,
     qr_level = 1, qr_params = None\<rparr>"

lemma routed_query_bounded_witness:
  "\<exists>ev. router_query (demo_retrieve_env False) demo_edits (demo_profile ''ann'') = Inr ev \<and> length (re_hits ev) \<le> 500"
proof -
  obtain ev where q: "router_query (demo_retrieve_env False) demo_edits (demo_profile ''ann'') = Inr ev"
    by (simp add: router_query_def retriever_hits_def demo_profile_def Let_def)
  from routed_query_bounded [OF demo_orders q] q show ?thesis by blast
qed

section \<open>What is ingested is read back\<close>

lemma sql_limit_all: "int (length xs) \<le> n \<Longrightarrow> sql_limit n xs = xs"
  by (simp add: sql_limit_def)

lemma py_head_all: "int (length xs) \<le> n \<Longrightarrow> py_head n xs = xs"
  by (simp add: py_head_def)

lemma length_by_confidence [simp]: "length (by_confidence cs) = length cs"
  by (simp add: by_confidence_def)

lemma orders_length: "orders_rows env \<Longrightarrow> length (rt_newest_first env xs) = length xs"
  unfolding orders_rows_def by (metis size_mset)

lemma entity_hit_found:
  assumes "orders_rows env" "c \<in> set (claims d)" "clm_user_id c = u" "clm_subject c = subject" "subject \<noteq> []"
    "int (length (claims d) + length (events d)) \<le> n"
  shows "entity_claim_hit env subject c \<in> set (by_entity env d u subject n)"
proof -
  let ?cs = "filter (\<lambda>c. clm_user_id c = u \<and> subject_matches subject c) (claims d)"
  have lc: "length ?cs \<le> length (claims d)" by (rule length_filter_le)
  then have "int (length (by_confidence ?cs)) \<le> n" using assms(6) unfolding length_by_confidence by linarith
  then have "entity_claims d u subject n = by_confidence ?cs"
    unfolding entity_claims_def by (rule sql_limit_all)
  moreover have "subject_matches subject c" by (simp only: subject_matches_def assms(4) simp_thms)
  ultimately have c: "c \<in> set (entity_claims d u subject n)" "length (entity_claims d u subject n) \<le> length (claims d)"
    using assms(2,3) lc by simp_all
  let ?es = "filter (\<lambda>e. evt_user_id e = u \<and> payload_matches env u subject e) (events d)"
  have "length (entity_events env d u subject n) \<le> length (rt_newest_first env ?es)"
    by (simp add: entity_events_def newest_def sql_limit_def)
  also have "\<dots> = length ?es" by (rule orders_length [OF assms(1)])
  also have "\<dots> \<le> length (events d)" by (rule length_filter_le)
  finally have e: "length (entity_events env d u subject n) \<le> length (events d)" .
  show ?thesis using c e assms(5,6) by (simp add: by_entity_def py_head_all)
qed

lemma claim_hit_body:
  assumes "clm_object c \<noteq> []"
  shows "rh_id (router_hit_of (entity_claim_hit env q c)) = clm_id c" "rh_body (router_hit_of (entity_claim_hit env q c)) = Title (clm_object c)"
  using assms by (simp_all add: router_hit_of_def entity_claim_hit_def claim_to_hit_def derive_body_def CLAIM_OBJECT_KEYS_def claim_dict_def Let_def)

lemma claim_fields_nonempty:
  assumes "claim_fields_of payload = Inr f"
  shows "cf_subject f \<noteq> []" "cf_object f \<noteq> []"
proof -
  have ne: "s \<noteq> []" if "required_text p ks n = Inr s" for p ks n s
    using that by (auto simp: required_text_def and_then_Inr first_non_empty_Some split: option.splits)
  let ?st = "case map_of payload ''state'' of None \<Rightarrow> JStr ''auto'' | Some v \<Rightarrow> v"
  obtain s p ob cf where r: "required_text payload CLAIM_SUBJECT_KEYS ''claim.subject'' = Inr s" "required_text payload CLAIM_OBJECT_KEYS ''claim.object_'' = Inr ob"
    "(case ?st of JStr state \<Rightarrow> Inr \<lparr>cf_subject = s, cf_predicate = p, cf_object = ob, cf_confidence = cf, cf_state = state\<rparr>
      | _ \<Rightarrow> Inl (ValueError ''claim.state must be a str'')) = Inr f"
    using assms by (auto simp: claim_fields_of_def and_then_Inr)
  then have "cf_subject f = s" "cf_object f = ob" by (cases ?st; auto)+
  then have "required_text payload CLAIM_SUBJECT_KEYS ''claim.subject'' = Inr (cf_subject f)"
    "required_text payload CLAIM_OBJECT_KEYS ''claim.object_'' = Inr (cf_object f)" using r by simp_all
  then show "cf_subject f \<noteq> []" "cf_object f \<noteq> []" using ne by blast+
qed


definition demo_request_in :: IngestRequest where
  "demo_request_in = \<lparr>ir_user_id = ''u'', ir_kind = ''claim'', ir_payload = JObj [(''name'', JStr ''ann''), (''event_type'', JStr ''is''), (''text'', JStr ''fast'')],
     ir_source_id = None\<rparr>"


end
