(* ===== verification/Extract.thy ===== *)
theory Extract
  imports Shadow Retrieval
begin

text \<open>
  \<^verbatim>\<open>parallax/extract\<close>, the pure part: the claim a provider hands over (\<^verbatim>\<open>types.py\<close>), the sliding window that cuts a
  text into chunks and the delegation to the provider (\<^verbatim>\<open>extractor.py\<close>), and the defensive parser of a model's answer
  (\<^verbatim>\<open>providers/_parse.py\<close>). The window may not end, so its loop is a partial function and \<open>None\<close> is not returning.
\<close>

record RawClaim =
  rc_entity :: pystr
  rc_claim_text :: pystr
  rc_polarity :: int
  rc_confidence :: rat
  rc_claim_type :: pystr
  rc_evidence :: pystr

section \<open>Chunks\<close>

text \<open>The maximal runs of the characters of a class; \<^verbatim>\<open>s.split()\<close>; and \<^verbatim>\<open>xs[a:b]\<close> for a start that is not negative.\<close>

function runs_of :: "(char \<Rightarrow> bool) \<Rightarrow> pystr \<Rightarrow> pystr list" where
  "runs_of P s = (case dropWhile (\<lambda>x. \<not> P x) s of [] \<Rightarrow> []
     | c # r \<Rightarrow> (c # takeWhile P r) # runs_of P (dropWhile P r))"
  by pat_completeness auto
termination
proof (relation "measure (\<lambda>(P, s). length s)")
  fix P :: "char \<Rightarrow> bool" and s c r
  assume "dropWhile (\<lambda>x. \<not> P x) s = c # r"
  then have "length (c # r) \<le> length s" by (metis length_dropWhile_le)
  moreover have "length (dropWhile P r) \<le> length r" by (rule length_dropWhile_le)
  ultimately show "((P, dropWhile P r), (P, s)) \<in> measure (\<lambda>(P, s). length s)" by simp
qed simp

declare runs_of.simps [simp del]

definition split_words :: "pystr \<Rightarrow> pystr list" where
  "split_words s = runs_of (\<lambda>c. \<not> py_space c) s"

definition py_slice :: "int \<Rightarrow> int \<Rightarrow> 'a list \<Rightarrow> 'a list" where
  "py_slice a b xs = (let e = nat (if b < 0 then int (length xs) + b else b) in drop (nat a) (take e xs))"

text \<open>\<^verbatim>\<open>int(n * 0.75)\<close>, towards zero.\<close>

definition words_of_tokens :: "int \<Rightarrow> int" where
  "words_of_tokens n = (if n < 0 then - (- n * 3 div 4) else n * 3 div 4)"

partial_function (option) chunk_loop :: "pystr list \<Rightarrow> int \<Rightarrow> int \<Rightarrow> int \<Rightarrow> pystr list \<Rightarrow> pystr list option" where
  "chunk_loop words max_words overlap_words start chunks =
    (if start < int (length words) then
       let stop = min (start + max_words) (int (length words));
           chunks' = chunks @ [join '' '' (py_slice start stop words)]
       in if stop = int (length words) then Some chunks'
          else chunk_loop words max_words overlap_words (stop - overlap_words) chunks'
     else Some chunks)"

definition chunk_text :: "pystr \<Rightarrow> int \<Rightarrow> int \<Rightarrow> (kernel_error + pystr list) option" where
  "chunk_text s max_tokens overlap_tokens =
    (if max_tokens \<le> overlap_tokens then Some (Inl (ValueError (''overlap ('' @ dec overlap_tokens @ '') must be strictly less than max_tokens ('' @ dec max_tokens @ '')'')))
     else let words = split_words s; max_words = words_of_tokens max_tokens; overlap_words = words_of_tokens overlap_tokens in
       if int (length words) \<le> max_words then Some (Inr [s])
       else map_option Inr (chunk_loop words max_words overlap_words 0 []))"

section \<open>The provider\<close>

text \<open>An object without the attribute, with one that cannot be called, or with the function.\<close>

datatype Provider = NoExtract | NotCallable | Extracts "pystr \<Rightarrow> kernel_error + RawClaim list"

definition extract_claims :: "pystr \<Rightarrow> Provider \<Rightarrow> kernel_error + RawClaim list" where
  "extract_claims s provider =
    (if s = [] \<or> strip s = [] then Inr []
     else case provider of NoExtract \<Rightarrow> Inl AttributeError | NotCallable \<Rightarrow> Inl TypeError | Extracts f \<Rightarrow> f s)"

text \<open>The substitution of the text for its marker in the prompt template, whose own text is a parameter.\<close>

definition TEXT_MARK :: pystr where
  "TEXT_MARK = ''{text}''"

fun replace_all :: "nat \<Rightarrow> pystr \<Rightarrow> pystr \<Rightarrow> pystr \<Rightarrow> pystr" where
  "replace_all 0 old new s = s"
| "replace_all (Suc n) old new [] = []"
| "replace_all (Suc n) old new (c # cs) =
    (if startswith (c # cs) old then new @ replace_all n old new (drop (length old) (c # cs))
     else c # replace_all n old new cs)"

definition render_prompt :: "pystr \<Rightarrow> pystr \<Rightarrow> pystr" where
  "render_prompt template s = replace_all (length template) TEXT_MARK s template"

section \<open>The answer of a model\<close>

definition MIN_CONFIDENCE :: rat where
  "MIN_CONFIDENCE = 1 / 2"

text \<open>
  What the parser asks of the standard library: \<^verbatim>\<open>json.loads\<close>, which returns, rejects the text or raises something else
  (an integer of too many digits, a nesting too deep), and the conversions of \<^verbatim>\<open>float\<close>, \<^verbatim>\<open>int\<close> and \<^verbatim>\<open>str\<close> that read or
  write the text of a number or container. Numbers are finite.
\<close>

datatype loaded = Loaded json | NotJson | LoadsRaised kernel_error

record parse_lib =
  pl_loads :: "pystr \<Rightarrow> loaded"
  pl_float :: "pystr \<Rightarrow> rat option"
  pl_int :: "pystr \<Rightarrow> int option"
  pl_repr :: "json \<Rightarrow> pystr"

definition to_float :: "parse_lib \<Rightarrow> json \<Rightarrow> kernel_error + rat" where
  "to_float lib j = (case j of
     JStr s \<Rightarrow> (case pl_float lib s of None \<Rightarrow> Inl (ValueError s) | Some r \<Rightarrow> Inr r) | _ \<Rightarrow> as_float j)"

definition rat_trunc :: "rat \<Rightarrow> int" where
  "rat_trunc r = (if r < 0 then - \<lfloor>- r\<rfloor> else \<lfloor>r\<rfloor>)"

definition to_int :: "parse_lib \<Rightarrow> json \<Rightarrow> kernel_error + int" where
  "to_int lib j = (case j of
     JInt i \<Rightarrow> Inr i | JBool b \<Rightarrow> Inr (of_bool b) | JNum r \<Rightarrow> Inr (rat_trunc r)
   | JStr s \<Rightarrow> (case pl_int lib s of None \<Rightarrow> Inl (ValueError s) | Some i \<Rightarrow> Inr i) | _ \<Rightarrow> Inl TypeError)"

definition to_str :: "parse_lib \<Rightarrow> json \<Rightarrow> pystr" where
  "to_str lib j = (case j of
     JStr s \<Rightarrow> s | JNull \<Rightarrow> ''None'' | JBool b \<Rightarrow> (if b then ''True'' else ''False'') | JInt i \<Rightarrow> dec i | _ \<Rightarrow> pl_repr lib j)"

definition item_get :: "row \<Rightarrow> pystr \<Rightarrow> json \<Rightarrow> json" where
  "item_get item key dflt = (case map_of item key of None \<Rightarrow> dflt | Some v \<Rightarrow> v)"

text \<open>One item: skipped, or a claim, or the exception its conversion raised.\<close>

definition parse_item :: "parse_lib \<Rightarrow> row \<Rightarrow> kernel_error + RawClaim option" where
  "parse_item lib item =
    and_then (to_float lib (item_get item ''confidence'' (JNum 0))) (\<lambda>confidence.
      if confidence < MIN_CONFIDENCE then Inr None
      else and_then (to_int lib (item_get item ''polarity'' (JInt 0))) (\<lambda>polarity.
        Inr (Some \<lparr>rc_entity = strip (to_str lib (item_get item ''entity'' (JStr ''Unknown''))),
          rc_claim_text = strip (to_str lib (item_get item ''claim_text'' (JStr []))),
          rc_polarity = (if polarity \<in> {-1, 0, 1} then polarity else 0),
          rc_confidence = confidence,
          rc_claim_type = strip (to_str lib (item_get item ''claim_type'' (JStr ''opinion''))),
          rc_evidence = take 200 (strip (to_str lib (item_get item ''evidence'' (JStr []))))\<rparr>)))"

definition item_swallowed :: "kernel_error \<Rightarrow> bool" where
  "item_swallowed e = (case e of TypeError \<Rightarrow> True | ValueError _ \<Rightarrow> True | _ \<Rightarrow> False)"

fun parse_items :: "parse_lib \<Rightarrow> json list \<Rightarrow> kernel_error + RawClaim list" where
  "parse_items lib [] = Inr []"
| "parse_items lib (j # js) =
    (case j of
       JObj item \<Rightarrow> (case parse_item lib item of
           Inl e \<Rightarrow> if item_swallowed e then parse_items lib js else Inl e
         | Inr None \<Rightarrow> parse_items lib js
         | Inr (Some c) \<Rightarrow> and_then (parse_items lib js) (\<lambda>cs. Inr (c # cs)))
     | _ \<Rightarrow> parse_items lib js)"

text \<open>\<^verbatim>\<open>str.splitlines\<close>.\<close>

definition line_break :: "char \<Rightarrow> bool" where
  "line_break c \<longleftrightarrow> (let n = (of_char c :: nat) in (10 \<le> n \<and> n \<le> 13) \<or> (28 \<le> n \<and> n \<le> 30) \<or> n = 133)"

fun splitlines_from :: "pystr \<Rightarrow> pystr \<Rightarrow> pystr list" where
  "splitlines_from cur [] = (if cur = [] then [] else [cur])"
| "splitlines_from cur (c # cs) =
    (if line_break c then
       (case cs of d # ds \<Rightarrow> if c = CHR 0x0D \<and> d = CHR 0x0A then cur # splitlines_from [] ds else cur # splitlines_from [] cs
        | [] \<Rightarrow> [cur])
     else splitlines_from (cur @ [c]) cs)"

definition FENCE :: pystr where
  "FENCE = [CHR 0x60, CHR 0x60, CHR 0x60]"

definition unfenced :: "pystr \<Rightarrow> pystr" where
  "unfenced raw = (let s = strip raw in
     if startswith s FENCE
     then strip (join [CHR 0x0A] (filter (\<lambda>l. \<not> startswith l FENCE) (splitlines_from [] s)))
     else s)"

definition parse_claims_json :: "parse_lib \<Rightarrow> pystr \<Rightarrow> kernel_error + RawClaim list" where
  "parse_claims_json lib raw =
    (case pl_loads lib (unfenced raw) of
       NotJson \<Rightarrow> Inr [] | LoadsRaised e \<Rightarrow> Inl e
     | Loaded (JList items) \<Rightarrow> parse_items lib items | Loaded _ \<Rightarrow> Inr [])"

section \<open>When the window ends\<close>

text \<open>The windows as a recursion on the words that are left.\<close>

function windows :: "nat \<Rightarrow> nat \<Rightarrow> 'a list \<Rightarrow> 'a list list" where
  "windows k ov ws = (if length ws \<le> k \<or> k \<le> ov then [ws] else take k ws # windows k ov (drop (k - ov) ws))"
  by pat_completeness auto
termination
  by (relation "measure (\<lambda>(k, ov, ws). length ws)") auto

declare windows.simps [simp del]

lemma windows_length: "ov < k \<Longrightarrow> \<forall>w \<in> set (windows k ov ws). length w \<le> k"
proof (induction k ov ws rule: windows.induct)
  case (1 k ov ws)
  then show ?case by (subst windows.simps) auto
qed

lemma windows_nonempty: "windows k ov ws \<noteq> []"
  by (subst windows.simps) simp

lemma windows_cover: "ov < k \<Longrightarrow> ov \<le> length ws \<Longrightarrow>
    hd (windows k ov ws) @ concat (map (drop ov) (tl (windows k ov ws))) = ws"
proof (induction k ov ws rule: windows.induct)
  case (1 k ov ws)
  show ?case
  proof (cases "length ws \<le> k")
    case True
    then show ?thesis by (subst (1 2) windows.simps) simp
  next
    case False
    let ?r = "drop (k - ov) ws"
    from False 1 have IH: "hd (windows k ov ?r) @ concat (map (drop ov) (tl (windows k ov ?r))) = ?r" by simp
    have hd: "ov \<le> length (hd (windows k ov ?r))" using False "1.prems" by (subst windows.simps) (simp, linarith)
    have "drop ov (hd (windows k ov ?r)) @ concat (map (drop ov) (tl (windows k ov ?r))) = drop ov ?r"
      using arg_cong [OF IH, of "drop ov"] hd by simp
    then have "concat (map (drop ov) (windows k ov ?r)) = drop k ws"
      using windows_nonempty [of k ov ?r] "1.prems" by (cases "windows k ov ?r") simp_all
    moreover have "windows k ov ws = take k ws # windows k ov ?r"
      using False "1.prems" by (subst windows.simps) simp
    ultimately show ?thesis by simp
  qed
qed

lemma chunk_loop_windows:
  assumes "ov < k"
  shows "s + ov < length words \<or> (s = 0 \<and> words \<noteq> []) \<Longrightarrow> chunk_loop words (int k) (int ov) (int s) acc =
    Some (acc @ map (join '' '') (windows k ov (drop s words)))"
proof (induction "length words - s" arbitrary: s acc rule: less_induct)
  case less
  let ?n = "length words"
  have lt: "s < ?n" using less.prems by auto
  have unfold: "chunk_loop words (int k) (int ov) (int s) acc =
    (let stop = min (int s + int k) (int ?n); chunks' = acc @ [join '' '' (py_slice (int s) stop words)]
     in if stop = int ?n then Some chunks' else chunk_loop words (int k) (int ov) (stop - int ov) chunks')"
    using lt by (subst chunk_loop.simps) simp
  show ?case
  proof (cases "?n \<le> s + k")
    case True
    then have "min (int s + int k) (int ?n) = int ?n" by simp
    moreover have "windows k ov (drop s words) = [drop s words]" using True by (subst windows.simps) auto
    ultimately show ?thesis unfolding unfold by (simp add: py_slice_def Let_def)
  next
    case False
    then have st: "min (int s + int k) (int ?n) = int (s + k)" by simp
    have nxt: "int (s + k) - int ov = int (s + k - ov)" using assms by simp
    have slice: "py_slice (int s) (int (s + k)) words = take k (drop s words)"
      by (simp add: py_slice_def nat_int_add take_drop add.commute Let_def)
    have w: "windows k ov (drop s words) = take k (drop s words) # windows k ov (drop (s + k - ov) words)"
    proof -
      have c: "\<not> (length (drop s words) \<le> k \<or> k \<le> ov)" and d: "k - ov + s = s + k - ov" using False assms by auto
      show ?thesis unfolding windows.simps [of k ov "drop s words"] using c d by simp
    qed
    have ne: "int (s + k) \<noteq> int ?n" using False by simp
    have "s + k - ov + ov < ?n" "?n - (s + k - ov) < ?n - s" using False assms lt by auto
    from less.hyps [OF this(2), of "acc @ [join '' '' (take k (drop s words))]"] this(1)
    show ?thesis unfolding unfold st Let_def slice nxt w using ne by simp
  qed
qed

lemma chunk_loop_stuck:
  assumes "int k < int (length words)"
  shows "chunk_loop words (int k) (int k) 0 acc = None"
proof (rule ccontr)
  assume "chunk_loop words (int k) (int k) 0 acc \<noteq> None"
  then obtain r where ret: "chunk_loop words (int k) (int k) 0 acc = Some r" by blast
  have "words = words \<and> int k = int k \<and> int k = int k \<and> (0 :: int) = 0 \<longrightarrow> False"
  proof (rule chunk_loop.raw_induct [where P = "\<lambda>ws mw ow start chunks r. ws = words \<and> mw = int k \<and> ow = int k \<and> start = 0 \<longrightarrow> False", OF _ ret])
    fix f ws mw ow start chunks r
    assume IH: "\<And>ws mw ow start chunks r. f ws mw ow start chunks = Some r \<Longrightarrow> ws = words \<and> mw = int k \<and> ow = int k \<and> start = 0 \<longrightarrow> False"
      and eq: "(if start < int (length ws) then
         let stop = min (start + mw) (int (length ws)); chunks' = chunks @ [join '' '' (py_slice start stop ws)]
         in if stop = int (length ws) then Some chunks' else f ws mw ow (stop - ow) chunks' else Some chunks) = Some r"
    show "ws = words \<and> mw = int k \<and> ow = int k \<and> start = 0 \<longrightarrow> False"
    proof
      assume "ws = words \<and> mw = int k \<and> ow = int k \<and> start = 0"
      with eq assms have "f words (int k) (int k) 0 (chunks @ [join '' '' (py_slice 0 (int k) words)]) = Some r"
        by (auto simp: Let_def min_def split: if_splits)
      from IH [OF this] show False by simp
    qed
  qed
  then show False by simp
qed

lemma trunc_nonneg: "0 \<le> n \<Longrightarrow> words_of_tokens n = int (nat (words_of_tokens n))"
  by (simp add: words_of_tokens_def)

lemma words_pos: "0 \<le> n \<Longrightarrow> 0 \<le> words_of_tokens n"
  by (simp add: words_of_tokens_def)

lemma trunc_mono: "0 \<le> a \<Longrightarrow> a \<le> b \<Longrightarrow> words_of_tokens a \<le> words_of_tokens b"
  by (simp add: words_of_tokens_def zdiv_mono1)

lemma chunk_text_long:
  assumes "0 \<le> ov" "ov < m" "\<not> int (length (split_words s)) \<le> words_of_tokens m"
  shows "chunk_text s m ov = (if words_of_tokens ov < words_of_tokens m
    then Some (Inr (map (join '' '') (windows (nat (words_of_tokens m)) (nat (words_of_tokens ov)) (split_words s)))) else None)"
proof -
  let ?w = "split_words s" and ?k = "nat (words_of_tokens m)" and ?o = "nat (words_of_tokens ov)"
  have k: "words_of_tokens m = int ?k" and o: "words_of_tokens ov = int ?o" using assms(1,2)
    by (intro trunc_nonneg; simp)+
  have eq: "chunk_text s m ov = map_option Inr (chunk_loop ?w (int ?k) (int ?o) 0 [])"
    using assms k o by (simp add: chunk_text_def)
  have lt: "?k < length ?w" using assms(3) words_pos [of m] assms(1,2) by (simp add: nat_less_iff not_le)
  show ?thesis
  proof (cases "?o < ?k")
    case True
    then have "0 + ?o < length ?w \<or> ((0::nat) = 0 \<and> ?w \<noteq> [])" using lt by (cases ?w) simp_all
    from chunk_loop_windows [OF True this, of "[]"] True show ?thesis unfolding eq by simp
  next
    case False
    have "?o \<le> ?k" using trunc_mono [OF assms(1), of m] assms(2) by (intro nat_mono) simp
    with False have "?o = ?k" by (simp only: not_less le_antisym)
    then show ?thesis using chunk_loop_stuck [of ?k ?w "[]"] lt False nat_less_eq_zless [OF words_pos [OF assms(1)], of "words_of_tokens m"]
      unfolding eq by (simp only: of_nat_less_iff if_False option.map simp_thms)
  qed
qed

text \<open>C36: With an overlap that the guard of \<^verbatim>\<open>chunk_text\<close> accepts, the call returns exactly when the text fits one chunk or the
  overlap is still the smaller one after both are converted to words. The guard compares tokens, so it does not exclude the loop it
  is there to exclude.\<close>

theorem chunk_text_ends_iff:
  assumes "0 \<le> ov" "ov < m"
  shows "(\<exists>r. chunk_text s m ov = Some r) \<longleftrightarrow>
    int (length (split_words s)) \<le> words_of_tokens m \<or> words_of_tokens ov < words_of_tokens m"
proof (cases "int (length (split_words s)) \<le> words_of_tokens m")
  case True
  then show ?thesis using assms by (simp add: chunk_text_def)
next
  case False
  show ?thesis unfolding chunk_text_long [OF assms False] using False by simp
qed

lemma chunk_text_ends_iff_witness:
  "chunk_text ''a b c d'' 5 4 = None \<and> (\<exists>r. chunk_text ''a b c d'' 2000 200 = Some r)"
proof -
  have w: "length (split_words ''a b c d'') = 4" by code_simp
  from chunk_text_ends_iff [of 4 5 "''a b c d''"] chunk_text_ends_iff [of 200 2000 "''a b c d''"] show ?thesis
    by (simp add: w words_of_tokens_def)
qed

text \<open>When \<^verbatim>\<open>chunk_text\<close> cuts a text, every chunk has at most the allowed number of words, and leaving out the repeated words at
  the start of all chunks but the first gives back the words of the text, in order, none lost.\<close>

theorem chunks_cover:
  assumes "0 \<le> ov" "chunk_text s m ov = Some (Inr chunks)"
  shows "chunks = [s] \<or> (\<exists>wss. chunks = map (join '' '') wss \<and> (\<forall>w \<in> set wss. int (length w) \<le> words_of_tokens m) \<and>
    hd wss @ concat (map (drop (nat (words_of_tokens ov))) (tl wss)) = split_words s)"
proof (cases "int (length (split_words s)) \<le> words_of_tokens m")
  case True
  then show ?thesis using assms(2) by (auto simp: chunk_text_def Let_def split: if_splits)
next
  case False
  have lt: "ov < m" using assms(2) by (simp add: chunk_text_def split: if_splits)
  let ?k = "nat (words_of_tokens m)" and ?o = "nat (words_of_tokens ov)"
  have o: "words_of_tokens ov < words_of_tokens m" and chunks: "chunks = map (join '' '') (windows ?k ?o (split_words s))"
    using assms(2) unfolding chunk_text_long [OF assms(1) lt False] by (auto split: if_splits)
  have k: "words_of_tokens m = int ?k" using assms(1) lt by (intro trunc_nonneg) simp
  have k2: "?o < ?k" using o words_pos [OF assms(1)] by simp
  have "?k \<le> length (split_words s)" using False words_pos [of m] assms(1) lt by (simp add: nat_le_iff not_le)
  with k2 have "?o \<le> length (split_words s)" by (rule order_trans [OF less_imp_le])
  then have cover: "hd (windows ?k ?o (split_words s)) @ concat (map (drop ?o) (tl (windows ?k ?o (split_words s)))) = split_words s"
    by (rule windows_cover [OF k2])
  have "int (length w) \<le> words_of_tokens m" if w: "w \<in> set (windows ?k ?o (split_words s))" for w
    using windows_length [OF k2, of "split_words s"] w words_pos [of m] assms(1) lt by (simp add: le_nat_iff)
  with cover show ?thesis unfolding chunks by blast
qed

lemma chunks_cover_witness:
  "\<exists>wss. hd wss @ concat (map (drop (nat (words_of_tokens 1))) (tl wss)) = split_words ''a b c d''"
proof -
  have w: "split_words ''a b c d'' = [''a'', ''b'', ''c'', ''d'']" by code_simp
  have "words_of_tokens 4 = 3" "words_of_tokens 1 = 0" by (simp_all add: words_of_tokens_def)
  then obtain r where r: "chunk_text ''a b c d'' 4 1 = Some (Inr r)" "r \<noteq> [''a b c d'']"
    using chunk_text_long [of 1 4 "''a b c d''"] by (simp add: w windows.simps)
  from chunks_cover [of 1, OF _ r(1)] r(2) show ?thesis by auto
qed

section \<open>What the parser lets through\<close>

definition well_formed_claim :: "RawClaim \<Rightarrow> bool" where
  "well_formed_claim c \<longleftrightarrow> MIN_CONFIDENCE \<le> rc_confidence c \<and> rc_polarity c \<in> {-1, 0, 1} \<and> length (rc_evidence c) \<le> 200 \<and>
     strip (rc_entity c) = rc_entity c \<and> strip (rc_claim_text c) = rc_claim_text c \<and> strip (rc_claim_type c) = rc_claim_type c"

text \<open>The one kind of item whose exception is not caught: an integer that no float can hold.\<close>

definition oversized :: "json \<Rightarrow> bool" where
  "oversized j \<longleftrightarrow> (case j of
     JObj item \<Rightarrow> (case item_get item ''confidence'' (JNum 0) of JInt i \<Rightarrow> 2 ^ 1024 - 2 ^ 970 \<le> \<bar>i\<bar> | _ \<Rightarrow> False)
   | _ \<Rightarrow> False)"

lemma to_float_errors: "to_float lib j = Inl e \<Longrightarrow> item_swallowed e \<or> (e = OverflowError \<and> (\<exists>i. j = JInt i \<and> 2 ^ 1024 - 2 ^ 970 \<le> \<bar>i\<bar>))"
  by (cases j) (auto simp: to_float_def as_float_def item_swallowed_def split: option.splits if_splits)

lemma to_int_errors: "to_int lib j = Inl e \<Longrightarrow> item_swallowed e"
  by (cases j) (auto simp: to_int_def item_swallowed_def split: option.splits)

lemma parse_item_cases:
  "case parse_item lib item of Inl e \<Rightarrow> item_swallowed e \<or> (e = OverflowError \<and> oversized (JObj item))
   | Inr None \<Rightarrow> True | Inr (Some c) \<Rightarrow> well_formed_claim c"
proof (cases "to_float lib (item_get item ''confidence'' (JNum 0))")
  case (Inl e)
  then show ?thesis using to_float_errors [OF Inl] by (auto simp: parse_item_def oversized_def)
next
  case (Inr q)
  show ?thesis
  proof (cases "q < MIN_CONFIDENCE")
    case False
    then show ?thesis
      using Inr to_int_errors [of lib "item_get item ''polarity'' (JInt 0)"]
      by (cases "to_int lib (item_get item ''polarity'' (JInt 0))") (auto simp: parse_item_def well_formed_claim_def)
  qed (simp add: parse_item_def Inr)
qed

lemma parse_items_cases:
  "case parse_items lib js of Inl e \<Rightarrow> e = OverflowError \<and> list_ex oversized js | Inr cs \<Rightarrow> list_all well_formed_claim cs"
proof (induction js)
  case (Cons j js)
  show ?case
  proof (cases "\<exists>item. j = JObj item")
    case True
    then obtain item where j: "j = JObj item" by blast
    show ?thesis
    proof (cases "parse_item lib item")
      case (Inl e)
      then show ?thesis using Cons.IH parse_item_cases [where lib = lib and item = item] by (cases "item_swallowed e") (auto simp: j split: sum.splits)
    next
      case (Inr r)
      then show ?thesis using Cons.IH parse_item_cases [where lib = lib and item = item]
        by (cases r; cases "parse_items lib js") (auto simp: j)
    qed
  next
    case False
    then have "parse_items lib (j # js) = parse_items lib js" by (cases j) auto
    then show ?thesis using Cons.IH by (auto split: sum.splits)
  qed
qed simp


text \<open>\<^verbatim>\<open>parse_claims_json\<close> is documented never to raise, but one item whose confidence is the integer \<open>2 ^ 1024\<close> makes it raise
  \<^verbatim>\<open>OverflowError\<close>, and the good claims beside it are lost.\<close>

theorem huge_confidence_escapes:
  assumes "pl_loads lib (unfenced raw) = Loaded (JList [JObj [(''confidence'', JInt 1), (''claim_text'', JStr ''ok'')], JObj [(''confidence'', JInt (2 ^ 1024))]])"
  shows "parse_claims_json lib raw = Inl OverflowError"
  using assms by (simp add: parse_claims_json_def parse_item_def item_get_def to_float_def as_float_def to_int_def MIN_CONFIDENCE_def item_swallowed_def)

lemma huge_confidence_escapes_witness:
  "parse_claims_json \<lparr>pl_loads = (\<lambda>_. Loaded (JList [JObj [(''confidence'', JInt 1), (''claim_text'', JStr ''ok'')], JObj [(''confidence'', JInt (2 ^ 1024))]])),
     pl_float = (\<lambda>_. None), pl_int = (\<lambda>_. None), pl_repr = (\<lambda>_. [])\<rparr> ''[]'' = Inl OverflowError"
  by (rule huge_confidence_escapes) simp

end
