(* ===== verification/Extract_Store.thy ===== *)
theory Extract_Store
  imports Extract Ingest_Effects
begin

text \<open>
  \<^verbatim>\<open>parallax/extract\<close>, the part that reads and writes the store: the ingest of extracted claims (\<^verbatim>\<open>ingest.py\<close>), the
  detection of contradicted claims (\<^verbatim>\<open>conflict.py\<close>), the review queue (\<^verbatim>\<open>review.py\<close>) and the shadow write (\<^verbatim>\<open>shadow.py\<close>).
  What the calls of one batch read from clock and ULIDs is a sequence of \<open>ingest_env\<close>.
\<close>

section \<open>Ingest\<close>

definition claim_predicate :: "RawClaim \<Rightarrow> pystr" where
  "claim_predicate raw = rc_claim_type raw @ ''/'' @ dec_signed (rc_polarity raw)"

definition ingest_raw :: "digests \<Rightarrow> ingest_env \<Rightarrow> pystr \<Rightarrow> pystr option \<Rightarrow> pystr \<Rightarrow> RawClaim \<Rightarrow> pystr kernel_op" where
  "ingest_raw h env user_id source_id state raw =
    ingest_claim h env user_id (rc_entity raw) (claim_predicate raw) (rc_claim_text raw) source_id (Some (rc_confidence raw)) state"

fun ingest_raws :: "digests \<Rightarrow> (nat \<Rightarrow> ingest_env) \<Rightarrow> pystr \<Rightarrow> pystr option \<Rightarrow> nat \<Rightarrow> RawClaim list \<Rightarrow> pystr list kernel_op" where
  "ingest_raws h env user_id source_id n [] = return_st []"
| "ingest_raws h env user_id source_id n (raw # raws) =
    bind_st (ingest_raw h (env n) user_id source_id ''auto'' raw) (\<lambda>i.
      bind_st (ingest_raws h env user_id source_id (Suc n) raws) (\<lambda>ids. return_st (i # ids)))"

definition extract_and_ingest ::
  "digests \<Rightarrow> (nat \<Rightarrow> ingest_env) \<Rightarrow> pystr \<Rightarrow> Provider \<Rightarrow> pystr \<Rightarrow> pystr option \<Rightarrow> pystr list kernel_op" where
  "extract_and_ingest h env s provider user_id source_id =
    (if s = [] \<or> strip s = [] then return_st []
     else case extract_claims s provider of Inl e \<Rightarrow> raise_st e
       | Inr raws \<Rightarrow> if raws = [] then return_st [] else ingest_raws h env user_id source_id 0 raws)"

section \<open>Conflicts\<close>

definition CONFLICT_THRESHOLD :: rat where
  "CONFLICT_THRESHOLD = 4 / 10"

record Conflict =
  cf_new_claim :: RawClaim
  cf_existing_claim_id :: pystr
  cf_existing_claim_text :: pystr
  cf_similarity :: rat

text \<open>The class \<^verbatim>\<open>\w\<close> on the characters of the model.\<close>

definition word_char :: "char \<Rightarrow> bool" where
  "word_char c \<longleftrightarrow> (let n = (of_char c :: nat) in (48 \<le> n \<and> n \<le> 57) \<or> (65 \<le> n \<and> n \<le> 90) \<or> n = 95 \<or> (97 \<le> n \<and> n \<le> 122) \<or>
     n \<in> {170, 178, 179, 181, 185, 186, 188, 189, 190} \<or> (192 \<le> n \<and> n \<noteq> 215 \<and> n \<noteq> 247))"

definition word_tokens :: "pystr \<Rightarrow> pystr set" where
  "word_tokens s = set (runs_of word_char (lower s))"

definition token_overlap :: "pystr \<Rightarrow> pystr \<Rightarrow> rat" where
  "token_overlap a b = (let sa = word_tokens a; sb = word_tokens b in
     if sa = {} \<or> sb = {} then 0 else of_nat (card (sa \<inter> sb)) / of_nat (card (sa \<union> sb)))"

definition opposite_polarity_predicates :: "int \<Rightarrow> pystr \<Rightarrow> pystr list" where
  "opposite_polarity_predicates new_polarity claim_type =
    map (\<lambda>p. claim_type @ ''/'' @ dec_signed p)
      (if new_polarity = 0 then [1, -1] else if 0 < new_polarity then [-1, 0] else [1, 0])"

definition contradicts :: "RawClaim \<Rightarrow> pystr \<Rightarrow> claim_row \<Rightarrow> bool" where
  "contradicts new user_id c \<longleftrightarrow> clm_user_id c = user_id \<and> clm_subject c = rc_entity new \<and>
     clm_predicate c \<in> set (opposite_polarity_predicates (rc_polarity new) (rc_claim_type new))"

definition conflict_of :: "RawClaim \<Rightarrow> claim_row \<Rightarrow> Conflict" where
  "conflict_of new c = \<lparr>cf_new_claim = new, cf_existing_claim_id = clm_id c, cf_existing_claim_text = clm_object c,
     cf_similarity = of_int (py_round (token_overlap (clm_object c) (rc_claim_text new) * 10000)) / 10000\<rparr>"

definition detect_conflicts :: "db \<Rightarrow> RawClaim \<Rightarrow> pystr \<Rightarrow> Conflict list" where
  "detect_conflicts d new user_id =
    map (conflict_of new) (filter (\<lambda>c. CONFLICT_THRESHOLD < token_overlap (clm_object c) (rc_claim_text new))
      (filter (contradicts new user_id) (claims d)))"

section \<open>The review queue\<close>

definition queue_pending :: "digests \<Rightarrow> ingest_env \<Rightarrow> RawClaim \<Rightarrow> pystr \<Rightarrow> pystr option \<Rightarrow> pystr kernel_op" where
  "queue_pending h env raw user_id source_id = ingest_raw h env user_id source_id ''pending'' raw"

definition list_pending :: "db \<Rightarrow> pystr \<Rightarrow> counter_registry \<Rightarrow> claim_row list \<times> counter_registry" where
  "list_pending d user_id r = claims_by_user d user_id (Some ''pending'') r"

record review_call =
  rv_claim_id :: pystr
  rv_to_state :: pystr
  rv_updated_at :: pystr
  rv_now :: pystr
  rv_event_id :: pystr

text \<open>One transaction; an exception rolls it back.\<close>

definition review_transition :: "review_call \<Rightarrow> db \<Rightarrow> (kernel_error + unit) \<times> db" where
  "review_transition c d =
    (case is_allowed_transition ''claim'' ''pending'' (rv_to_state c) of
       Inl e \<Rightarrow> (Inl e, d)
     | Inr False \<Rightarrow> (Inl (TransitionNotAllowed ''pending'' (rv_to_state c)), d)
     | Inr True \<Rightarrow>
        (let upd = update_claims (\<lambda>x. clm_id x = rv_claim_id c \<and> clm_state x = ''pending'')
               (set_claim_state (rv_to_state c) (rv_updated_at c)) d
         in if fst upd = 0
            then (case List.find (\<lambda>x. clm_id x = rv_claim_id c) (claims d) of
                None \<Rightarrow> (Inl (ClaimNotFound (rv_claim_id c)), d)
              | Some x \<Rightarrow> (Inl (NotPending (rv_claim_id c) (clm_state x)), d))
            else (case List.find (\<lambda>x. clm_id x = rv_claim_id c) (claims (snd upd)) of
                None \<Rightarrow> (Inl TypeError, d)
              | Some x \<Rightarrow> (case record_claim_state_changed (rv_now c) (rv_event_id c) (clm_user_id x) (rv_claim_id c) ''pending''
                      (rv_to_state c) (Some (rv_updated_at c)) ''system'' (snd upd) of
                  Inl e \<Rightarrow> (Inl e, d) | Inr (_, d') \<Rightarrow> (Inr (), d')))))"

definition approve :: "pystr \<Rightarrow> pystr \<Rightarrow> pystr \<Rightarrow> pystr \<Rightarrow> db \<Rightarrow> (kernel_error + unit) \<times> db" where
  "approve claim_id updated_at now event_id = review_transition
    \<lparr>rv_claim_id = claim_id, rv_to_state = ''confirmed'', rv_updated_at = updated_at, rv_now = now, rv_event_id = event_id\<rparr>"

definition reject :: "pystr \<Rightarrow> pystr \<Rightarrow> pystr \<Rightarrow> pystr \<Rightarrow> db \<Rightarrow> (kernel_error + unit) \<times> db" where
  "reject claim_id updated_at now event_id = review_transition
    \<lparr>rv_claim_id = claim_id, rv_to_state = ''rejected'', rv_updated_at = updated_at, rv_now = now, rv_event_id = event_id\<rparr>"

section \<open>The shadow write\<close>

text \<open>The one log record of a call: the claim ids, or the exception that was swallowed.\<close>

datatype shadow_record = ShadowInfo "pystr list" | ShadowWarning kernel_error

definition shadow_write ::
  "digests \<Rightarrow> (nat \<Rightarrow> ingest_env) \<Rightarrow> pystr \<Rightarrow> Provider \<Rightarrow> pystr \<Rightarrow> pystr option \<Rightarrow> kernel \<Rightarrow> pystr list \<times> shadow_record \<times> kernel" where
  "shadow_write h env s provider user_id source_id k =
    (case extract_and_ingest h env s provider user_id source_id k of
       (Inl e, k') \<Rightarrow> ([], ShadowWarning e, k') | (Inr ids, k') \<Rightarrow> (ids, ShadowInfo ids, k'))"

section \<open>What ingest stores, detection finds\<close>

lemma opposite_predicates:
  assumes "p \<in> {-1, 0, 1}" "sgn p \<noteq> sgn q"
  shows "ty @ ''/'' @ dec_signed p \<in> set (opposite_polarity_predicates q ty)"
  using assms by (cases q "0 :: int" rule: linorder_cases) (auto simp: opposite_polarity_predicates_def)

text \<open>C21: A claim that \<^verbatim>\<open>extract_and_ingest\<close> has stored is found by \<^verbatim>\<open>detect_conflicts\<close> for every later claim about the same entity and
  of the same type whose polarity has another sign, if more than 40 percent of their words agree: the two modules read and write the
  same predicate texts.\<close>

theorem stored_claim_is_detected:
  assumes "resolve_source u sid = Inr s" "row_ulid env \<notin> clm_id ` set (claims (k_db k))" "evt_ulid env \<notin> evt_id ` set (events (k_db k))"
    "claim_key (candidate_claim h env u (rc_entity raw) (claim_predicate raw) (rc_claim_text raw) (Some (rc_confidence raw)) ''auto'' s)
      \<notin> claim_key ` set (claims (k_db k))"
    "ingest_raw h env u sid ''auto'' raw k = (r, k')"
    "rc_polarity raw \<in> {-1, 0, 1}" "sgn (rc_polarity raw) \<noteq> sgn (rc_polarity new)"
    "rc_entity new = rc_entity raw" "rc_claim_type new = rc_claim_type raw"
    "CONFLICT_THRESHOLD < token_overlap (rc_claim_text raw) (rc_claim_text new)"
  shows "r = Inr (row_ulid env) \<and> (\<exists>c \<in> set (detect_conflicts (k_db k') new u).
    cf_existing_claim_id c = row_ulid env \<and> cf_existing_claim_text c = rc_claim_text raw)"
proof -
  let ?c = "candidate_claim h env u (rc_entity raw) (claim_predicate raw) (rc_claim_text raw) (Some (rc_confidence raw)) ''auto'' s"
  have auto: "map_of CLAIM_TRANSITIONS ''auto'' \<noteq> None" by code_simp
  obtain k1 where g: "ingest_claim_with_status h env u (rc_entity raw) (claim_predicate raw) (rc_claim_text raw) sid (Some (rc_confidence raw)) ''auto'' k =
      (Inr (row_ulid env, False), k1)" and x: "claims (k_db k1) = claims (k_db k) @ [?c]"
    using claim_ingested_new [OF assms(1-4) auto] by blast
  have "ingest_raw h env u sid ''auto'' raw k = (Inr (row_ulid env), k1)"
    by (simp add: ingest_raw_def ingest_claim_def bind_st_def g return_st_def)
  then have r: "r = Inr (row_ulid env)" "k' = k1" using assms(5) by simp_all
  have row: "clm_id ?c = row_ulid env" "clm_object ?c = rc_claim_text raw" "contradicts new u ?c"
    using opposite_predicates [OF assms(6,7)] assms(8,9) by (simp_all add: candidate_claim_def contradicts_def claim_predicate_def)
  have "conflict_of new ?c \<in> set (detect_conflicts (k_db k') new u)"
    using row assms(10) x r(2) by (auto simp: detect_conflicts_def)
  then show ?thesis using r row by (intro conjI bexI [of _ "conflict_of new ?c"]) (simp_all add: conflict_of_def)
qed

definition raw_claim :: "pystr \<Rightarrow> int \<Rightarrow> RawClaim" where
  "raw_claim txt p = \<lparr>rc_entity = ''e'', rc_claim_text = txt, rc_polarity = p, rc_confidence = 1, rc_claim_type = ''risk'', rc_evidence = []\<rparr>"

lemma stored_claim_is_detected_witness:
  "\<exists>r k'. ingest_raw demo_digests (demo_env ''1'') ''u'' None ''auto'' (raw_claim ''it is fast'' 1) demo_kernel = (r, k') \<and>
    detect_conflicts (k_db k') (raw_claim ''it is not fast'' (-1)) ''u'' \<noteq> []"
proof -
  obtain r k' where i: "ingest_raw demo_digests (demo_env ''1'') ''u'' None ''auto'' (raw_claim ''it is fast'' 1) demo_kernel = (r, k')"
    by (metis surj_pair)
  have s: "resolve_source ''u'' None = Inr (synthetic_direct_source_id ''u'')" by (simp add: resolve_source_def)
  have e: "claims (k_db demo_kernel) = []" "events (k_db demo_kernel) = []" by (simp_all add: demo_kernel_def empty_db_def)
  have t: "CONFLICT_THRESHOLD < token_overlap ''it is fast'' ''it is not fast''" by code_simp
  have "\<exists>c \<in> set (detect_conflicts (k_db k') (raw_claim ''it is not fast'' (-1)) ''u'').
      cf_existing_claim_id c = row_ulid (demo_env ''1'') \<and> cf_existing_claim_text c = rc_claim_text (raw_claim ''it is fast'' 1)"
    by (rule conjunct2 [OF stored_claim_is_detected [OF s _ _ _ i]]) (simp_all add: e raw_claim_def t)
  with i show ?thesis by (intro exI conjI) auto
qed

section \<open>A claim is reviewed once\<close>

datatype review_op = Approve pystr pystr pystr pystr | Reject pystr pystr pystr pystr

fun op_claim :: "review_op \<Rightarrow> pystr" where
  "op_claim (Approve i u t e) = i"
| "op_claim (Reject i u t e) = i"

fun run_op :: "review_op \<Rightarrow> db \<Rightarrow> (kernel_error + unit) \<times> db" where
  "run_op (Approve i u t e) = approve i u t e"
| "run_op (Reject i u t e) = reject i u t e"

fun run_reviews :: "review_op list \<Rightarrow> db \<Rightarrow> (review_op \<times> (kernel_error + unit)) list \<times> db" where
  "run_reviews [] d = ([], d)"
| "run_reviews (c # cs) d = (let (r, d') = run_op c d; (rs, d'') = run_reviews cs d' in ((c, r) # rs, d''))"

definition is_pending :: "pystr \<Rightarrow> db \<Rightarrow> bool" where
  "is_pending i d \<longleftrightarrow> (\<exists>x \<in> set (claims d). clm_id x = i \<and> clm_state x = ''pending'')"

definition decided :: "pystr \<Rightarrow> review_op \<times> (kernel_error + unit) \<Rightarrow> bool" where
  "decided i cr \<longleftrightarrow> op_claim (fst cr) = i \<and> ok (snd cr)"

lemma review_cases:
  assumes "review_transition c d = (r, d')" and st: "rv_to_state c \<noteq> ''pending''"
  obtains e where "r = Inl e" "d' = d"
  | "r = Inr ()" "is_pending (rv_claim_id c) d" "\<not> is_pending (rv_claim_id c) d'"
    "\<And>i. is_pending i d' \<Longrightarrow> is_pending i d" "length (events d') = Suc (length (events d))"
proof (cases "is_allowed_transition ''claim'' ''pending'' (rv_to_state c)")
  case (Inl e)
  with assms(1) have "r = Inl e" "d' = d" by (simp_all add: review_transition_def)
  then show ?thesis by (rule that(1))
next
  case (Inr b)
  let ?P = "\<lambda>x. clm_id x = rv_claim_id c \<and> clm_state x = ''pending''" and ?f = "set_claim_state (rv_to_state c) (rv_updated_at c)"
  obtain n d1 where u: "update_claims ?P ?f d = (n, d1)" by (rule prod.exhaust)
  show ?thesis
  proof (cases b)
    case False
    with assms(1) Inr have "r = Inl (TransitionNotAllowed ''pending'' (rv_to_state c))" "d' = d" by (simp_all add: review_transition_def)
    then show ?thesis by (rule that(1))
  next
    case True
    then have allowed: "is_allowed_transition ''claim'' ''pending'' (rv_to_state c) = Inr True" using Inr by simp
    show ?thesis
    proof (cases "n = 0")
      case True
      with assms(1) allowed u have "(\<exists>e. r = Inl e) \<and> d' = d"
        by (cases "List.find (\<lambda>x. clm_id x = rv_claim_id c) (claims d)") (auto simp: review_transition_def)
      then show ?thesis using that(1) by blast
    next
      case False
      show ?thesis
      proof (cases "List.find (\<lambda>x. clm_id x = rv_claim_id c) (claims d1)")
        case None
        with assms(1) allowed u False have "r = Inl TypeError" "d' = d" by (simp_all add: review_transition_def)
        then show ?thesis by (rule that(1))
      next
        case (Some x)
        let ?rec = "record_claim_state_changed (rv_now c) (rv_event_id c) (clm_user_id x) (rv_claim_id c) ''pending''
                      (rv_to_state c) (Some (rv_updated_at c)) ''system'' d1"
        show ?thesis
        proof (cases ?rec)
          case (Inl e)
          with assms(1) allowed u False Some have "r = Inl e" "d' = d" by (simp_all add: review_transition_def)
          then show ?thesis by (rule that(1))
        next
          case (Inr y)
          obtain eid d2 where y: "y = (eid, d2)" by (cases y)
          with Inr assms allowed u False Some have r: "r = Inr ()" "d' = d2" by (simp_all add: review_transition_def)
          have d1: "n = length (filter ?P (claims d))" "d1 = d\<lparr>claims := map (\<lambda>x. if ?P x then ?f x else x) (claims d)\<rparr>"
            using u by (simp_all add: update_claims_def)
          obtain e where ev: "d2 = d1\<lparr>events := events d1 @ [e]\<rparr>"
            using record_event_cases(2) [OF Inr [unfolded y record_claim_state_changed_def]] by blast
          have p: "is_pending (rv_claim_id c) d"
            using False d1(1) by (auto simp: is_pending_def filter_empty_conv)
          have sub: "is_pending i d2 \<Longrightarrow> is_pending i d \<and> i \<noteq> rv_claim_id c" for i
            using st by (auto simp: is_pending_def ev d1(2) set_claim_state_def split: if_splits)
          show ?thesis
          proof (rule that(2) [OF r(1) p])
            show "\<not> is_pending (rv_claim_id c) d'" using sub r(2) by blast
            show "is_pending i d' \<Longrightarrow> is_pending i d" for i using sub r(2) by blast
            show "length (events d') = Suc (length (events d))" by (simp add: r(2) ev d1(2))
          qed
        qed
      qed
    qed
  qed
qed

lemma op_cases:
  assumes "run_op c d = (r, d')"
  obtains e where "r = Inl e" "d' = d"
  | "r = Inr ()" "is_pending (op_claim c) d" "\<not> is_pending (op_claim c) d'"
    "\<And>i. is_pending i d' \<Longrightarrow> is_pending i d" "length (events d') = Suc (length (events d))"
proof (cases c)
  case (Approve i u t e)
  from assms [unfolded Approve run_op.simps approve_def] show ?thesis
    by (rule review_cases) (simp, use that Approve in auto)
next
  case (Reject i u t e)
  from assms [unfolded Reject run_op.simps reject_def] show ?thesis
    by (rule review_cases) (simp, use that Reject in auto)
qed

lemma reviews_of_decided:
  "\<not> is_pending i d \<Longrightarrow> filter (decided i) (fst (run_reviews cs d)) = []"
proof (induction cs arbitrary: d)
  case (Cons c cs)
  obtain r d' where s: "run_op c d = (r, d')" by (metis surj_pair)
  obtain rs d'' where t: "run_reviews cs d' = (rs, d'')" by (metis surj_pair)
  from s show ?case
  proof (cases rule: op_cases)
    case (1 e)
    then show ?thesis using Cons.IH [of d] Cons.prems t by (simp add: s decided_def)
  next
    case 2
    then show ?thesis using Cons.IH [of d'] Cons.prems t by (auto simp: s decided_def)
  qed
qed simp

text \<open>C39: In any sequence of approvals and rejections, by any number of reviewers, at most one call decides a claim, and every
  decision, and nothing else, adds one event to the log; a call that raises changes nothing.\<close>

theorem review_decides_once:
  "length (filter (decided i) (fst (run_reviews cs d))) \<le> 1 \<and>
   length (events (snd (run_reviews cs d))) = length (events d) + length (filter (ok \<circ> snd) (fst (run_reviews cs d)))"
proof (induction cs arbitrary: d)
  case (Cons c cs)
  obtain r d' where s: "run_op c d = (r, d')" by (metis surj_pair)
  obtain rs d'' where t: "run_reviews cs d' = (rs, d'')" by (metis surj_pair)
  note IH = Cons.IH [of d', unfolded t fst_conv snd_conv]
  from s show ?case
  proof (cases rule: op_cases)
    case (1 e)
    then show ?thesis using IH t by (simp add: s decided_def)
  next
    case 2
    then show ?thesis using IH t reviews_of_decided [of "op_claim c" d' cs] by (auto simp: s decided_def [abs_def])
  qed
qed simp

section \<open>The store invariant\<close>

lemma ingest_raw_ok: "keeps_db db_ok (ingest_raw h env u sid st raw)"
  unfolding ingest_raw_def ingest_claim_def
  by (intro keeps_db_bind keeps_db_ingest_claim) (simp add: keeps_db_basic split: prod.split)

lemma ingest_raws_ok: "keeps_db db_ok (ingest_raws h env u sid n raws)"
  by (induction raws arbitrary: n) (auto intro!: keeps_db_bind keeps_db_basic ingest_raw_ok)

text \<open>The shadow write leaves a sound store, whatever the provider returned and wherever it stopped.\<close>

lemma shadow_write_ok:
  assumes "db_ok (k_db k)" "shadow_write h env s provider u sid k = (ids, l, k')"
  shows "db_ok (k_db k')"
proof -
  have "keeps_db db_ok (extract_and_ingest h env s provider u sid)"
    unfolding extract_and_ingest_def using ingest_raws_ok keeps_db_basic by (auto split: sum.split)
  then have "db_ok (k_db (snd (extract_and_ingest h env s provider u sid k)))"
    using assms(1) by (simp add: keeps_db_def keeps_def)
  then show ?thesis using assms(2) by (auto simp: shadow_write_def split: prod.splits sum.splits)
qed

end
