(* ===== verification/Json_Text.thy ===== *)
theory Json_Text
  imports Canonical_Json
begin

text \<open>
  \<^verbatim>\<open>json.dumps(value, sort_keys=True)\<close> with its defaults: items separated by a comma and a space, and every character
  outside printable ASCII escaped. The text of a float is a parameter, as in \<open>Canonical_Json\<close>. Proved: such a text is
  printable, so it is one line and has no space at either end when it is an object.
\<close>

definition ascii_char :: "char \<Rightarrow> pystr" where
  "ascii_char c = (let n = (of_char c :: nat) in
     if 127 \<le> n then [CHR 0x5C, CHR ''u'', CHR ''0'', CHR ''0''] @ hex2 n else escape_char c)"

definition ascii_quoted :: "pystr \<Rightarrow> pystr" where
  "ascii_quoted s = [CHR 0x22] @ concat (map ascii_char s) @ [CHR 0x22]"

fun json_text :: "(rat \<Rightarrow> pystr) \<Rightarrow> json \<Rightarrow> pystr"
  and json_texts :: "(rat \<Rightarrow> pystr) \<Rightarrow> json list \<Rightarrow> pystr"
  and json_items :: "(rat \<Rightarrow> pystr) \<Rightarrow> (pystr \<times> json) list \<Rightarrow> pystr" where
  "json_text f JNull = ''null''"
| "json_text f (JBool b) = (if b then ''true'' else ''false'')"
| "json_text f (JInt i) = dec i"
| "json_text f (JNum r) = f r"
| "json_text f (JStr s) = ascii_quoted s"
| "json_text f (JList xs) = ''['' @ json_texts f xs @ '']''"
| "json_text f (JObj kvs) = ''{'' @ json_items f kvs @ ''}''"
| "json_texts f [] = []"
| "json_texts f (x # xs) = json_text f x @ (if xs = [] then [] else '', '' @ json_texts f xs)"
| "json_items f [] = []"
| "json_items f ((k, v) # kvs) = ascii_quoted k @ '': '' @ json_text f v @ (if kvs = [] then [] else '', '' @ json_items f kvs)"

definition dumps_default :: "(rat \<Rightarrow> pystr) \<Rightarrow> json \<Rightarrow> pystr" where
  "dumps_default f j = json_text f (sort_json j)"

definition printable :: "char \<Rightarrow> bool" where
  "printable c \<longleftrightarrow> 32 \<le> (of_char c :: nat) \<and> (of_char c :: nat) < 127"

text \<open>Every float is written in printable characters.\<close>

definition plain_floats :: "(rat \<Rightarrow> pystr) \<Rightarrow> bool" where
  "plain_floats f \<longleftrightarrow> (\<forall>r. list_all printable (f r))"

lemma hexchar_printable: "n < 16 \<Longrightarrow> printable (hexchar n)"
  by (simp add: printable_def)

lemma hex2_printable: "n < 256 \<Longrightarrow> list_all printable (hex2 n)"
  by (simp add: hex2_def hexchar_printable del: hexchar.simps)

lemma ascii_char_printable: "list_all printable (ascii_char c)"
proof -
  have n: "(of_char c :: nat) < 256" by simp
  show ?thesis
  proof (cases "127 \<le> (of_char c :: nat)")
    case True
    then show ?thesis using hex2_printable [OF n] by (simp add: ascii_char_def) (simp add: printable_def)
  next
    case False
    then show ?thesis
      using hex2_printable [OF n] by (auto simp: ascii_char_def escape_char_def printable_def Let_def)
  qed
qed

lemma ascii_quoted_printable: "list_all printable (ascii_quoted s)"
proof -
  have "list_all printable (concat (map ascii_char s))"
    using ascii_char_printable by (induction s) simp_all
  then show ?thesis by (simp add: ascii_quoted_def) (simp add: printable_def)
qed

lemma digit_printable: "ascii_digit c \<Longrightarrow> printable c"
  by (simp add: ascii_digit_def printable_def Let_def)

lemma dec_printable: "list_all printable (dec i)"
proof -
  have "list_all printable (dec_nat n)" for n
    using dec_nat_ascii [of n] digit_printable by (auto simp: list_all_iff)
  then show ?thesis by (simp add: dec_def) (simp add: printable_def)
qed

lemma json_text_printable:
  assumes "plain_floats f"
  shows "list_all printable (json_text f j)" "list_all printable (json_texts f js)" "list_all printable (json_items f kvs)"
  using assms dec_printable ascii_quoted_printable
  by (induction f j and f js and f kvs rule: json_text_json_texts_json_items.induct)
    (simp_all add: plain_floats_def, simp_all add: printable_def)

lemma printable_plain: "printable c \<Longrightarrow> \<not> (of_char c :: nat) < 32 \<and> c \<noteq> CHR 0x0A"
  by (auto simp: printable_def)

end
