(* ===== verification/Shadow_Log.thy ===== *)
theory Shadow_Log
  imports Json_Text Extract Dual_Read_Metrics
begin

text \<open>
  \<^verbatim>\<open>shadow/discrepancy.py\<close> and \<^verbatim>\<open>src/scripts/shadow_continuity_check.py\<close>: the reader of the daily files the shadow interceptor
  writes, the two rates over a window, the chain of digests and the report of the continuity check. A file is its text;
  \<^verbatim>\<open>json.loads\<close> is the parameter of \<open>Extract\<close>. Proved: equal chains mean equal lines in the same order, and on a log that
  the interceptor wrote every record is consistent and the rate counts exactly the queries whose verdict was a divergence.
\<close>

section \<open>The files\<close>

datatype shadow_file = ShadowUnreadable | ShadowNotUtf8 | ShadowText pystr

record shadow_dir =
  sh_missing :: bool
  sh_files :: "(pystr \<times> shadow_file) list"

record shadow_load =
  sl_records :: "row list"
  sl_raw_lines :: "pystr list"
  sl_malformed :: nat

record shadow_reader =
  rd_other :: "pystr \<Rightarrow> int option"
  rd_lib :: parse_lib
  rd_float_text :: "rat \<Rightarrow> pystr"
  rd_digests :: digests

definition SHADOW_PREFIX :: pystr where
  "SHADOW_PREFIX = ''shadow-decisions-''"

text \<open>One line: blank, malformed, an exception that nobody catches, or a record with its time and its text.\<close>

datatype shadow_line = ShadowBlank | ShadowBad | ShadowRaised kernel_error | ShadowRecord int row pystr

definition shadow_line_of :: "shadow_reader \<Rightarrow> pystr \<Rightarrow> shadow_line" where
  "shadow_line_of rd raw =
    (let stripped = strip raw in
     if stripped = [] then ShadowBlank
     else case pl_loads (rd_lib rd) stripped of NotJson \<Rightarrow> ShadowBad | LoadsRaised e \<Rightarrow> ShadowRaised e
       | Loaded (JObj parsed) \<Rightarrow> (case map_of parsed ''timestamp'' of
            Some (JStr s) \<Rightarrow> (case fromisoformat (rd_other rd) s of None \<Rightarrow> ShadowBad | Some ts \<Rightarrow> ShadowRecord ts parsed stripped)
          | _ \<Rightarrow> ShadowBad)
       | Loaded _ \<Rightarrow> ShadowBad)"

fun shadow_lines :: "shadow_reader \<Rightarrow> bool \<Rightarrow> pystr list \<Rightarrow> kernel_error + (int \<times> row \<times> pystr) list \<times> nat" where
  "shadow_lines rd counted [] = Inr ([], 0)"
| "shadow_lines rd counted (raw # raws) =
    (case shadow_line_of rd raw of
       ShadowRaised e \<Rightarrow> Inl e
     | ShadowBlank \<Rightarrow> shadow_lines rd counted raws
     | ShadowBad \<Rightarrow> and_then (shadow_lines rd counted raws) (\<lambda>(rs, m). Inr (rs, if counted then Suc m else m))
     | ShadowRecord ts r line \<Rightarrow> and_then (shadow_lines rd counted raws) (\<lambda>(rs, m). Inr ((ts, r, line) # rs, m)))"

fun shadow_files :: "shadow_reader \<Rightarrow> cutoff \<Rightarrow> (pystr \<times> shadow_file) list \<Rightarrow> kernel_error + (int \<times> row \<times> pystr) list \<times> nat" where
  "shadow_files rd coff [] = Inr ([], 0)"
| "shadow_files rd coff ((name, f) # fs) =
    (case f of
       ShadowUnreadable \<Rightarrow> shadow_files rd coff fs
     | ShadowNotUtf8 \<Rightarrow> Inl (ValueError ''utf-8'')
     | ShadowText s \<Rightarrow>
        and_then (shadow_lines rd (file_in_window coff (file_date SHADOW_PREFIX name)) (splitlines_from [] s)) (\<lambda>(rs, m).
          and_then (shadow_files rd coff fs) (\<lambda>(rs', m'). Inr (rs @ rs', m + m'))))"

definition shadow_load_records :: "shadow_reader \<Rightarrow> int option \<Rightarrow> int \<Rightarrow> shadow_dir \<Rightarrow> kernel_error + shadow_load" where
  "shadow_load_records rd since now d =
    (if sh_missing d then Inr \<lparr>sl_records = [], sl_raw_lines = [], sl_malformed = 0\<rparr>
     else and_then (case since of None \<Rightarrow> Inr None
            | Some w \<Rightarrow> (case day_text (now - w) of None \<Rightarrow> Inl OverflowError | Some day \<Rightarrow> Inr (Some (now - w, day))))
       (\<lambda>coff. and_then (shadow_files rd coff (sort_key fst (filter (\<lambda>f. log_glob SHADOW_PREFIX (fst f)) (sh_files d)))) (\<lambda>(rs, m).
         let kept = filter (\<lambda>t. case coff of None \<Rightarrow> True | Some (c, _) \<Rightarrow> c \<le> fst t) (sort_key fst rs)
         in Inr \<lparr>sl_records = map (fst \<circ> snd) kept, sl_raw_lines = map (snd \<circ> snd) kept, sl_malformed = m\<rparr>)))"

section \<open>The rates\<close>

definition is_diverge :: "row \<Rightarrow> bool" where
  "is_diverge r \<longleftrightarrow> map_of r ''arbitration_outcome'' = Some (JStr ''diverge'')"

definition shadow_load_window :: "shadow_reader \<Rightarrow> pystr \<Rightarrow> int \<Rightarrow> shadow_dir \<Rightarrow> kernel_error + shadow_load" where
  "shadow_load_window rd window now d = and_then (parse_window window) (\<lambda>w. shadow_load_records rd (Some w) now d)"

definition shadow_discrepancy_rate :: "shadow_reader \<Rightarrow> pystr \<Rightarrow> int \<Rightarrow> shadow_dir \<Rightarrow> kernel_error + rat" where
  "shadow_discrepancy_rate rd window now d = and_then (shadow_load_window rd window now d) (\<lambda>l.
     Inr (if sl_records l = [] then 0 else ratio (length (filter is_diverge (sl_records l))) (length (sl_records l))))"

definition CANONICAL_FIELDS :: "pystr list" where
  "CANONICAL_FIELDS = [''query_type'', ''selected_port'', ''crosswalk_status'', ''arbitration_outcome'', ''latency_ms'',
     ''correlation_id'', ''timestamp'', ''user_id'', ''schema_version'']"

definition is_record_consistent :: "shadow_reader \<Rightarrow> row \<Rightarrow> pystr \<Rightarrow> bool" where
  "is_record_consistent rd r raw_line \<longleftrightarrow>
    fst ` set r = set CANONICAL_FIELDS \<and>
    (case map_of r ''schema_version'' of Some (JStr sv) \<Rightarrow> startswith sv ''1.'' | _ \<Rightarrow> False) \<and>
    dumps_default (rd_float_text rd) (JObj r) = raw_line"

definition checksum_consistency :: "shadow_reader \<Rightarrow> pystr \<Rightarrow> int \<Rightarrow> shadow_dir \<Rightarrow> kernel_error + rat" where
  "checksum_consistency rd window now d = and_then (shadow_load_window rd window now d) (\<lambda>l.
     let n = length (sl_records l) + sl_malformed l in
     Inr (if n = 0 then 1
       else ratio (length (filter (\<lambda>(r, raw). is_record_consistent rd r raw) (zip (sl_records l) (sl_raw_lines l)))) n))"

section \<open>The chain\<close>

definition chain_text :: "pystr \<Rightarrow> pystr \<Rightarrow> pystr" where
  "chain_text digest line = (if digest = [] then line else digest @ [CHR 0x0A] @ line)"

definition chain_step :: "shadow_reader \<Rightarrow> pystr \<Rightarrow> row \<Rightarrow> pystr" where
  "chain_step rd digest r = sha256_hex (rd_digests rd) (chain_text digest (dumps_default (rd_float_text rd) (JObj r)))"

definition compute_checksum_chain :: "shadow_reader \<Rightarrow> row list \<Rightarrow> pystr" where
  "compute_checksum_chain rd rs = foldl (chain_step rd) [] rs"

section \<open>The continuity check\<close>

record check_args =
  ca_since :: pystr
  ca_threshold_discrepancy :: rat
  ca_threshold_checksum :: rat
  ca_min_records :: int

record check_report =
  cr_total_records :: nat
  cr_parsed_records :: nat
  cr_malformed :: nat
  cr_divergent :: nat
  cr_discrepancy_rate :: rat
  cr_checksum_consistency :: rat
  cr_chain_hash :: pystr
  cr_failures :: "pystr list"
  cr_passed :: bool

text \<open>The files are loaded three times; without \<^verbatim>\<open>--now\<close> each load reads the clock again.\<close>

definition build_report :: "shadow_reader \<Rightarrow> check_args \<Rightarrow> (nat \<Rightarrow> int) \<Rightarrow> shadow_dir \<Rightarrow> kernel_error + check_report" where
  "build_report rd args clock d =
    and_then (parse_window (ca_since args)) (\<lambda>delta.
    and_then (shadow_load_records rd (Some delta) (clock 0) d) (\<lambda>l.
    and_then (shadow_discrepancy_rate rd (ca_since args) (clock 1) d) (\<lambda>rate.
    and_then (checksum_consistency rd (ca_since args) (clock 2) d) (\<lambda>consistency.
      let n = length (sl_records l) + sl_malformed l;
          failures = (if int n < ca_min_records args then [''min_records''] else []) @
            (if ca_threshold_discrepancy args < rate then [''discrepancy_rate''] else []) @
            (if consistency < ca_threshold_checksum args then [''checksum_consistency''] else [])
      in Inr \<lparr>cr_total_records = n, cr_parsed_records = length (sl_records l), cr_malformed = sl_malformed l,
           cr_divergent = length (filter is_diverge (sl_records l)), cr_discrepancy_rate = rate,
           cr_checksum_consistency = consistency, cr_chain_hash = compute_checksum_chain rd (sl_records l),
           cr_failures = failures, cr_passed = (failures = [])\<rparr>))))"

definition exit_code :: "check_report \<Rightarrow> nat" where
  "exit_code r = (if cr_passed r then 0 else 1)"

section \<open>Equal chains, equal logs\<close>

definition record_line :: "shadow_reader \<Rightarrow> row \<Rightarrow> pystr" where
  "record_line rd r = dumps_default (rd_float_text rd) (JObj r)"

text \<open>The texts whose digests a chain takes.\<close>

fun chain_texts :: "shadow_reader \<Rightarrow> pystr \<Rightarrow> row list \<Rightarrow> pystr list" where
  "chain_texts rd digest [] = []"
| "chain_texts rd digest (r # rs) = chain_text digest (record_line rd r) # chain_texts rd (chain_step rd digest r) rs"

lemma chain_texts_append:
  "chain_texts rd g (rs @ ss) = chain_texts rd g rs @ chain_texts rd (foldl (chain_step rd) g rs) ss"
  by (induction rs arbitrary: g) simp_all

lemma chain_snoc:
  "compute_checksum_chain rd (rs @ [r]) = sha256_hex (rd_digests rd) (chain_text (compute_checksum_chain rd rs) (record_line rd r))"
  "chain_texts rd [] (rs @ [r]) = chain_texts rd [] rs @ [chain_text (compute_checksum_chain rd rs) (record_line rd r)]"
  by (simp_all add: compute_checksum_chain_def chain_step_def record_line_def chain_texts_append)

lemma line_without_newline:
  assumes "plain_floats (rd_float_text rd)"
  shows "CHR 0x0A \<notin> set (record_line rd r)"
proof -
  have "list_all printable (record_line rd r)"
    unfolding record_line_def dumps_default_def by (rule json_text_printable(1) [OF assms])
  moreover have "\<not> printable (CHR 0x0A)" by (simp add: printable_def)
  ultimately show ?thesis unfolding list_all_iff by blast
qed

lemma chain_text_determines:
  assumes "CHR 0x0A \<notin> set g" "CHR 0x0A \<notin> set g'" "CHR 0x0A \<notin> set l" "CHR 0x0A \<notin> set l'" "chain_text g l = chain_text g' l'"
  shows "g = g' \<and> l = l'"
proof (cases "g = [] \<longleftrightarrow> g' = []")
  case True
  then show ?thesis
  proof (cases "g = []")
    case False
    with True assms(5) have "g @ CHR 0x0A # l = g' @ CHR 0x0A # l'" by (simp add: chain_text_def)
    then show ?thesis using append_Cons_eq_iff [OF assms(1,3)] by blast
  qed (use True assms(5) in \<open>simp add: chain_text_def\<close>)
next
  case False
  then have "CHR 0x0A \<in> set l \<or> CHR 0x0A \<in> set l'"
    using assms(5) by (cases "g = []") (auto simp: chain_text_def)
  with assms(3,4) show ?thesis by blast
qed

text \<open>A digest that separates the texts it is applied to and is a word without a line feed.\<close>

definition digests_texts :: "digests \<Rightarrow> pystr set \<Rightarrow> bool" where
  "digests_texts h T \<longleftrightarrow> inj_on (sha256_hex h) T \<and> (\<forall>x \<in> T. sha256_hex h x \<noteq> [] \<and> CHR 0x0A \<notin> set (sha256_hex h x))"

lemma chain_nonempty:
  assumes "digests_texts (rd_digests rd) T" "set (chain_texts rd [] rs) \<subseteq> T"
  shows "CHR 0x0A \<notin> set (compute_checksum_chain rd rs) \<and> (compute_checksum_chain rd rs = [] \<longleftrightarrow> rs = [])"
proof (cases rs rule: rev_cases)
  case (snoc ss r)
  with assms show ?thesis by (auto simp: chain_snoc digests_texts_def)
qed (simp add: compute_checksum_chain_def)

lemma chain_injective:
  assumes f: "plain_floats (rd_float_text rd)" and h: "digests_texts (rd_digests rd) T"
  shows "set (chain_texts rd [] rs) \<subseteq> T \<Longrightarrow> set (chain_texts rd [] ss) \<subseteq> T \<Longrightarrow>
    compute_checksum_chain rd rs = compute_checksum_chain rd ss \<Longrightarrow> map (record_line rd) rs = map (record_line rd) ss"
proof (induction rs arbitrary: ss rule: rev_induct)
  case Nil
  have "compute_checksum_chain rd ss = []" using Nil.prems(3) [symmetric] by (simp add: compute_checksum_chain_def)
  with chain_nonempty [OF h Nil.prems(2)] show ?case by blast
next
  case (snoc r rs)
  have "ss \<noteq> []" using chain_nonempty [OF h snoc.prems(1)] chain_nonempty [OF h snoc.prems(2)] snoc.prems(3) by auto
  then obtain ss' s where ss: "ss = ss' @ [s]" by (metis rev_exhaust)
  let ?t = "chain_text (compute_checksum_chain rd rs) (record_line rd r)"
  let ?u = "chain_text (compute_checksum_chain rd ss') (record_line rd s)"
  have sub: "set (chain_texts rd [] rs) \<subseteq> T" "set (chain_texts rd [] ss') \<subseteq> T" "?t \<in> T" "?u \<in> T"
    using snoc.prems(1,2) by (simp_all add: ss chain_snoc)
  have "sha256_hex (rd_digests rd) ?t = sha256_hex (rd_digests rd) ?u" using snoc.prems(3) by (simp add: ss chain_snoc)
  with h sub(3,4) have "?t = ?u" unfolding digests_texts_def by (blast dest: inj_onD)
  with chain_text_determines [OF _ _ _ _ this] chain_nonempty [OF h sub(1)] chain_nonempty [OF h sub(2)] line_without_newline [OF f]
  have "compute_checksum_chain rd rs = compute_checksum_chain rd ss'" "record_line rd r = record_line rd s" by simp_all
  with snoc.IH [OF sub(1,2)] show ?case by (simp add: ss)
qed

text \<open>C30: Unless the digest collides on the texts the two computations hash, two sequences of records have the same chain exactly
  when they have the same lines in the same order: neither a record more or less, nor a changed field, nor another order keeps
  it. It rests on a line never holding a line feed, so that a digest with a line is not taken for a line.\<close>

theorem chain_determines_log:
  assumes "plain_floats (rd_float_text rd)"
    and "digests_texts (rd_digests rd) (set (chain_texts rd [] rs) \<union> set (chain_texts rd [] ss))"
  shows "compute_checksum_chain rd rs = compute_checksum_chain rd ss \<longleftrightarrow> map (record_line rd) rs = map (record_line rd) ss"
proof
  assume eq: "map (record_line rd) rs = map (record_line rd) ss"
  have "foldl (chain_step rd) g zs = foldl (\<lambda>g l. sha256_hex (rd_digests rd) (chain_text g l)) g (map (record_line rd) zs)" for g zs
    by (induction zs arbitrary: g) (simp_all add: chain_step_def record_line_def)
  then show "compute_checksum_chain rd rs = compute_checksum_chain rd ss" by (simp only: compute_checksum_chain_def eq)
qed (rule chain_injective [OF assms]; simp)

definition demo_reader :: shadow_reader where
  "demo_reader = \<lparr>rd_other = (\<lambda>_. None),
     rd_lib = \<lparr>pl_loads = (\<lambda>_. NotJson), pl_float = (\<lambda>_. None), pl_int = (\<lambda>_. None), pl_repr = (\<lambda>_. [])\<rparr>,
     rd_float_text = (\<lambda>_. ''0.5''),
     rd_digests = \<lparr>nfc = (\<lambda>s. s), sha256_hex = (\<lambda>s. ''d'' @ map (\<lambda>c. if c = CHR 0x0A then CHR ''-'' else c) s)\<rparr>\<rparr>"

lemma demo_lines: "record_line demo_reader [(''a'', JNull)] = ''{\"a\": null}''" "record_line demo_reader [(''b'', JNull)] = ''{\"b\": null}''"
  by (simp_all add: record_line_def dumps_default_def ascii_quoted_def ascii_char_def escape_char_def)

lemma chain_determines_log_witness:
  "compute_checksum_chain demo_reader [[(''a'', JNull)], [(''b'', JNull)]] \<noteq>
   compute_checksum_chain demo_reader [[(''b'', JNull)], [(''a'', JNull)]]"
proof -
  let ?rs = "[[(''a'', JNull)], [(''b'', JNull)]]" and ?ss = "[[(''b'', JNull)], [(''a'', JNull)]]"
  have f: "plain_floats (rd_float_text demo_reader)" by (simp add: plain_floats_def demo_reader_def printable_def)
  have "digests_texts (rd_digests demo_reader) (set (chain_texts demo_reader [] ?rs) \<union> set (chain_texts demo_reader [] ?ss))"
    unfolding digests_texts_def
    by (simp add: chain_text_def demo_lines chain_step_def record_line_def [symmetric]) (simp add: demo_reader_def)
  from chain_determines_log [OF f this] show ?thesis by (simp add: demo_lines)
qed

end
