(* ===== verification/Shadow_Checks.thy ===== *)
theory Shadow_Checks
  imports Shadow_Log
begin

text \<open>
  The shadow log from end to end: the interceptor of \<open>Shadow\<close> writes, the files hold one line for each record, and the
  reader of \<open>Shadow_Log\<close> computes its rates from them.
\<close>

section \<open>What is on disk\<close>

definition disk_text :: "shadow_reader \<Rightarrow> jtext \<Rightarrow> pystr" where
  "disk_text rd j = (case j of JText v \<Rightarrow> json_text (rd_float_text rd) v | _ \<Rightarrow> [])"

definition file_text :: "shadow_reader \<Rightarrow> log_lines \<Rightarrow> pystr \<Rightarrow> pystr" where
  "file_text rd ls name = concat (map (\<lambda>l. disk_text rd (snd l) @ [CHR 0x0A]) (filter (\<lambda>l. fst l = name) ls))"

definition disk_of :: "shadow_reader \<Rightarrow> log_lines \<Rightarrow> shadow_dir" where
  "disk_of rd ls = \<lparr>sh_missing = False, sh_files = map (\<lambda>n. (n, ShadowText (file_text rd ls n))) (remdups (map fst ls))\<rparr>"

type_synonym ('e, 'f) shadow_request = "shadow_call \<times> QueryRequest \<times> ('e + RetrievalEvidence) \<times> ('f + RetrievalEvidence option)"

definition shadow_run :: "log_lines \<Rightarrow> ('e, 'f) shadow_request \<Rightarrow> log_lines" where
  "shadow_run ls = (\<lambda>(call, req, canonical, shadow). snd (shadow_query call req canonical shadow ls))"

definition run_shadow :: "('e, 'f) shadow_request list \<Rightarrow> log_lines" where
  "run_shadow calls = foldl shadow_run [] calls"

text \<open>The queries that leave a record, with the name of the file and the record.\<close>

definition observe :: "('e, 'f) shadow_request \<Rightarrow> (pystr \<times> ShadowDecisionLog) option" where
  "observe = (\<lambda>(call, req, canonical, shadow). case canonical of Inl _ \<Rightarrow> None
     | Inr r \<Rightarrow> if shadow_enabled (sc_environ call) (qr_user_id req) \<and> sc_writable call
         then Some (daily_name SHADOW_PREFIX (sc_today call), shadow_entry call req (shadow_verdict r shadow)) else None)"

definition observed :: "('e, 'f) shadow_request list \<Rightarrow> (pystr \<times> ShadowDecisionLog) list" where
  "observed calls = List.map_filter observe calls"

lemma shadow_run_observe: "shadow_run ls x = ls @ (case observe x of None \<Rightarrow> [] | Some (n, e) \<Rightarrow> [(n, to_jsonl e)])"
proof -
  obtain call req canonical shadow where x: "x = (call, req, canonical, shadow)" by (cases x)
  show ?thesis
    by (cases canonical) (simp_all add: x shadow_run_def observe_def shadow_query_def shadow_write_log_def daily_name_def SHADOW_PREFIX_def)
qed

lemma run_shadow_observed: "run_shadow calls = map (\<lambda>(n, e). (n, to_jsonl e)) (observed calls)"
proof -
  have "foldl shadow_run ls calls = ls @ map (\<lambda>(n, e). (n, to_jsonl e)) (observed calls)" for ls
    by (induction calls arbitrary: ls) (auto simp: observed_def map_filter_simps shadow_run_observe split: option.splits)
  from this [of "[]"] show ?thesis by (simp add: run_shadow_def)
qed

section \<open>One record\<close>

definition entry_row :: "ShadowDecisionLog \<Rightarrow> row" where
  "entry_row e = sort_key fst
    [(''query_type'', JStr (sd_query_type e)), (''selected_port'', JStr (sd_selected_port e)),
     (''crosswalk_status'', JStr (sd_crosswalk_status e)), (''arbitration_outcome'', JStr (sd_arbitration_outcome e)),
     (''latency_ms'', JNum (sd_latency_ms e)), (''correlation_id'', JStr (sd_correlation_id e)),
     (''timestamp'', JStr (sd_timestamp e)), (''user_id'', JStr (sd_user_id e)),
     (''schema_version'', JStr (sd_schema_version e))]"

definition entry_text :: "shadow_reader \<Rightarrow> ShadowDecisionLog \<Rightarrow> pystr" where
  "entry_text rd e = json_text (rd_float_text rd) (JObj (entry_row e))"

definition entry_time :: "shadow_reader \<Rightarrow> ShadowDecisionLog \<Rightarrow> int" where
  "entry_time rd e = the (fromisoformat (rd_other rd) (sd_timestamp e))"

lemma entry_on_disk: "disk_text rd (to_jsonl e) = entry_text rd e"
  by (simp add: disk_text_def to_jsonl_def dumps_sorted_def entry_text_def entry_row_def)

lemma entry_row_get:
  "map_of (entry_row e) ''timestamp'' = Some (JStr (sd_timestamp e))"
  "map_of (entry_row e) ''arbitration_outcome'' = Some (JStr (sd_arbitration_outcome e))"
  "map_of (entry_row e) ''schema_version'' = Some (JStr (sd_schema_version e))"
  unfolding entry_row_def by (subst map_of_sort_key; simp)+

lemma entry_row_keys: "fst ` set (entry_row e) = set CANONICAL_FIELDS"
  by (simp add: entry_row_def CANONICAL_FIELDS_def insert_commute)

lemma entry_row_sorted: "sort_json (JObj (entry_row e)) = JObj (entry_row e)"
proof -
  have "\<forall>kv \<in> set (entry_row e). sort_json (snd kv) = snd kv" by (simp add: entry_row_def)
  then have "map (\<lambda>(k, v). (k, sort_json v)) (entry_row e) = entry_row e" by (intro map_idI) auto
  then show ?thesis by (simp add: entry_row_def sort_key_id_if_sorted)
qed

lemma strip_braced: "strip (CHR ''{'' # s @ ''}'') = CHR ''{'' # s @ ''}''"
  by (simp add: strip_def lstrip_def py_space_def)

lemma entry_text_stripped: "strip (entry_text rd e) = entry_text rd e" "entry_text rd e \<noteq> []"
  by (simp_all add: entry_text_def strip_braced)

lemma entry_consistent:
  assumes "startswith (sd_schema_version e) ''1.''"
  shows "is_record_consistent rd (entry_row e) (entry_text rd e)"
  by (simp add: is_record_consistent_def entry_row_keys entry_row_get assms dumps_default_def entry_row_sorted entry_text_def
    del: sort_json.simps json_text.simps)

definition readable :: "shadow_reader \<Rightarrow> ShadowDecisionLog \<Rightarrow> bool" where
  "readable rd e \<longleftrightarrow> (\<exists>t. iso_us t = Some (sd_timestamp e)) \<and> pl_loads (rd_lib rd) (entry_text rd e) = Loaded (JObj (entry_row e))"

lemma entry_line:
  assumes "readable rd e"
  shows "shadow_line_of rd (entry_text rd e) = ShadowRecord (entry_time rd e) (entry_row e) (entry_text rd e)"
proof -
  obtain t where t: "iso_us t = Some (sd_timestamp e)" and l: "pl_loads (rd_lib rd) (entry_text rd e) = Loaded (JObj (entry_row e))"
    using assms by (auto simp: readable_def)
  have "fromisoformat (rd_other rd) (sd_timestamp e) = Some t" by (rule fromisoformat_iso [OF t])
  then show ?thesis by (simp add: shadow_line_of_def entry_text_stripped l entry_row_get entry_time_def)
qed

lemma entry_lines:
  assumes "\<forall>e \<in> set es. readable rd e"
  shows "shadow_lines rd b (map (entry_text rd) es) = Inr (map (\<lambda>e. (entry_time rd e, entry_row e, entry_text rd e)) es, 0)"
  using assms by (induction es) (simp_all add: entry_line)

section \<open>The files as the reader splits them\<close>

lemma splitlines_line:
  assumes "list_all (\<lambda>c. \<not> line_break c) l"
  shows "splitlines_from cur (l @ CHR 0x0A # rest) = (cur @ l) # splitlines_from [] rest"
  using assms by (induction l arbitrary: cur) (auto simp: line_break_def split: list.split)

lemma splitlines_lines:
  assumes "\<forall>l \<in> set ls. list_all (\<lambda>c. \<not> line_break c) l"
  shows "splitlines_from [] (concat (map (\<lambda>l. l @ [CHR 0x0A]) ls)) = ls"
  using assms by (induction ls) (simp_all add: splitlines_line)

lemma printable_no_break: "printable c \<Longrightarrow> \<not> line_break c"
  by (auto simp: printable_def line_break_def Let_def)

lemma entry_text_one_line: "plain_floats (rd_float_text rd) \<Longrightarrow> list_all (\<lambda>c. \<not> line_break c) (entry_text rd e)"
  using json_text_printable(1) [of "rd_float_text rd" "JObj (entry_row e)"] printable_no_break
  unfolding entry_text_def list_all_iff by blast

definition entries_of :: "pystr \<Rightarrow> (pystr \<times> ShadowDecisionLog) list \<Rightarrow> ShadowDecisionLog list" where
  "entries_of n xs = map snd (filter (\<lambda>x. fst x = n) xs)"

lemma file_text_entries:
  "file_text rd (map (\<lambda>(n, e). (n, to_jsonl e)) xs) n = concat (map (\<lambda>l. l @ [CHR 0x0A]) (map (entry_text rd) (entries_of n xs)))"
  by (induction xs) (auto simp: file_text_def entries_of_def entry_on_disk)

lemma read_files:
  assumes f: "plain_floats (rd_float_text rd)" and xs: "\<forall>x \<in> set xs. readable rd (snd x)"
  shows "shadow_files rd coff (map (\<lambda>n. (n, ShadowText (file_text rd (map (\<lambda>(n, e). (n, to_jsonl e)) xs) n))) ns) =
    Inr (concat (map (\<lambda>n. map (\<lambda>e. (entry_time rd e, entry_row e, entry_text rd e)) (entries_of n xs)) ns), 0)"
proof (induction ns)
  case (Cons n ns)
  have "\<forall>e \<in> set (entries_of n xs). readable rd e" using xs by (auto simp: entries_of_def)
  then have "shadow_lines rd b (map (entry_text rd) (entries_of n xs)) =
      Inr (map (\<lambda>e. (entry_time rd e, entry_row e, entry_text rd e)) (entries_of n xs), 0)" for b
    by (rule entry_lines)
  moreover have "splitlines_from [] (file_text rd (map (\<lambda>(n, e). (n, to_jsonl e)) xs) n) = map (entry_text rd) (entries_of n xs)"
    unfolding file_text_entries by (rule splitlines_lines) (simp add: entry_text_one_line [OF f])
  ultimately show ?case using Cons by simp
qed simp

lemma mset_by_name:
  assumes "distinct ns" "fst ` set xs \<subseteq> set ns"
  shows "mset (concat (map (\<lambda>n. entries_of n xs) ns)) = mset (map snd xs)"
  using assms(2)
proof (induction xs)
  case Nil
  then show ?case by (induction ns) (simp_all add: entries_of_def)
next
  case (Cons x xs)
  have "mset (concat (map (\<lambda>n. entries_of n (x # xs)) ms)) =
      mset (concat (map (\<lambda>n. entries_of n xs) ms)) + (if fst x \<in> set ms then {#snd x#} else {#})" if "distinct ms" for ms
    using that by (induction ms) (auto simp: entries_of_def)
  from this [OF assms(1)] Cons show ?case by simp
qed

section \<open>The rates count the verdicts\<close>

definition in_window :: "shadow_reader \<Rightarrow> int \<Rightarrow> (pystr \<times> ShadowDecisionLog) list \<Rightarrow> ShadowDecisionLog list" where
  "in_window rd c xs = filter (\<lambda>e. c \<le> entry_time rd e) (map snd xs)"

lemma load_disk:
  assumes f: "plain_floats (rd_float_text rd)" and xs: "\<forall>x \<in> set xs. readable rd (snd x) \<and> log_glob SHADOW_PREFIX (fst x)"
    and start: "day_text (now - w) = Some cday"
  shows "\<exists>es. mset es = mset (in_window rd (now - w) xs) \<and>
    shadow_load_records rd (Some w) now (disk_of rd (map (\<lambda>(n, e). (n, to_jsonl e)) xs)) =
      Inr \<lparr>sl_records = map entry_row es, sl_raw_lines = map (entry_text rd) es, sl_malformed = 0\<rparr>"
proof -
  let ?ls = "map (\<lambda>(n, e). (n, to_jsonl e)) xs" and ?h = "\<lambda>e. (entry_time rd e, entry_row e, entry_text rd e)"
  define ns where "ns = sort (remdups (map fst xs))"
  have fst_ls: "map fst ?ls = map fst xs" by (simp add: comp_def case_prod_beta)
  have fst_comp: "fst \<circ> (\<lambda>(n, e). (n, to_jsonl e)) = fst" by auto
  have glob: "\<forall>n \<in> set (remdups (map fst xs)). log_glob SHADOW_PREFIX n" using xs by auto
  have "filter (\<lambda>f. log_glob SHADOW_PREFIX (fst f)) (sh_files (disk_of rd ?ls)) = sh_files (disk_of rd ?ls)"
    using glob unfolding filter_id_conv disk_of_def fst_ls by auto
  moreover have "sort_key fst (map (\<lambda>n. (n, g n)) ms) = map (\<lambda>n. (n, g n)) (sort ms)" for g :: "pystr \<Rightarrow> shadow_file" and ms
  proof -
    have "insort_key fst (n, g n) (map (\<lambda>n. (n, g n)) ms) = map (\<lambda>n. (n, g n)) (insort n ms)" for n ms
      by (induction ms) simp_all
    then show ?thesis by (induction ms) simp_all
  qed
  ultimately have files: "sort_key fst (filter (\<lambda>f. log_glob SHADOW_PREFIX (fst f)) (sh_files (disk_of rd ?ls))) =
      map (\<lambda>n. (n, ShadowText (file_text rd ?ls n))) ns"
    by (simp add: disk_of_def fst_comp ns_def)
  define all where "all = concat (map (\<lambda>n. entries_of n xs) ns)"
  have read: "shadow_files rd (Some (now - w, cday)) (map (\<lambda>n. (n, ShadowText (file_text rd ?ls n))) ns) = Inr (map ?h all, 0)"
    using read_files [OF f, of xs "Some (now - w, cday)" ns] xs by (simp add: all_def map_concat comp_def)
  have sorted: "sort_key fst (map ?h es) = map ?h (sort_key (entry_time rd) es)" for es
  proof -
    have "insort_key fst (?h e) (map ?h es) = map ?h (insort_key (entry_time rd) e es)" for e es
      by (induction es) simp_all
    then show ?thesis by (induction es) simp_all
  qed
  define es where "es = filter (\<lambda>e. now - w \<le> entry_time rd e) (sort_key (entry_time rd) all)"
  have "mset all = mset (map snd xs)" unfolding all_def by (rule mset_by_name) (simp_all add: ns_def)
  then have "mset es = mset (in_window rd (now - w) xs)" by (simp add: es_def in_window_def)
  moreover have "shadow_load_records rd (Some w) now (disk_of rd ?ls) =
      Inr \<lparr>sl_records = map entry_row es, sl_raw_lines = map (entry_text rd) es, sl_malformed = 0\<rparr>"
    by (simp add: shadow_load_records_def start files read sorted filter_map comp_def es_def) (simp add: disk_of_def)
  ultimately show ?thesis by blast
qed

lemma map_filter_source: "x \<in> set (List.map_filter f xs) \<Longrightarrow> \<exists>c. f c = Some x"
  by (induction xs) (auto simp: map_filter_simps split: option.splits)

lemma observed_entry:
  fixes calls :: "('e, 'f) shadow_request list"
  assumes "x \<in> set (observed calls)"
  shows "log_glob SHADOW_PREFIX (fst x) \<and> startswith (sd_schema_version (snd x)) ''1.''"
proof -
  obtain c :: "('e, 'f) shadow_request" where "observe c = Some x"
    using map_filter_source [OF assms [unfolded observed_def]] by blast
  then show ?thesis
    by (cases c) (auto simp: observe_def shadow_entry_def SHADOW_SCHEMA_VERSION_def startswith_def log_glob_def daily_name_def
      text_endswith_def split: sum.splits if_splits)
qed

text \<open>C33: On the files a run of the interceptor left, whatever the queries, the users and the two stores did: every record of the
  window is consistent, and the discrepancy rate is the share of diverging verdicts among the observed queries whose time is
  in the window. The reading of the clock and the parsing of a line that \<^verbatim>\<open>json.dumps\<close> wrote are assumed to be right.\<close>

theorem shadow_rates_of_verdicts:
  assumes "plain_floats (rd_float_text rd)" "parse_window window = Inr w" "day_text (now - w) = Some cday"
    and ok: "\<forall>x \<in> set (observed calls). readable rd (snd x)"
  shows "checksum_consistency rd window now (disk_of rd (run_shadow calls)) = Inr 1 \<and>
    shadow_discrepancy_rate rd window now (disk_of rd (run_shadow calls)) =
      (let seen = in_window rd (now - w) (observed calls) in
       Inr (if seen = [] then 0 else ratio (length (filter (\<lambda>e. sd_arbitration_outcome e = ''diverge'') seen)) (length seen)))"
proof -
  define seen where "seen = in_window rd (now - w) (observed calls)"
  have xs: "\<forall>x \<in> set (observed calls). readable rd (snd x) \<and> log_glob SHADOW_PREFIX (fst x)"
    using ok observed_entry by blast
  from load_disk [OF assms(1) xs assms(3)] obtain es where es: "mset es = mset seen" and
    load: "shadow_load_window rd window now (disk_of rd (run_shadow calls)) =
      Inr \<lparr>sl_records = map entry_row es, sl_raw_lines = map (entry_text rd) es, sl_malformed = 0\<rparr>"
    by (auto simp: seen_def shadow_load_window_def assms(2) run_shadow_observed)
  have len: "length es = length seen" using es by (metis size_mset)
  have div: "length (filter (\<lambda>e. sd_arbitration_outcome e = ''diverge'') es) =
      length (filter (\<lambda>e. sd_arbitration_outcome e = ''diverge'') seen)"
    using es by (metis mset_filter size_mset)
  have "set es \<subseteq> snd ` set (observed calls)"
    using mset_eq_setD [OF es] by (auto simp: seen_def in_window_def)
  then have "\<forall>e \<in> set es. is_record_consistent rd (entry_row e) (entry_text rd e)"
    using observed_entry entry_consistent by blast
  then have "filter (\<lambda>(r, raw). is_record_consistent rd r raw) (zip (map entry_row es) (map (entry_text rd) es)) =
      zip (map entry_row es) (map (entry_text rd) es)"
    by (induction es) simp_all
  then have "checksum_consistency rd window now (disk_of rd (run_shadow calls)) = Inr 1"
    by (simp add: checksum_consistency_def load ratio_def)
  moreover have "filter is_diverge (map entry_row es) = map entry_row (filter (\<lambda>e. sd_arbitration_outcome e = ''diverge'') es)"
    by (simp add: filter_map comp_def is_diverge_def entry_row_get)
  then have "shadow_discrepancy_rate rd window now (disk_of rd (run_shadow calls)) =
      Inr (if seen = [] then 0 else ratio (length (filter (\<lambda>e. sd_arbitration_outcome e = ''diverge'') seen)) (length seen))"
    using len div by (auto simp: shadow_discrepancy_rate_def load)
  ultimately show ?thesis by (simp only: seen_def Let_def simp_thms)
qed

text \<open>One query whose stores disagree and one that the canonical store refuses.\<close>

definition demo_checks :: "(kernel_error, kernel_error) shadow_request list" where
  "demo_checks =
    [(demo_shadow_call\<lparr>sc_timestamp := stamp_of (demo_base + 500000)\<rparr>, demo_request, Inr (demo_evidence JNull),
      Inr (Some \<lparr>ev_hits = [], ev_stages = [], ev_notes = []\<rparr>)),
     (demo_shadow_call, demo_request, Inl TypeError, Inl TypeError)]"

definition demo_check_reader :: shadow_reader where
  "demo_check_reader = demo_reader\<lparr>rd_lib := (rd_lib demo_reader)\<lparr>pl_loads := (\<lambda>_. case observed demo_checks of
     x # _ \<Rightarrow> Loaded (JObj (entry_row (snd x))) | [] \<Rightarrow> NotJson)\<rparr>\<rparr>"

lemma shadow_rates_of_verdicts_witness:
  "checksum_consistency demo_check_reader ''1s'' (demo_base + 1000000) (disk_of demo_check_reader (run_shadow demo_checks)) = Inr 1 \<and>
   shadow_discrepancy_rate demo_check_reader ''1s'' (demo_base + 1000000) (disk_of demo_check_reader (run_shadow demo_checks)) = Inr 1"
proof -
  have d0: "date_text 0 = Some ''0001-01-01''" by code_simp
  then have day: "day_text (demo_base + 1000000 - 1000000) = Some ''0001-01-01''"
    by (simp add: day_text_def EPOCH_DAYS_def demo_base_def)
  have w: "parse_window ''1s'' = Inr 1000000" by code_simp
  have f: "plain_floats (rd_float_text demo_check_reader)"
    by (simp add: plain_floats_def demo_check_reader_def demo_reader_def printable_def)
  obtain s where t: "iso_us (demo_base + 500000) = Some s" by (simp add: iso_us_def EPOCH_DAYS_def demo_base_def d0)
  have en: "shadow_enabled (sc_environ demo_shadow_call) (qr_user_id demo_request)" by code_simp
  let ?call = "demo_shadow_call\<lparr>sc_timestamp := s\<rparr>"
  let ?v = "shadow_verdict (demo_evidence JNull) (Inr (Some \<lparr>ev_hits = [], ev_stages = [], ev_notes = []\<rparr>) :: kernel_error + RetrievalEvidence option)"
  define e where "e = shadow_entry ?call demo_request ?v"
  have v: "?v = (''diverge'', ''ok'')" by (simp add: shadow_verdict_def compare_results_def hits_equal_def demo_evidence_def)
  then have e: "sd_timestamp e = s" "sd_arbitration_outcome e = ''diverge''" by (simp_all add: e_def shadow_entry_def)
  have "sc_environ ?call = sc_environ demo_shadow_call" "sc_writable ?call" by (simp_all add: demo_shadow_call_def)
  then have o: "observed demo_checks = [(daily_name SHADOW_PREFIX (sc_today ?call), e)]"
    using en by (simp add: observed_def demo_checks_def map_filter_simps observe_def stamp_of_def t e_def)
  have r: "\<forall>x \<in> set (observed demo_checks). readable demo_check_reader (snd x)"
    using t by (auto simp: o e readable_def demo_check_reader_def)
  have "entry_time demo_check_reader e = demo_base + 500000" by (simp add: entry_time_def e fromisoformat_iso [OF t])
  then have "in_window demo_check_reader (demo_base + 1000000 - 1000000) (observed demo_checks) = [e]"
    by (simp add: in_window_def o)
  from shadow_rates_of_verdicts [OF f w day r, unfolded this] show ?thesis by (simp add: e ratio_def)
qed

end
