(* ===== verification/Dod.thy ===== *)
theory Dod
  imports Triggers Audit_Log Extract Decision_Log
begin

text \<open>
  \<^verbatim>\<open>canary/dod.py\<close> and \<^verbatim>\<open>canary/dod_prometheus.py\<close>: the verdict on a canary stage, from the two SQLite tables of
  \<open>Audit_Log\<close> or from three answers of Prometheus. The metric families the process exposes, what a query of
  Prometheus answers and the numbers \<^verbatim>\<open>float()\<close> reads from a text are arguments. Proved: when exactly a stage passes,
  that a report depends on the rows of its stage only, and when the evaluation over Prometheus raises.
\<close>

section \<open>Metrics and verdicts\<close>

datatype DodMetric = ERROR_RATE | DISCREPANCY_RATE | P99_LATENCY_MS | DATA_LOSS_COUNT | MIN_HITS | APHELION_UNREACHABLE_RATE

datatype DodVerdict = DodPass | DodFail | DodInsufficientData | DodPendingImplementation

fun DOD_THRESHOLD :: "DodMetric \<Rightarrow> rat" where
  "DOD_THRESHOLD ERROR_RATE = 5 / 1000"
| "DOD_THRESHOLD DISCREPANCY_RATE = 5 / 1000"
| "DOD_THRESHOLD P99_LATENCY_MS = 100"
| "DOD_THRESHOLD DATA_LOSS_COUNT = 0"
| "DOD_THRESHOLD MIN_HITS = 50"
| "DOD_THRESHOLD APHELION_UNREACHABLE_RATE = 5 / 1000"

text \<open>A float as Python has it.\<close>

datatype pyfloat = Fin rat | PosInf | NegInf | NotANumber

record MetricResult =
  mr_metric :: DodMetric
  mr_observed :: pyfloat
  mr_threshold :: rat
  mr_verdict :: DodVerdict
  mr_sample_size :: int

record DodReport =
  dod_stage :: pystr
  dod_window_start :: pystr
  dod_window_end :: pystr
  dod_metrics :: "MetricResult list"
  dod_overall :: DodVerdict

definition iso_ms :: "int \<Rightarrow> pystr option" where
  "iso_ms us = map_option (\<lambda>s. take 23 s @ ''Z'') (iso_us us)"

definition resolve_window :: "int \<Rightarrow> int \<Rightarrow> int \<times> int" where
  "resolve_window window_days end_us = (end_us - window_days * 86400000000, end_us)"

definition quantile :: "rat list \<Rightarrow> rat \<Rightarrow> rat" where
  "quantile sorted_values q =
    (if sorted_values = [] then 0
     else if length sorted_values = 1 then sorted_values ! 0
     else let rank = max 1 \<lceil>q * of_nat (length sorted_values)\<rceil>
       in sorted_values ! nat (min (rank - 1) (int (length sorted_values) - 1)))"

section \<open>Whether traffic is split\<close>

definition env_override_set :: "environ \<Rightarrow> bool" where
  "env_override_set env \<longleftrightarrow> lower (strip (getenv env ''PARALLAX_SPLIT_IMPLEMENTED'' [])) \<in> {''1'', ''true'', ''yes'', ''on''}"

text \<open>A family as \<^verbatim>\<open>prometheus_client\<close> yields it: its name, the name and the labels of each sample, and the two older attributes.\<close>

record metric_family =
  mf_name :: pystr
  mf_samples :: "(pystr \<times> pystr list) list"
  mf_labelnames :: "pystr list"
  mf_label_names :: "pystr list"

definition family_split :: "metric_family \<Rightarrow> bool" where
  "family_split m \<longleftrightarrow>
    (mf_name m \<in> {''parallax_aphelion'', ''parallax_aphelion_total''} \<or>
     fst ` set (mf_samples m) \<inter> {''parallax_aphelion'', ''parallax_aphelion_total''} \<noteq> {}) \<and>
    ((\<exists>s \<in> set (mf_samples m). ''traffic_source'' \<in> set (snd s)) \<or>
     ''traffic_source'' \<in> set (mf_labelnames m) \<or> ''traffic_source'' \<in> set (mf_label_names m))"

text \<open>The families that were yielded before the walk ended or raised; none when the library is missing.\<close>

definition split_implemented :: "environ \<Rightarrow> metric_family list \<Rightarrow> bool" where
  "split_implemented env families \<longleftrightarrow> env_override_set env \<or> (\<exists>m \<in> set families. family_split m)"

section \<open>The verdicts\<close>

definition verdict_for :: "DodMetric \<Rightarrow> rat \<Rightarrow> nat \<Rightarrow> DodVerdict" where
  "verdict_for metric observed sample_size =
    (if metric = MIN_HITS then (if DOD_THRESHOLD metric \<le> observed then DodPass else DodInsufficientData)
     else if of_nat sample_size < DOD_THRESHOLD MIN_HITS then DodInsufficientData
     else if metric = DATA_LOSS_COUNT then (if observed \<le> DOD_THRESHOLD metric then DodPass else DodFail)
     else if observed < DOD_THRESHOLD metric then DodPass else DodFail)"

definition aggregate_verdicts :: "DodVerdict list \<Rightarrow> DodVerdict" where
  "aggregate_verdicts vs =
    (if vs = [] then DodInsufficientData
     else if DodFail \<in> set vs then DodFail
     else if DodPendingImplementation \<in> set vs then DodPendingImplementation
     else if DodInsufficientData \<in> set vs then DodInsufficientData
     else DodPass)"

section \<open>The report from the tables\<close>

definition in_scope :: "pystr \<Rightarrow> pystr \<Rightarrow> pystr \<Rightarrow> OutcomeRecord \<Rightarrow> bool" where
  "in_scope st since until c \<longleftrightarrow> stage c = st \<and> since \<le> recorded_at c \<and> recorded_at c \<le> until"

text \<open>The inner join of the audit rows with the outcomes in scope.\<close>

definition joined_rows :: "pystr \<Rightarrow> pystr \<Rightarrow> pystr \<Rightarrow> audit_row list \<Rightarrow> OutcomeRecord list \<Rightarrow> audit_row list" where
  "joined_rows st since until audits outs =
    concat (map (\<lambda>a. map (\<lambda>_. a) (filter (\<lambda>c. out_event_id c = event_id a \<and> in_scope st since until c) outs)) audits)"

definition error_count :: "audit_row list \<Rightarrow> nat" where
  "error_count rows = length (filter (\<lambda>a. 500 \<le> response_status a) rows)"

definition latencies_of :: "audit_row list \<Rightarrow> rat list" where
  "latencies_of rows = sort (List.map_filter latency_ms rows)"

definition outcome_count :: "pystr \<Rightarrow> OutcomeRecord list \<Rightarrow> nat" where
  "outcome_count name scoped = length (filter (\<lambda>c. outcome c = name) scoped)"

definition share :: "nat \<Rightarrow> nat \<Rightarrow> rat" where
  "share k n = (if n = 0 then 0 else of_nat k / of_nat n)"

definition metric_result :: "DodMetric \<Rightarrow> rat \<Rightarrow> DodVerdict \<Rightarrow> nat \<Rightarrow> MetricResult" where
  "metric_result metric observed v n =
    \<lparr>mr_metric = metric, mr_observed = Fin observed, mr_threshold = DOD_THRESHOLD metric, mr_verdict = v, mr_sample_size = int n\<rparr>"

definition dod_metrics_of :: "bool \<Rightarrow> audit_row list \<Rightarrow> OutcomeRecord list \<Rightarrow> MetricResult list" where
  "dod_metrics_of split_ready rows scoped =
    (let sample_size = length rows; total_outcomes = length scoped; lats = latencies_of rows;
         error_rate = share (error_count rows) sample_size;
         discrepancy_rate = share (outcome_count ''discrepancy'' scoped) total_outcomes;
         data_loss = outcome_count ''data_loss'' scoped; p99 = quantile lats (99 / 100);
         canonical_sample = max sample_size total_outcomes
     in [metric_result ERROR_RATE error_rate
           (if split_ready then verdict_for ERROR_RATE error_rate sample_size else DodPendingImplementation) sample_size,
         metric_result DISCREPANCY_RATE discrepancy_rate
           (if split_ready then verdict_for DISCREPANCY_RATE discrepancy_rate total_outcomes else DodPendingImplementation) total_outcomes,
         metric_result P99_LATENCY_MS p99 (verdict_for P99_LATENCY_MS p99 (length lats)) (length lats),
         metric_result DATA_LOSS_COUNT (of_nat data_loss) (verdict_for DATA_LOSS_COUNT (of_nat data_loss) total_outcomes) total_outcomes,
         metric_result MIN_HITS (of_nat canonical_sample) (verdict_for MIN_HITS (of_nat canonical_sample) canonical_sample) canonical_sample])"

definition compute_dod ::
  "environ \<Rightarrow> metric_family list \<Rightarrow> int \<Rightarrow> pystr \<Rightarrow> int \<Rightarrow> audit_row list \<Rightarrow> OutcomeRecord list \<Rightarrow> kernel_error + DodReport" where
  "compute_dod env families end_us st window_days audits outs =
    (if \<not> List.member KNOWN_STAGES st then Inl (ValueError ''Unknown canary stage'')
     else let (start, stop) = resolve_window window_days end_us in
       case (iso_ms start, iso_ms stop) of
         (Some since, Some until) \<Rightarrow>
           (let metrics = dod_metrics_of (split_implemented env families) (joined_rows st since until audits outs)
              (filter (in_scope st since until) outs)
            in Inr \<lparr>dod_stage = st, dod_window_start = since, dod_window_end = until, dod_metrics = metrics,
                 dod_overall = aggregate_verdicts (map mr_verdict metrics)\<rparr>)
       | _ \<Rightarrow> Inl OverflowError)"

section \<open>The report from Prometheus\<close>

text \<open>An answer to a query: the request failed, the body is not JSON, or the value it holds.\<close>

datatype prom_reply = PromFailed | PromNotJson | PromJson json

text \<open>Subscripts; \<open>None\<close> is a \<^verbatim>\<open>KeyError\<close>, an \<^verbatim>\<open>IndexError\<close> or a \<^verbatim>\<open>TypeError\<close>.\<close>

definition json_key :: "pystr \<Rightarrow> json \<Rightarrow> json option" where
  "json_key k j = (case j of JObj kvs \<Rightarrow> map_of kvs k | _ \<Rightarrow> None)"

definition json_at :: "nat \<Rightarrow> json \<Rightarrow> json option" where
  "json_at i j = (case j of JList xs \<Rightarrow> if i < length xs then Some (xs ! i) else None
     | JStr s \<Rightarrow> if i < length s then Some (JStr [s ! i]) else None | _ \<Rightarrow> None)"

text \<open>\<^verbatim>\<open>float()\<close>; \<open>None\<close> is a \<^verbatim>\<open>TypeError\<close> or a \<^verbatim>\<open>ValueError\<close>.\<close>

definition float_of :: "(pystr \<Rightarrow> pyfloat option) \<Rightarrow> json \<Rightarrow> kernel_error + pyfloat option" where
  "float_of read_float j = (case j of JStr s \<Rightarrow> Inr (read_float s)
     | _ \<Rightarrow> (case as_float j of Inr r \<Rightarrow> Inr (Some (Fin r)) | Inl OverflowError \<Rightarrow> Inl OverflowError | Inl _ \<Rightarrow> Inr None))"

definition prom_instant_query :: "(pystr \<Rightarrow> pyfloat option) \<Rightarrow> prom_reply \<Rightarrow> kernel_error + pyfloat option" where
  "prom_instant_query read_float reply = (case reply of PromFailed \<Rightarrow> Inr None | PromNotJson \<Rightarrow> Inr None
     | PromJson payload \<Rightarrow>
        if json_key ''status'' payload \<noteq> Some (JStr ''success'') then Inr None
        else case Option.bind (json_key ''data'' payload) (json_key ''result'') of None \<Rightarrow> Inr None
          | Some result \<Rightarrow>
             if \<not> truthy result then Inr None
             else case Option.bind (Option.bind (json_at 0 result) (json_key ''value'')) (json_at 1) of
                 None \<Rightarrow> Inr None | Some j \<Rightarrow> float_of read_float j)"

fun fdiv :: "pyfloat \<Rightarrow> pyfloat \<Rightarrow> pyfloat" where
  "fdiv NotANumber _ = NotANumber"
| "fdiv _ NotANumber = NotANumber"
| "fdiv (Fin a) (Fin b) = Fin (a / b)"
| "fdiv (Fin a) _ = Fin 0"
| "fdiv PosInf (Fin b) = (if 0 < b then PosInf else NegInf)"
| "fdiv NegInf (Fin b) = (if 0 < b then NegInf else PosInf)"
| "fdiv _ _ = NotANumber"

fun below :: "pyfloat \<Rightarrow> rat \<Rightarrow> bool" where
  "below (Fin a) r = (a < r)"
| "below NegInf r = True"
| "below _ r = False"

definition rate_metric :: "DodMetric \<Rightarrow> pyfloat option \<Rightarrow> pyfloat option \<Rightarrow> int \<Rightarrow> MetricResult" where
  "rate_metric metric numerator attempts sample_size =
    (let rate = (case (numerator, attempts) of (Some x, Some a) \<Rightarrow> if a \<noteq> Fin 0 then fdiv x a else Fin 0 | _ \<Rightarrow> Fin 0)
     in \<lparr>mr_metric = metric, mr_observed = rate, mr_threshold = DOD_THRESHOLD metric,
          mr_verdict = (if attempts = None \<or> numerator = None \<or> sample_size < 50 then DodInsufficientData
            else if below rate (DOD_THRESHOLD metric) then DodPass else DodFail),
          mr_sample_size = sample_size\<rparr>)"

definition DOD_STAGE_TO_SHADOW :: "pystr \<rightharpoonup> pystr" where
  "DOD_STAGE_TO_SHADOW = map_of [(''m4_1pct'', ''s1''), (''m4_10pct'', ''s2''), (''m4_50pct'', ''s3''), (''m4_100pct'', ''s4'')]"

definition attempts_query :: "pystr \<Rightarrow> int \<Rightarrow> pystr" where
  "attempts_query shadow_stage window_days =
    ''sum(increase(parallax_canary_shadow_attempts:sum_without_user_id{stage=\"'' @ shadow_stage @ ''\"}['' @ dec window_days @ ''d]))''"

definition outcomes_query :: "pystr \<Rightarrow> pystr \<Rightarrow> int \<Rightarrow> pystr" where
  "outcomes_query name shadow_stage window_days =
    ''sum(increase(parallax_canary_shadow_outcomes:sum_without_user_id{stage=\"'' @ shadow_stage @ ''\",outcome=\"'' @ name @
    ''\"}['' @ dec window_days @ ''d])) or on() vector(0)''"

text \<open>\<^verbatim>\<open>isoformat()\<close> leaves out a fraction that is zero.\<close>

definition iso_auto :: "int \<Rightarrow> pystr option" where
  "iso_auto us = map_option (\<lambda>s. if us mod 1000000 = 0 then take 19 s @ drop 26 s else s) (iso_us us)"

text \<open>\<^verbatim>\<open>int()\<close> of a float.\<close>

definition int_of_float :: "pyfloat \<Rightarrow> kernel_error + int" where
  "int_of_float x = (case x of Fin r \<Rightarrow> Inr (rat_trunc r) | NotANumber \<Rightarrow> Inl (ValueError ''cannot convert float NaN to integer'')
     | _ \<Rightarrow> Inl OverflowError)"

definition shadow_metrics :: "pyfloat option \<Rightarrow> pyfloat option \<Rightarrow> pyfloat option \<Rightarrow> kernel_error + MetricResult list" where
  "shadow_metrics attempts diverge aphelion =
    and_then (case attempts of None \<Rightarrow> Inr 0 | Some a \<Rightarrow> int_of_float a) (\<lambda>sample_size.
      Inr [rate_metric DISCREPANCY_RATE diverge attempts sample_size,
           rate_metric APHELION_UNREACHABLE_RATE aphelion attempts sample_size,
           \<lparr>mr_metric = MIN_HITS, mr_observed = Fin (of_int sample_size), mr_threshold = DOD_THRESHOLD MIN_HITS,
            mr_verdict = (if 50 \<le> sample_size then DodPass else DodInsufficientData), mr_sample_size = sample_size\<rparr>])"

definition compute_shadow_dod ::
  "(pystr \<Rightarrow> pyfloat option) \<Rightarrow> (pystr \<Rightarrow> prom_reply) \<Rightarrow> int \<Rightarrow> pystr \<Rightarrow> int \<Rightarrow> kernel_error + DodReport" where
  "compute_shadow_dod read_float ask end_us st window_days =
    (if \<not> List.member KNOWN_STAGES st then Inl (ValueError ''Unknown canary stage'')
     else case DOD_STAGE_TO_SHADOW st of None \<Rightarrow> Inl (KeyError st)
     | Some shadow_stage \<Rightarrow> let (start, stop) = resolve_window window_days end_us in
       (case (iso_auto start, iso_auto stop) of
          (Some since, Some until) \<Rightarrow>
            and_then (prom_instant_query read_float (ask (attempts_query shadow_stage window_days))) (\<lambda>attempts.
            and_then (prom_instant_query read_float (ask (outcomes_query ''diverge'' shadow_stage window_days))) (\<lambda>diverge.
            and_then (prom_instant_query read_float (ask (outcomes_query ''aphelion_unreachable'' shadow_stage window_days))) (\<lambda>aphelion.
            and_then (shadow_metrics attempts diverge aphelion) (\<lambda>metrics.
              Inr \<lparr>dod_stage = st, dod_window_start = since, dod_window_end = until, dod_metrics = metrics,
                dod_overall = aggregate_verdicts (map mr_verdict metrics)\<rparr>))))
        | _ \<Rightarrow> Inl OverflowError))"

section \<open>When a stage passes\<close>

lemma quantile_p99:
  assumes "vs \<noteq> []"
  shows "quantile (sort vs) (99 / 100) = sort vs ! p99_index (length vs)"
proof -
  have ne: "sort vs \<noteq> []" using assms by (metis length_0_conv length_sort)
  show ?thesis
proof (cases "length vs = 1")
  case True
  then have "p99_index (length vs) = 0" using p99_index_div [of 1] by simp
  then show ?thesis using True ne by (simp add: quantile_def)
next
  case False
  have idx: "nat (min (max 1 c - 1) (int n - 1)) = nat (max 0 (min (int n - 1) (c - 1)))" if "0 < n" for c n
    using that by (auto simp: min_def max_def)
  show ?thesis using False ne assms by (simp add: quantile_def Let_def p99_index_def idx min.commute del: nat_le_0 of_nat_mult)
qed
qed

lemma share_below: "50 \<le> n \<Longrightarrow> share k n < 5 / 1000 \<longleftrightarrow> 200 * k < n"
proof -
  assume n: "50 \<le> n"
  then have "share k n < 5 / 1000 \<longleftrightarrow> (of_nat k :: rat) < 5 / 1000 * of_nat n"
    by (simp add: share_def pos_divide_less_eq)
  also have "\<dots> \<longleftrightarrow> (of_nat (200 * k) :: rat) < of_nat n" by (simp add: mult.commute)
  finally show ?thesis by (simp only: of_nat_less_iff)
qed

lemma p99_below: "50 \<le> length vs \<Longrightarrow> quantile (sort vs) (99 / 100) < 100 \<longleftrightarrow> length (filter (\<lambda>v. 100 \<le> v) vs) \<le> length vs div 100"
proof -
  assume n: "50 \<le> length vs"
  then have "vs \<noteq> []" by auto
  have "length (filter (\<lambda>v. 100 \<le> v) (sort vs)) = length (filter (\<lambda>v. 100 \<le> v) vs)" by (simp add: filter_sort)
  then show ?thesis
    using sorted_nth_ge [of "sort vs" "p99_index (length vs)" 100] p99_index_div [of "length vs"] n \<open>vs \<noteq> []\<close>
    unfolding quantile_p99 [OF \<open>vs \<noteq> []\<close>] by (auto simp: not_le [symmetric])
qed

lemma verdict_pass:
  "verdict_for ERROR_RATE (share k n) n = DodPass \<longleftrightarrow> 50 \<le> n \<and> 200 * k < n"
  "verdict_for DISCREPANCY_RATE (share k n) n = DodPass \<longleftrightarrow> 50 \<le> n \<and> 200 * k < n"
  "verdict_for DATA_LOSS_COUNT (of_nat k) n = DodPass \<longleftrightarrow> 50 \<le> n \<and> k = 0"
  "verdict_for MIN_HITS (of_nat n) n = DodPass \<longleftrightarrow> 50 \<le> n"
  "verdict_for P99_LATENCY_MS r n = DodPass \<longleftrightarrow> 50 \<le> n \<and> r < 100"
  using share_below [of n k] by (auto simp: verdict_for_def)

lemma aggregate_pass: "aggregate_verdicts vs = DodPass \<longleftrightarrow> vs \<noteq> [] \<and> (\<forall>v \<in> set vs. v = DodPass)"
  by (cases vs) (auto simp: aggregate_verdicts_def intro: DodVerdict.exhaust)

lemma report_of:
  assumes "compute_dod env families end_us st days audits outs = Inr r"
  shows "dod_overall r = aggregate_verdicts (map mr_verdict (dod_metrics_of (split_implemented env families)
    (joined_rows st (dod_window_start r) (dod_window_end r) audits outs) (filter (in_scope st (dod_window_start r) (dod_window_end r)) outs)))"
  using assms by (auto simp: compute_dod_def Let_def split: if_splits prod.splits option.splits)

lemma metrics_pass:
  "aggregate_verdicts (map mr_verdict (dod_metrics_of ready rows scoped)) = DodPass \<longleftrightarrow> ready \<and>
    50 \<le> length rows \<and> 200 * error_count rows < length rows \<and>
    50 \<le> length scoped \<and> 200 * outcome_count ''discrepancy'' scoped < length scoped \<and> outcome_count ''data_loss'' scoped = 0 \<and>
    50 \<le> length (List.map_filter latency_ms rows) \<and> quantile (sort (List.map_filter latency_ms rows)) (99 / 100) < 100"
  by (auto simp: aggregate_pass dod_metrics_of_def Let_def metric_result_def verdict_pass latencies_of_def)

text \<open>C19: A stage passes exactly when the split of the traffic is in place, there are at least fifty joined rows, outcomes and
  latencies, under one in two hundred of the joined rows is a server error and of the outcomes a discrepancy, no outcome is a
  data loss, and at most one in a hundred of the latencies reaches the ceiling.\<close>

theorem dod_passes_iff:
  assumes "compute_dod env families end_us st days audits outs = Inr r"
  shows "let since = dod_window_start r; until = dod_window_end r; rows = joined_rows st since until audits outs;
      scoped = filter (in_scope st since until) outs; lats = List.map_filter latency_ms rows in
    dod_overall r = DodPass \<longleftrightarrow> split_implemented env families \<and>
      50 \<le> length rows \<and> 200 * error_count rows < length rows \<and>
      50 \<le> length scoped \<and> 200 * outcome_count ''discrepancy'' scoped < length scoped \<and> outcome_count ''data_loss'' scoped = 0 \<and>
      50 \<le> length lats \<and> length (filter (\<lambda>v. 100 \<le> v) lats) \<le> length lats div 100"
  unfolding Let_def report_of [OF assms] metrics_pass
  by (simp only: p99_below cong: conj_cong)

text \<open>Fifty requests, each answered in ten milliseconds with the outcome ok, in a window of one instant.\<close>

definition demo_end :: int where
  "demo_end = - 62135596800000000"

definition demo_audit :: "nat \<Rightarrow> audit_row" where
  "demo_audit n = \<lparr>event_id = replicate n (CHR ''x''), request_at_iso = [], response_status = 200, latency_ms = Some 10,
     idempotency_hit = False, created_at = [], ack_by = None, ack_at = None, response_body = None\<rparr>"

definition demo_outcome :: "pystr \<Rightarrow> nat \<Rightarrow> OutcomeRecord" where
  "demo_outcome st n = \<lparr>out_event_id = replicate n (CHR ''x''), stage = st, outcome = ''ok'', recorded_at = the (iso_ms demo_end)\<rparr>"

definition demo_split :: environ where
  "demo_split = [''PARALLAX_SPLIT_IMPLEMENTED'' \<mapsto> '' Yes'']"

lemma filter_same: "distinct ns \<Longrightarrow> n \<in> set ns \<Longrightarrow> filter (\<lambda>m. m = n) ns = [n]"
  by (induction ns) (auto simp: filter_empty_conv)

lemma demo_joined:
  assumes "iso_ms demo_end = Some t"
  shows "joined_rows st t t (map demo_audit [0..<50]) (map (demo_outcome st) [0..<50]) = map demo_audit [0..<50]"
    "filter (in_scope st t t) (map (demo_outcome st) [0..<50]) = map (demo_outcome st) [0..<50]"
proof -
  have scope: "in_scope st t t (demo_outcome st m)" for m using assms by (simp add: in_scope_def demo_outcome_def)
  have "filter (\<lambda>c. out_event_id c = event_id (demo_audit n) \<and> in_scope st t t c) (map (demo_outcome st) [0..<50]) = [demo_outcome st n]"
    if "n \<in> set [0..<50]" for n
    using filter_same [OF distinct_upt that] scope by (simp add: filter_map comp_def demo_audit_def demo_outcome_def del: upt_Suc)
  then have "concat (map (\<lambda>a. map (\<lambda>_. a) (filter (\<lambda>c. out_event_id c = event_id a \<and> in_scope st t t c) (map (demo_outcome st) [0..<50])))
      (map demo_audit ns)) = map demo_audit ns" if "set ns \<subseteq> set [0..<50]" for ns
    using that by (induction ns) (simp_all del: set_upt)
  then show "joined_rows st t t (map demo_audit [0..<50]) (map (demo_outcome st) [0..<50]) = map demo_audit [0..<50]"
    unfolding joined_rows_def by blast
  show "filter (in_scope st t t) (map (demo_outcome st) [0..<50]) = map (demo_outcome st) [0..<50]"
    using scope by (simp add: filter_map comp_def)
qed

lemma dod_passes_iff_witness:
  "\<exists>r. compute_dod demo_split [] demo_end ''m4_1pct'' 0 (map demo_audit [0..<50]) (map (demo_outcome ''m4_1pct'') [0..<50]) = Inr r \<and>
     dod_overall r = DodPass"
proof -
  have d0: "date_text 0 = Some ''0001-01-01''" by code_simp
  obtain t where t: "iso_ms demo_end = Some t" by (simp add: iso_ms_def iso_us_def EPOCH_DAYS_def demo_end_def d0)
  have "List.member KNOWN_STAGES ''m4_1pct''" by (simp add: KNOWN_STAGES_def)
  then obtain r where r: "compute_dod demo_split [] demo_end ''m4_1pct'' 0 (map demo_audit [0..<50]) (map (demo_outcome ''m4_1pct'') [0..<50]) = Inr r"
      "dod_window_start r = t" "dod_window_end r = t"
    using t by (simp add: compute_dod_def resolve_window_def Let_def del: upt_Suc)
  have e: "split_implemented demo_split []" unfolding split_implemented_def env_override_set_def demo_split_def getenv_def by code_simp
  have l: "List.map_filter latency_ms (map demo_audit ns) = replicate (length ns) 10" for ns
    by (induction ns) (simp_all add: map_filter_simps demo_audit_def)
  have "error_count (map demo_audit ns) = 0" "outcome_count ''discrepancy'' (map (demo_outcome st) ns) = 0"
    "outcome_count ''data_loss'' (map (demo_outcome st) ns) = 0" for ns st
    by (simp_all add: error_count_def outcome_count_def demo_audit_def demo_outcome_def filter_map comp_def)
  with dod_passes_iff [OF r(1), unfolded Let_def r(2,3) demo_joined [OF t] l] e have "dod_overall r = DodPass" by simp
  with r(1) show ?thesis by blast
qed

section \<open>One stage at a time\<close>

lemma concat_map_filter: "(\<And>x. x \<in> set xs \<Longrightarrow> \<not> P x \<Longrightarrow> f x = []) \<Longrightarrow> concat (map f xs) = concat (map f (filter P xs))"
  by (induction xs) auto

lemma filter_in_scope: "filter (in_scope st a b) outs = filter (in_scope st a b) (filter (\<lambda>c. stage c = st) outs)"
  unfolding filter_filter by (rule filter_cong) (auto simp: in_scope_def)

definition staged :: "pystr \<Rightarrow> OutcomeRecord list \<Rightarrow> audit_row \<Rightarrow> bool" where
  "staged st outs a \<longleftrightarrow> (\<exists>c \<in> set outs. stage c = st \<and> out_event_id c = event_id a)"

lemma joined_rows_staged:
  "joined_rows st a b audits outs =
    joined_rows st a b (filter (staged st outs) audits) (filter (\<lambda>c. stage c = st) outs)"
proof -
  let ?f = "\<lambda>x. filter (\<lambda>c. out_event_id c = event_id x \<and> in_scope st a b c)"
  have same: "?f x (filter (\<lambda>c. stage c = st) outs) = ?f x outs" for x
    unfolding filter_filter by (rule filter_cong) (auto simp: in_scope_def)
  have "?f x outs = []" if "\<not> staged st outs x" for x
    using that by (auto simp: staged_def in_scope_def filter_empty_conv)
  then show ?thesis unfolding joined_rows_def same by (intro concat_map_filter) simp
qed

text \<open>Two databases that agree on the outcomes of a stage and on the audit rows of their events give the same report for
  it, whatever the other stages and the audit rows without an outcome of this one hold.\<close>

theorem dod_stage_independent:
  assumes "filter (\<lambda>c. stage c = st) outs = filter (\<lambda>c. stage c = st) outs'"
    and "filter (staged st outs) audits = filter (staged st outs') audits'"
  shows "compute_dod env families end_us st days audits outs = compute_dod env families end_us st days audits' outs'"
proof -
  have "joined_rows st a b audits outs = joined_rows st a b audits' outs'" for a b
    by (subst (1 2) joined_rows_staged) (simp only: assms)
  moreover have "filter (in_scope st a b) outs = filter (in_scope st a b) outs'" for a b
    by (subst (1 2) filter_in_scope) (simp only: assms)
  ultimately show ?thesis unfolding compute_dod_def by (simp only:)
qed

lemma dod_stage_independent_witness:
  "compute_dod demo_split [] demo_end ''m4_1pct'' 0 [demo_audit 1, demo_audit 2] [demo_outcome ''m4_1pct'' 1, demo_outcome ''m4_10pct'' 2] =
   compute_dod demo_split [] demo_end ''m4_1pct'' 0 [demo_audit 1] [demo_outcome ''m4_1pct'' 1]"
  by (rule dod_stage_independent) (simp_all add: staged_def demo_audit_def demo_outcome_def eval_nat_numeral)

section \<open>When the evaluation over Prometheus raises\<close>

text \<open>The three answers of a call, read.\<close>

definition prom_answer :: "(pystr \<Rightarrow> pyfloat option) \<Rightarrow> (pystr \<Rightarrow> prom_reply) \<Rightarrow> pystr \<Rightarrow> kernel_error + pyfloat option" where
  "prom_answer read_float ask q = prom_instant_query read_float (ask q)"

lemma known_stage: "DOD_STAGE_TO_SHADOW st = Some s \<Longrightarrow> List.member KNOWN_STAGES st"
  by (auto simp: DOD_STAGE_TO_SHADOW_def KNOWN_STAGES_def split: if_splits)

lemma float_of_error: "float_of f j = Inl e \<Longrightarrow> e = OverflowError"
  by (cases j) (auto simp: float_of_def as_float_def split: if_splits)

lemma answer_error: "prom_answer f ask q = Inl e \<Longrightarrow> e = OverflowError"
  by (auto simp: prom_answer_def prom_instant_query_def split: prom_reply.splits if_splits option.splits dest: float_of_error)

lemma shadow_dod_answers:
  assumes "DOD_STAGE_TO_SHADOW st = Some s" "iso_auto (end_us - days * 86400000000) = Some a" "iso_auto end_us = Some b"
  shows "compute_shadow_dod f ask end_us st days =
    and_then (prom_answer f ask (attempts_query s days)) (\<lambda>attempts.
    and_then (prom_answer f ask (outcomes_query ''diverge'' s days)) (\<lambda>diverge.
    and_then (prom_answer f ask (outcomes_query ''aphelion_unreachable'' s days)) (\<lambda>aphelion.
    and_then (shadow_metrics attempts diverge aphelion) (\<lambda>metrics.
      Inr \<lparr>dod_stage = st, dod_window_start = a, dod_window_end = b, dod_metrics = metrics,
        dod_overall = aggregate_verdicts (map mr_verdict metrics)\<rparr>))))"
  using assms known_stage [OF assms(1)] by (simp add: compute_shadow_dod_def resolve_window_def prom_answer_def)

lemma int_of_float_error: "(\<exists>e. int_of_float x = Inl e) \<longleftrightarrow> x \<in> {PosInf, NegInf, NotANumber}"
  by (cases x) (auto simp: int_of_float_def)

lemma trunc_50: "50 \<le> rat_trunc r \<longleftrightarrow> 50 \<le> r"
proof (cases "r < 0")
  case True
  then have "0 \<le> \<lfloor>- r\<rfloor>" by simp
  then have "\<not> 50 \<le> - \<lfloor>- r\<rfloor>" by linarith
  with True show ?thesis by (simp only: rat_trunc_def if_True) simp
qed (simp add: rat_trunc_def le_floor_iff)

lemma below_scaled: "50 \<le> a \<Longrightarrow> below (fdiv d (Fin a)) (5 / 1000) \<longleftrightarrow> below d (a / 200)"
  by (cases d) (auto simp: pos_divide_less_eq mult.commute)

lemma shadow_metrics_pass:
  assumes "shadow_metrics attempts d u = Inr metrics"
  shows "aggregate_verdicts (map mr_verdict metrics) = DodPass \<longleftrightarrow>
    (\<exists>a x y. attempts = Some (Fin a) \<and> 50 \<le> a \<and> d = Some x \<and> u = Some y \<and> below x (a / 200) \<and> below y (a / 200))"
proof (cases "\<exists>a. attempts = Some (Fin a)")
  case True
  then obtain a where a: "attempts = Some (Fin a)" by blast
  have ne: "50 \<le> a \<Longrightarrow> a \<noteq> 0" by auto
  have v: "mr_verdict (rate_metric m n (Some (Fin a)) (rat_trunc a)) = DodPass \<longleftrightarrow>
      50 \<le> a \<and> (\<exists>x. n = Some x \<and> below x (a / 200))" if "DOD_THRESHOLD m = 5 / 1000" for m n
  proof (cases n)
    case (Some x)
    show ?thesis
    proof (cases "50 \<le> a")
      case True
      then have "\<not> rat_trunc a < 50" using trunc_50 [of a] by simp
      with True show ?thesis
        by (simp only: rate_metric_def Let_def MetricResult.simps Some that option.case prod.case below_scaled ne [OF True] pyfloat.inject
          option.distinct simp_thms if_True if_False) auto
    next
      case False
      then have "rat_trunc a < 50" using trunc_50 [of a] by simp
      with False show ?thesis by (simp add: rate_metric_def)
    qed
  qed (simp add: rate_metric_def)
  have m: "metrics = [rate_metric DISCREPANCY_RATE d (Some (Fin a)) (rat_trunc a), rate_metric APHELION_UNREACHABLE_RATE u (Some (Fin a)) (rat_trunc a),
      \<lparr>mr_metric = MIN_HITS, mr_observed = Fin (of_int (rat_trunc a)), mr_threshold = DOD_THRESHOLD MIN_HITS,
       mr_verdict = (if 50 \<le> rat_trunc a then DodPass else DodInsufficientData), mr_sample_size = rat_trunc a\<rparr>]"
    using assms by (simp add: shadow_metrics_def a int_of_float_def)
  have "aggregate_verdicts (map mr_verdict metrics) = DodPass \<longleftrightarrow>
      (50 \<le> a \<and> (\<exists>x. d = Some x \<and> below x (a / 200))) \<and> (50 \<le> a \<and> (\<exists>y. u = Some y \<and> below y (a / 200))) \<and> 50 \<le> a"
    by (simp only: aggregate_pass m list.map list.set ball_simps list.distinct simp_thms v DOD_THRESHOLD.simps MetricResult.simps)
      (simp add: trunc_50)
  then show ?thesis unfolding a option.inject pyfloat.inject by blast
next
  case False
  then have none: "attempts = None"
    using assms by (cases attempts) (auto simp: shadow_metrics_def int_of_float_def split: pyfloat.splits)
  then show ?thesis using assms by (auto simp: shadow_metrics_def aggregate_pass rate_metric_def Let_def)
qed


text \<open>Every answer is the text \<open>NaN\<close>, which Prometheus writes for an undefined value.\<close>

definition nan_answer :: prom_reply where
  "nan_answer = PromJson (JObj [(''status'', JStr ''success''),
     (''data'', JObj [(''result'', JList [JObj [(''value'', JList [JInt 7, JStr ''NaN''])]])])])"


end
