(* ===== verification/Spec2Isabelle.thy ===== *)
theory Spec2Isabelle
  imports Replay_Rebuild Breaker Triggers Audit_Log Idempotency_Threads Rollback_Decision Crosswalk Backfill_Runner Corpus_Backfill Aphelion_Ingest Live_Arbitration Dual_Read Sqlite_Gate Memory_Router Extract_Store Shadow_Checks Dod
begin

text \<open>
  Parallax is a memory kernel: it stores what an agent was told (memories) and what it concluded (claims) in
  SQLite, keeps an append-only log of what happened to them, answers queries over them, and runs two guarded
  experiments beside the canonical path: a second read path over signed packages (the dual read, \<^verbatim>\<open>apex\<close>) and a
  canary with automatic rollback. This library models the part of \<^verbatim>\<open>src/parallax\<close> that decides something: what is
  written, when it is refused, who wins, when a guard trips. File and function names below are relative to
  \<^verbatim>\<open>src/parallax\<close>.

  \<^bold>\<open>How the parts interact.\<close> \<^verbatim>\<open>ingest.py\<close> hashes a row (\<^verbatim>\<open>hashing.py\<close>), upserts it into \<^verbatim>\<open>sqlite_store.py\<close> and records
  the effect through \<^verbatim>\<open>events/\<close>, which is also the only writer of a claim's state (\<^verbatim>\<open>transitions.py\<close>); \<^verbatim>\<open>replay.py\<close>
  rebuilds the tables from that log. \<^verbatim>\<open>extract/\<close> turns a model's answer into claims and ingests them;
  \<^verbatim>\<open>retrieve.py\<close> reads the tables; \<^verbatim>\<open>router/real_adapter.py\<close> wraps both for the router, and \<^verbatim>\<open>router/backfill.py\<close> and
  \<^verbatim>\<open>router/crosswalk_backfill.py\<close> map rows into the crosswalk. \<^verbatim>\<open>router/dual_read.py\<close> asks the canonical adapter and a
  second one, compares (\<^verbatim>\<open>router/shadow.py\<close>), counts (\<^verbatim>\<open>router/discrepancy_live.py\<close>), arbitrates
  (\<^verbatim>\<open>router/live_arbitration.py\<close>), logs (\<^verbatim>\<open>router/dual_read_decision_log.py\<close>), records conflicts
  (\<^verbatim>\<open>events/conflict_writer.py\<close>) and obeys the breaker (\<^verbatim>\<open>router/circuit_breaker.py\<close>). \<^verbatim>\<open>apex/\<close> ingests packages into an
  audit chain and reads them back. \<^verbatim>\<open>canary/\<close> runs a worker once per event id and stops the roll-out when a
  trigger is breached.

  \<^bold>\<open>Theories, in the order of their imports.\<close>
  \<^item> \<open>Prelude\<close>: Python strings, results (\<open>Inl\<close> the exception, \<open>Inr\<close> the value), association lists, the generic lemmas
    on lists and the named collections the component proofs use. \<open>Decimals\<close>: decimal texts of integers.
  \<^item> \<open>Hashing\<close> (\<^verbatim>\<open>hashing.py\<close>), \<open>Transitions\<close> (\<^verbatim>\<open>transitions.py\<close>), \<open>Telemetry\<close> (\<^verbatim>\<open>telemetry.py\<close>,
    \<^verbatim>\<open>obs/metrics.py\<close>), \<open>Store\<close> (\<^verbatim>\<open>sqlite_store.py\<close>, \<^verbatim>\<open>validators.py\<close>: a record \<open>db\<close> of row lists with keys and
    foreign keys enforced by the inserts), \<open>Events\<close> (\<^verbatim>\<open>events/__init__.py\<close>), \<open>Ingest\<close> and \<open>Ingest_Effects\<close>
    (\<^verbatim>\<open>ingest.py\<close>: the upserts, and what each branch leaves behind), \<open>Replay\<close> and \<open>Replay_Rebuild\<close> (\<^verbatim>\<open>replay.py\<close>).
    Shown: the upsert is idempotent and keeps keys and references intact; a transition follows its table and never
    overwrites a concurrent one; replaying a history rebuilds memories and claims row for row; the back-fill of
    creation events runs once.
  \<^item> \<open>Sql_Text\<close>, \<open>Retrieval\<close>, \<open>Retrieval_Queries\<close>, \<open>Retrieval_Laws\<close> (\<^verbatim>\<open>retrieve.py\<close>): \<^verbatim>\<open>LIKE\<close> and trigram phrases,
    hits and times, the six queries and the trace. Shown: rows of one user only, a literal payload search that
    both engines agree on, an exact time window, bounded ranked results, an explanation for every empty one.
  \<^item> \<open>Extract\<close>, \<open>Extract_Store\<close> (\<^verbatim>\<open>extract/\<close>): chunking, the parser of answers, conflicts, review, shadow write. Shown:
    chunking ends exactly when the overlap leaves progress and covers the text; parsed claims are well formed; a
    claim that was stored is detected; a review decides at most once.
  \<^item> \<open>Query_Types\<close> (\<^verbatim>\<open>router/types.py\<close>), \<open>Memory_Router\<close> (\<^verbatim>\<open>router/real_adapter.py\<close>, \<^verbatim>\<open>router/normalize.py\<close>): the adapter;
    its limit is bounded and an ingested claim is read back. \<open>Crosswalk\<close> (the table, \<^verbatim>\<open>router/crosswalk_seed.py\<close> and
    the look-up), \<open>Backfill_Runner\<close> (\<^verbatim>\<open>router/backfill.py\<close>), \<open>Corpus_Backfill\<close> (\<^verbatim>\<open>router/crosswalk_backfill.py\<close>): an
    apply performs the plan and nothing else, and a mapped row is found by the look-up.
  \<^item> \<open>Breaker\<close> (\<^verbatim>\<open>router/circuit_breaker.py\<close>), \<open>Sqlite_Gate\<close> (\<^verbatim>\<open>router/sqlite_gate.py\<close>: threads as an inductive step
    relation), \<open>Shadow\<close> (\<^verbatim>\<open>router/shadow.py\<close>), \<open>Discrepancy_Live\<close>, \<open>Live_Arbitration\<close>, \<open>Iso_Time\<close> (the time stamps of
    the logs), \<open>Conflict_Writer\<close>, \<open>Decision_Log\<close>, \<open>Dual_Read_Metrics\<close> and \<open>Dual_Read\<close> (the files of the same names).
    Shown: the breaker trips exactly above its threshold; one thread at a time is inside a gate and every operation
    can end; the observers never change what the caller gets; what the router logged is what the metrics count.
  \<^item> \<open>Json_Text\<close> (the text \<^verbatim>\<open>json.dumps\<close> writes by default), \<open>Shadow_Log\<close> (\<^verbatim>\<open>shadow/discrepancy.py\<close> and
    \<^verbatim>\<open>src/scripts/shadow_continuity_check.py\<close>), \<open>Shadow_Checks\<close> (the same files after the interceptor of \<open>Shadow\<close> wrote
    them). Shown: equal checksum chains mean equal lines; the rates count the verdicts.
  \<^item> \<open>Canonical_Json\<close>, \<open>Audit_Row\<close> (\<^verbatim>\<open>apex/audit_writer.py\<close>), \<open>Audit_Db\<close>, \<open>Envelope\<close>, \<open>Resolver\<close>, \<open>Subject_Index\<close>,
    \<open>Apex_Router\<close>, \<open>Aphelion_Adapter\<close>, \<open>Aphelion_Ingest\<close> (\<^verbatim>\<open>apex/\<close> and \<^verbatim>\<open>router/aphelion_adapter.py\<close>). Shown: canonical
    text determines the value; a batch of audit rows is written whole or not at all; a package is ingested whole or
    not at all; reads are never served from a stale index and only return claims the packages hold; an envelope
    that was altered is refused.
  \<^item> \<open>Triggers\<close>, \<open>Audit_Log\<close> (\<^verbatim>\<open>canary/audit_log.py\<close>, \<^verbatim>\<open>outcomes.py\<close>, \<^verbatim>\<open>rollback_state.py\<close>), \<open>Event_Id\<close>,
    \<open>Idempotency\<close>, \<open>Idempotency_Threads\<close>, \<open>Rollback\<close>, \<open>Rollback_Decision\<close> (\<^verbatim>\<open>canary/\<close>). Shown: the worker of an event id
    runs at most once under any interleaving and a repeat gets the stored answer; the controller trips exactly
    when the history of requests says so and never recovers without an acknowledgement.
  \<^item> \<open>Dod\<close> (\<^verbatim>\<open>canary/dod.py\<close>, \<^verbatim>\<open>canary/dod_prometheus.py\<close>): the verdict on a canary stage from the tables or from
    Prometheus. Shown: when exactly a stage passes, that other stages do not matter, and when the evaluation raises.

  \<^bold>\<open>Conventions.\<close>
  \<^item> State is passed explicitly; a handler is a function from its state to a result and the new state. Threads are
    steps of an \<open>inductive\<close> relation. An exception is an \<open>Inl\<close> of the component's error type; a \<^verbatim>\<open>try\<close> block is a
    case distinction on it.
  \<^item> Clocks, identifiers (ULIDs, random bits), the environment, the failure of an SQLite call or of a file
    operation are arguments of the operation that meets them. A commit of another connection between two
    statements is a function on the tables.
  \<^item> Library results are parameters with named hypotheses where a property needs one: SHA-256, Unicode NFC,
    \<^verbatim>\<open>json.loads\<close>, the \<^verbatim>\<open>aphelion\<close> package reader, the order SQLite gives to rows that tie in \<^verbatim>\<open>ORDER BY\<close>.
  \<^item> Characters are those of \<^typ>\<open>char\<close> (code points below 256); JSON text is either a list of characters or, where
    only its identity matters, a value of a datatype of texts. Floating-point numbers are exact rationals, so a
    comparison at a boundary is that of the reals; integers of the source are \<^typ>\<open>int\<close> or \<^typ>\<open>nat\<close>, as Python's.
  \<^item> Loops that always end are structural or carry a measure. The chunker, which does not end for some arguments, is
    a \<open>partial_function (option)\<close>, and the property says when it returns. No definition runs on fuel.

  \<^bold>\<open>Not modelled.\<close> The FastAPI server (\<^verbatim>\<open>server/\<close>), the command lines, the rendering of metrics and of logs, and the
  canary's drills and exporter are wiring and output. Model calls (\<^verbatim>\<open>llm/\<close>, \<^verbatim>\<open>answer/\<close>, semantic retrieval, the
  extraction providers) are remote services. Migrations, backup and restore are SQL text and file copies.
  \<^verbatim>\<open>src/eval\<close> and the other scripts of \<^verbatim>\<open>src/scripts\<close> are offline experiments. Inside modelled files: log records, connection handling, the
  registration of Prometheus collectors, the background checkpoint of the write-ahead log and the validation of
  directory paths at start-up. Of the timing of the two calls of a dual read only the outcome (answered, failed,
  timed out) is an argument; the scheduling of its thread pool is not modelled.
\<close>

end
